(* ===== verification/Prelude.thy ===== *)
theory Prelude
  imports Main "HOL-Library.Word" "HOL-Library.Sublist"
begin

text \<open>
  What every other theory shares: the byte and error types of the Go program, the outcome of a
  call that may panic, the collections of rewrite rules the component proofs use, and a few
  generic lemmas on lists.

  Go strings are byte strings and are modelled by \<open>string\<close>, whose characters are bytes.  A
  \<open>[]byte\<close> that may be nil is \<open>bytes option\<close> (\<open>None\<close> is the nil slice); a pointer
  that may be nil is an \<open>option\<close> of what it points to.
\<close>

named_theorems codec_simps
  \<open>equations of the writing and reading of messages\<close>
named_theorems adapter_simps
  \<open>equations of the broker adapter's operations\<close>

type_synonym byte = "8 word"
type_synonym bytes = "byte list"

section \<open>Errors\<close>

text \<open>
  The error values of the packages.  The sentinel errors are compared by identity in Go and are
  constructors here; \<open>Errorf\<close> is an error built from a format string, with its text, and
  \<open>ExtErr\<close> an error made by code outside the repository, with its text.
\<close>

datatype gerror =
    ErrNoReply
  | ErrTooFraquently
  | ErrTimeout
  | ErrUnknownContentEncoding
  | ErrRetailedMessage
  | ErrRequestNotProto
  | ErrInvalidRequestBody
  | ErrMessageTypeNotMatch
  | ErrShutdown
  | ErrEOF
  | ErrUnexpectedEOF
  | ServerError string
  | Errorf string
  | ExtErr string

primrec error_text :: "gerror \<Rightarrow> string" where
  "error_text ErrNoReply = ''[RRPC] empty reply''"
| "error_text ErrTooFraquently = ''[RRPC] too frequently, try again later''"
| "error_text ErrTimeout = ''[RRPC] timeout''"
| "error_text ErrUnknownContentEncoding = ''[RRPC] uknown content encoding''"
| "error_text ErrRetailedMessage =
     ''[RRPC] reatain message is not allowed, please set retaind=false''"
| "error_text ErrRequestNotProto = ''[RRPC] request type is not protobuf message''"
| "error_text ErrInvalidRequestBody = ''[RRPC] invalid request body''"
| "error_text ErrMessageTypeNotMatch = ''[RRPC] message type not match''"
| "error_text ErrShutdown = ''connection is shut down''"
| "error_text ErrEOF = ''EOF''"
| "error_text ErrUnexpectedEOF = ''unexpected EOF''"
| "error_text (ServerError s) = s"
| "error_text (Errorf s) = s"
| "error_text (ExtErr s) = s"

section \<open>Panics\<close>

datatype 'a outcome = Ret 'a | Panic string

definition nil_deref :: string where
  "nil_deref = ''runtime error: invalid memory address or nil pointer dereference''"

section \<open>Status codes\<close>

definition RPCStatusOK :: int where "RPCStatusOK = 200"
definition RPCStatusClientError :: int where "RPCStatusClientError = 400"
definition RPCStatusRequestTimeout :: int where "RPCStatusRequestTimeout = 408"
definition RPCStatusTooFraquently :: int where "RPCStatusTooFraquently = 429"
definition RPCStatusServerError :: int where "RPCStatusServerError = 500"
definition DefaultQoS :: byte where "DefaultQoS = 0"

lemmas status_defs = RPCStatusOK_def RPCStatusClientError_def RPCStatusRequestTimeout_def
  RPCStatusTooFraquently_def RPCStatusServerError_def

section \<open>Lists\<close>

lemma sum_list_ge_nth:
  fixes f :: "'a \<Rightarrow> nat"
  assumes "i < length xs"
  shows "f (xs ! i) \<le> sum_list (map f xs)"
proof -
  have "f (xs ! i) \<in> set (map f xs)"
    using assms by simp
  then show ?thesis by (rule member_le_sum_list) simp
qed

lemma sum_list_update_nat:
  fixes f :: "'a \<Rightarrow> nat"
  shows "i < length xs \<Longrightarrow>
    sum_list (map f (xs[i := y])) + f (xs ! i) = sum_list (map f xs) + f y"
proof (induction xs arbitrary: i)
  case (Cons x xs)
  then show ?case by (cases i) auto
qed simp

end
