(* ===== verification/Go_Std.thy ===== *)
theory Go_Std
  imports Prelude
begin

text \<open>
  The functions of the Go standard library that the program computes topics and identifiers
  with: \<open>strings.Replace\<close>, \<open>path.Clean\<close> and \<open>path.Join\<close>, and
  \<open>strconv.FormatUint\<close> in base ten.
\<close>

section \<open>Replacing a substring\<close>

text \<open>
  \<open>strings.Replace\<close> for a non-empty \<open>old\<close>: from the left, without overlaps, at most
  \<open>n\<close> times, and without limit when \<open>n\<close> is negative.
\<close>

function strings_Replace :: "string \<Rightarrow> string \<Rightarrow> int \<Rightarrow> string \<Rightarrow> string" where
  "strings_Replace old new n s =
     (if n = 0 \<or> s = [] \<or> old = [] then s
      else if prefix old s then new @ strings_Replace old new (n - 1) (drop (length old) s)
      else hd s # strings_Replace old new n (tl s))"
  by pat_completeness auto
termination
  by (relation "measure (\<lambda>(old, new, n, s). length s)") auto

declare strings_Replace.simps [simp del]

definition strings_ReplaceAll :: "string \<Rightarrow> string \<Rightarrow> string \<Rightarrow> string" where
  "strings_ReplaceAll old new s = strings_Replace old new (-1) s"

lemma Replace_0 [simp]: "strings_Replace old new 0 s = s"
  by (simp add: strings_Replace.simps)

lemma Replace_Nil [simp]: "strings_Replace old new n [] = []"
  by (simp add: strings_Replace.simps)

lemma Replace_hit:
  "n \<noteq> 0 \<Longrightarrow> old \<noteq> [] \<Longrightarrow>
   strings_Replace old new n (old @ s) = new @ strings_Replace old new (n - 1) s"
  by (simp add: strings_Replace.simps [of old new n "old @ s"])

lemma Replace_miss:
  "n \<noteq> 0 \<Longrightarrow> old \<noteq> [] \<Longrightarrow> \<not> prefix old (c # s) \<Longrightarrow>
   strings_Replace old new n (c # s) = c # strings_Replace old new n s"
  by (simp add: strings_Replace.simps [of old new n "c # s"])

text \<open>With a negative limit the limit does not count.\<close>

lemma Replace_negative: "n < 0 \<Longrightarrow> strings_Replace old new n s = strings_ReplaceAll old new s"
proof (induction "length s" arbitrary: n s rule: less_induct)
  case less
  then have IH: "strings_Replace old new m r = strings_Replace old new k r"
    if "length r < length s" and "m < 0" and "k < 0" for m k r
    using that by simp
  show ?case
    unfolding strings_ReplaceAll_def
    using less.prems
    by (simp add: strings_Replace.simps [of old new n s] strings_Replace.simps [of old new "-1" s])
      (auto intro!: IH)
qed

text \<open>
  Every string is empty, starts with an occurrence, or starts with a character that is kept.
\<close>

lemma Replace_shape [case_names empty hit miss]:
  fixes s old :: string
  obtains "s = []" | r where "s = old @ r" | c r where "s = c # r" and "\<not> prefix old (c # r)"
  by (cases s) (auto simp: prefix_def)

text \<open>A string without an occurrence is left alone, and only such a string keeps its length.\<close>

lemma Replace_no_occurrence: "\<not> sublist old s \<Longrightarrow> strings_Replace old new n s = s"
proof (induction s)
  case (Cons c s)
  then have "\<not> prefix old (c # s)" and "\<not> sublist old s"
    by (auto simp: sublist_Cons_right)
  with Cons.IH show ?case
    by (cases "n = 0 \<or> old = []") (auto simp: Replace_miss)
qed simp

lemma Replace_length:
  assumes "length old < length new"
  shows "length s \<le> length (strings_Replace old new n s)"
proof (induction "length s" arbitrary: n s rule: less_induct)
  case less
  show ?case
  proof (cases "n = 0 \<or> old = []")
    case True
    then show ?thesis by (auto simp: strings_Replace.simps [of old new n s])
  next
    case False
    show ?thesis
    proof (cases rule: Replace_shape [where s = s and old = old])
      case (hit r)
      with False less [of r "n - 1"] assms show ?thesis by (simp add: Replace_hit)
    next
      case (miss c r)
      with False less [of r n] show ?thesis by (simp add: Replace_miss)
    qed simp
  qed
qed

lemma Replace_set: "set (strings_Replace old new n s) \<subseteq> set s \<union> set new"
proof (induction "length s" arbitrary: n s rule: less_induct)
  case less
  show ?case
  proof (cases "n = 0 \<or> old = []")
    case True
    then show ?thesis by (auto simp: strings_Replace.simps [of old new n s])
  next
    case False
    show ?thesis
    proof (cases rule: Replace_shape [where s = s and old = old])
      case (hit r)
      with False less [of r "n - 1"] show ?thesis by (auto simp: Replace_hit)
    next
      case (miss c r)
      with False less [of r n] show ?thesis by (auto simp: Replace_miss)
    qed simp
  qed
qed

lemma Replace_occurrence_longer:
  assumes "length old < length new" and "old \<noteq> []" and "n \<noteq> 0"
  shows "sublist old s \<Longrightarrow> length s < length (strings_Replace old new n s)"
proof (induction s)
  case (Cons c s)
  show ?case
  proof (cases "prefix old (c # s)")
    case True
    then obtain r where "c # s = old @ r" by (auto simp: prefix_def)
    with assms Replace_length [of old new r "n - 1"] show ?thesis
      by (simp add: Replace_hit)
  next
    case False
    with Cons assms show ?thesis by (auto simp: Replace_miss sublist_Cons_right)
  qed
qed (use assms in simp)

text \<open>
  A character that does not occur in \<open>old\<close> separates the string: every occurrence is on one
  side of it.
\<close>

lemma prefix_before_separator:
  "c \<notin> set old \<Longrightarrow> prefix old (a @ c # b) \<longleftrightarrow> prefix old a"
proof (induction old arbitrary: a)
  case (Cons x old)
  then show ?case by (cases a) auto
qed simp

lemma sublist_separator:
  "c \<notin> set old \<Longrightarrow> old \<noteq> [] \<Longrightarrow> sublist old (a @ c # b) \<longleftrightarrow> sublist old a \<or> sublist old b"
proof (induction a)
  case Nil
  then show ?case by (cases old) (auto simp: sublist_Cons_right)
next
  case (Cons x a)
  then show ?case
    using prefix_before_separator [of c old "x # a" b] by (auto simp: sublist_Cons_right)
qed

lemma ReplaceAll_separator:
  assumes "c \<notin> set old" and "old \<noteq> []"
  shows "strings_ReplaceAll old new (a @ c # b)
       = strings_ReplaceAll old new a @ c # strings_ReplaceAll old new b"
proof (induction "length a" arbitrary: a rule: less_induct)
  case less
  show ?case
  proof (cases rule: Replace_shape [where s = a and old = old])
    case empty
    with assms prefix_before_separator [of c old "[]" b] show ?thesis
      by (simp add: strings_ReplaceAll_def Replace_miss)
  next
    case (hit r)
    with assms less [of r] show ?thesis
      by (simp add: strings_ReplaceAll_def Replace_hit) (simp add: Replace_negative)
  next
    case (miss x r)
    with assms prefix_before_separator [of c old a b] less [of r] show ?thesis
      by (simp add: strings_ReplaceAll_def Replace_miss)
  qed
qed

lemma ReplaceFirst_separator:
  assumes "c \<notin> set old" and "old \<noteq> []"
  shows "strings_Replace old new 1 (a @ c # b)
       = (if sublist old a then strings_Replace old new 1 a @ c # b
          else a @ c # strings_Replace old new 1 b)"
proof (induction a)
  case Nil
  with assms prefix_before_separator [of c old "[]" b] show ?case
    by (simp add: Replace_miss)
next
  case (Cons x a)
  show ?case
  proof (cases "prefix old (x # a)")
    case True
    then obtain r where r: "x # a = old @ r" by (auto simp: prefix_def)
    then have "sublist old (x # a)" by simp
    moreover have "(x # a) @ c # b = old @ r @ c # b" using r by simp
    ultimately show ?thesis
      using assms r by (simp only: Replace_hit) (simp add: Replace_hit)
  next
    case False
    with assms prefix_before_separator [of c old "x # a" b] Cons show ?thesis
      by (auto simp: Replace_miss sublist_Cons_right)
  qed
qed

section \<open>Splitting and joining at a separator\<close>

fun split_on :: "char \<Rightarrow> string \<Rightarrow> string list" where
  "split_on c [] = [[]]"
| "split_on c (x # xs) =
     (if x = c then [] # split_on c xs
      else (case split_on c xs of [] \<Rightarrow> [[x]] | h # t \<Rightarrow> (x # h) # t))"

fun join_with :: "char \<Rightarrow> string list \<Rightarrow> string" where
  "join_with c [] = []"
| "join_with c [s] = s"
| "join_with c (s # t # ts) = s @ c # join_with c (t # ts)"

lemma split_on_neq_Nil [simp]: "split_on c s \<noteq> []"
  by (induction c s rule: split_on.induct) (auto split: list.splits)

lemma split_on_free: "x \<in> set (split_on c s) \<Longrightarrow> c \<notin> set x"
  by (induction c s arbitrary: x rule: split_on.induct) (auto split: if_splits list.splits)

lemma split_on_append: "split_on c (a @ c # b) = split_on c a @ split_on c b"
  by (induction a) (auto split: list.splits)

lemma split_on_segment: "c \<notin> set s \<Longrightarrow> split_on c s = [s]"
  by (induction s) auto

lemma join_with_Cons: "ss \<noteq> [] \<Longrightarrow> join_with c (s # ss) = s @ c # join_with c ss"
  by (cases ss) auto

lemma join_with_append:
  "ss \<noteq> [] \<Longrightarrow> ts \<noteq> [] \<Longrightarrow> join_with c (ss @ ts) = join_with c ss @ c # join_with c ts"
  by (induction c ss rule: join_with.induct) (auto simp: join_with_Cons)

lemma split_join:
  "ss \<noteq> [] \<Longrightarrow> (\<And>s. s \<in> set ss \<Longrightarrow> c \<notin> set s) \<Longrightarrow> split_on c (join_with c ss) = ss"
proof (induction ss)
  case (Cons s ss)
  then show ?case
    by (cases "ss = []") (auto simp: join_with_Cons split_on_append split_on_segment)
qed simp

lemma join_inject:
  assumes "ss \<noteq> []" and "ts \<noteq> []"
    and "\<And>s. s \<in> set ss \<Longrightarrow> c \<notin> set s" and "\<And>s. s \<in> set ts \<Longrightarrow> c \<notin> set s"
  shows "join_with c ss = join_with c ts \<longleftrightarrow> ss = ts"
  using assms split_join [of ss c] split_join [of ts c] by metis

lemma ReplaceAll_join:
  assumes "c \<notin> set old" and "old \<noteq> []"
  shows "strings_ReplaceAll old new (join_with c ss)
       = join_with c (map (strings_ReplaceAll old new) ss)"
proof (induction ss)
  case (Cons s ss)
  then show ?case
    using assms by (cases "ss = []") (auto simp: join_with_Cons ReplaceAll_separator)
qed (simp add: strings_ReplaceAll_def)

lemma sublist_join:
  assumes "c \<notin> set old" and "old \<noteq> []"
  shows "sublist old (join_with c ss) \<longleftrightarrow> (\<exists>s \<in> set ss. sublist old s)"
proof (induction ss)
  case (Cons s ss)
  then show ?case
    using assms by (cases "ss = []") (auto simp: join_with_Cons sublist_separator)
qed (use assms in simp)

section \<open>Paths\<close>

text \<open>
  \<open>path.Clean\<close>, element by element: the elements kept so far are a stack (innermost first).
  An empty element and a dot are dropped; two dots remove the element before them, unless there
  is none or it is itself two dots: then they are kept, in a path that is not rooted.
\<close>

definition clean_step :: "bool \<Rightarrow> string list \<Rightarrow> string \<Rightarrow> string list" where
  "clean_step rooted st seg =
     (if seg = [] \<or> seg = ''.'' then st
      else if seg = ''..'' then
        (case st of
           [] \<Rightarrow> if rooted then [] else [''..'']
         | up # rest \<Rightarrow> if up = ''..'' then ''..'' # st else rest)
      else seg # st)"

definition clean_segments :: "bool \<Rightarrow> string \<Rightarrow> string list" where
  "clean_segments rooted p = rev (foldl (clean_step rooted) [] (split_on CHR ''/'' p))"

definition is_rooted :: "string \<Rightarrow> bool" where
  "is_rooted p = (case p of [] \<Rightarrow> False | c # _ \<Rightarrow> c = CHR ''/'')"

definition path_Clean :: "string \<Rightarrow> string" where
  "path_Clean p =
     (if p = [] then ''.''
      else let out = join_with CHR ''/'' (clean_segments (is_rooted p) p)
           in if is_rooted p then CHR ''/'' # out else if out = [] then ''.'' else out)"

text \<open>\<open>path.Join\<close>: leading empty elements are skipped, the rest is joined and cleaned.\<close>

definition join_step :: "string \<Rightarrow> string \<Rightarrow> string" where
  "join_step buf e =
     (if buf \<noteq> [] \<or> e \<noteq> [] then (if buf \<noteq> [] then buf @ ''/'' else buf) @ e else buf)"

definition path_Join :: "string list \<Rightarrow> string" where
  "path_Join elems =
     (if list_all (\<lambda>e. e = []) elems then [] else path_Clean (foldl join_step [] elems))"

text \<open>A plain element is one that cleaning keeps: no slash, not empty, not dots.\<close>

definition plain_segment :: "string \<Rightarrow> bool" where
  "plain_segment s \<longleftrightarrow> CHR ''/'' \<notin> set s \<and> s \<noteq> [] \<and> s \<noteq> ''.'' \<and> s \<noteq> ''..''"

lemma clean_step_plain: "plain_segment s \<Longrightarrow> clean_step rooted st s = s # st"
  by (simp add: plain_segment_def clean_step_def)

lemma clean_step_free:
  "(\<And>s. s \<in> set st \<Longrightarrow> c \<notin> set s) \<Longrightarrow> c \<notin> set seg \<Longrightarrow> c \<noteq> CHR ''.'' \<Longrightarrow>
   s \<in> set (clean_step rooted st seg) \<Longrightarrow> c \<notin> set s"
  by (auto simp: clean_step_def split: if_splits list.splits)

lemma clean_foldl_free:
  "(\<And>s. s \<in> set st \<Longrightarrow> CHR ''/'' \<notin> set s) \<Longrightarrow> (\<And>s. s \<in> set segs \<Longrightarrow> CHR ''/'' \<notin> set s) \<Longrightarrow>
   s \<in> set (foldl (clean_step rooted) st segs) \<Longrightarrow> CHR ''/'' \<notin> set s"
proof (induction segs arbitrary: st)
  case (Cons x segs)
  have "CHR ''/'' \<notin> set u" if "u \<in> set (clean_step rooted st x)" for u
    by (rule clean_step_free [OF Cons.prems(1) _ _ that]) (use Cons.prems(2) in auto)
  then show ?case
    using Cons.IH [of "clean_step rooted st x"] Cons.prems(2,3) by simp
qed simp

lemma clean_segments_free: "s \<in> set (clean_segments rooted p) \<Longrightarrow> CHR ''/'' \<notin> set s"
  unfolding clean_segments_def
  by (rule clean_foldl_free [of "[]" "split_on CHR ''/'' p"]) (auto dest: split_on_free)

section \<open>Decimal numbers\<close>

text \<open>\<open>strconv.FormatUint\<close> in base ten, and the reading of a decimal it is inverse to.\<close>

definition digit :: "nat \<Rightarrow> char" where
  "digit d = char_of (48 + d)"

fun format_uint :: "nat \<Rightarrow> string" where
  "format_uint n = (if n < 10 then [digit n] else format_uint (n div 10) @ [digit (n mod 10)])"

declare format_uint.simps [simp del]

definition parse_uint :: "string \<Rightarrow> nat" where
  "parse_uint s = foldl (\<lambda>acc c. 10 * acc + (of_char c - 48)) 0 s"

lemma of_char_digit: "d < 10 \<Longrightarrow> of_char (digit d) = (48 + d :: nat)"
  by (simp add: digit_def of_char_of)

lemma parse_format_uint: "parse_uint (format_uint n) = n"
proof (induction n rule: format_uint.induct)
  case (1 n)
  then show ?case
    by (simp add: format_uint.simps [of n] parse_uint_def of_char_digit)
qed

lemma format_uint_neq_Nil: "format_uint n \<noteq> []"
  by (simp add: format_uint.simps [of n])

lemma format_uint_inject: "format_uint m = format_uint n \<longleftrightarrow> m = n"
  using parse_format_uint by metis

text \<open>\<open>strconv.FormatInt\<close> in base ten.\<close>

definition format_int :: "int \<Rightarrow> string" where
  "format_int i = (if i < 0 then CHR ''-'' # format_uint (nat (- i)) else format_uint (nat i))"

end
