(* ===== verification/Request_Context.thy ===== *)
theory Request_Context
  imports Go_Std
begin

text \<open>
  The request context (\<open>context.go\<close>): the identifier, the response, the interface that a
  transport implements (\<open>ChildContext\<close>) and the context that guards it so that a request is
  answered at most once (\<open>RequestContext\<close>).

  A context is shared by goroutines: a handler, the server and whatever the handler starts may
  reply at the same time.  Each of them is a \<open>thread\<close> that runs a program of context
  operations; the operations that other threads can see happen in separate steps, in the order
  of the source, so that every interleaving is a sequence of steps.
\<close>

section \<open>Identifiers and responses\<close>

record rpc_id =
  id_Num :: "64 word"
  id_Str :: string

definition id_String :: "rpc_id \<Rightarrow> string" where
  "id_String i = (if id_Str i \<noteq> [] then id_Str i else format_uint (unat (id_Num i)))"

text \<open>\<open>Result\<close> is an interface value and may be nil, so may the error.\<close>

record 'v response =
  r_result :: "'v option"
  r_error :: "gerror option"
  r_status :: int

text \<open>
  What the program observes of the dynamic type of an interface value: its name
  (\<open>reflect.TypeOf(x).String()\<close>) and whether it implements \<open>proto.Message\<close>.
\<close>

datatype go_type = GoType (is_proto: bool) (type_string: string)

text \<open>
  A value of the interface \<open>ChildContext\<close>: its methods, over the world \<open>'w\<close> that
  \<open>Reply\<close> changes, the values \<open>'v\<close> that requests and responses carry and the
  contexts \<open>'x\<close> of the context package.  \<open>Ctx\<close> may be nil.  \<open>Bind\<close> fills
  a variable of the given type from the request, or fails, or panics.
\<close>

record ('w, 'v, 'x) child =
  c_ID :: rpc_id
  c_Method :: string
  c_Ctx :: "'x option"
  c_Reply :: "'w \<Rightarrow> 'v response option \<Rightarrow> 'w \<times> bool outcome"
  c_ReplyDesc :: string
  c_Bind :: "go_type \<Rightarrow> (gerror + 'v) outcome"

section \<open>The request context\<close>

text \<open>
  The state behind the context.  \<open>sent\<close> records the calls of the child's \<open>Reply\<close> in
  order: it is what the property "at most one answer" is about.
\<close>

record ('w, 'v) rctx =
  replyed :: bool
  res :: "'v response option"
  world :: 'w
  sent :: "'v response option list"

definition NewRequestContext :: "'w \<Rightarrow> ('w, 'v) rctx" where
  "NewRequestContext w = \<lparr>replyed = False, res = None, world = w, sent = []\<rparr>"

definition setResponse :: "'v response option \<Rightarrow> ('w, 'v) rctx \<Rightarrow> ('w, 'v) rctx" where
  "setResponse r s = s\<lparr>res := r\<rparr>"

definition GetResponse :: "('w, 'v) rctx \<Rightarrow> 'v response option" where
  "GetResponse s = res s"

definition child_reply ::
  "('w, 'v, 'x) child \<Rightarrow> 'v response option \<Rightarrow> ('w, 'v) rctx \<Rightarrow> ('w, 'v) rctx \<times> bool outcome" where
  "child_reply child r s =
     (case c_Reply child (world s) r of (w, out) \<Rightarrow> (s\<lparr>world := w, sent := sent s @ [r]\<rparr>, out))"

text \<open>\<open>Reply\<close> run without interruption.\<close>

definition Reply ::
  "('w, 'v, 'x) child \<Rightarrow> 'v response option \<Rightarrow> ('w, 'v) rctx \<Rightarrow> ('w, 'v) rctx \<times> bool outcome" where
  "Reply child r s =
     (if replyed s then (s, Ret False)
      else child_reply child r (setResponse r (s\<lparr>replyed := True\<rparr>)))"

definition ok_response :: "'v option \<Rightarrow> 'v response" where
  "ok_response data = \<lparr>r_result = data, r_error = None, r_status = RPCStatusOK\<rparr>"

definition error_response :: "int \<Rightarrow> gerror option \<Rightarrow> 'v response" where
  "error_response status err = \<lparr>r_result = None, r_error = err, r_status = status\<rparr>"

definition ReplyOK ::
  "('w, 'v, 'x) child \<Rightarrow> 'v option \<Rightarrow> ('w, 'v) rctx \<Rightarrow> ('w, 'v) rctx \<times> bool outcome" where
  "ReplyOK child data = Reply child (Some (ok_response data))"

definition ReplyError ::
  "('w, 'v, 'x) child \<Rightarrow> int \<Rightarrow> gerror option \<Rightarrow> ('w, 'v) rctx \<Rightarrow> ('w, 'v) rctx \<times> bool outcome" where
  "ReplyError child status err = Reply child (Some (error_response status err))"

text \<open>The context of a request, the background context when the child has none.\<close>

definition Ctx :: "'x \<Rightarrow> ('w, 'v, 'x) child \<Rightarrow> 'x" where
  "Ctx background child = (case c_Ctx child of None \<Rightarrow> background | Some x \<Rightarrow> x)"

section \<open>Programs that use a context\<close>

text \<open>
  What a handler does with its context: it ends, panics, replies (and goes on with the result),
  binds the request or reads the response.  The rest of a handler is the HOL function between
  one operation and the next.
\<close>

datatype 'v hprog =
    HReturn
  | HPanic string
  | HReply "'v response option" "bool \<Rightarrow> 'v hprog"
  | HBind go_type "gerror + 'v \<Rightarrow> 'v hprog"
  | HGetResponse "'v response option \<Rightarrow> 'v hprog"

text \<open>One program after another: the second starts where the first returns.\<close>

primrec hseq :: "'v hprog \<Rightarrow> 'v hprog \<Rightarrow> 'v hprog" where
  "hseq HReturn q = q"
| "hseq (HPanic m) q = HPanic m"
| "hseq (HReply r k) q = HReply r (\<lambda>b. hseq (k b) q)"
| "hseq (HBind t k) q = HBind t (\<lambda>x. hseq (k x) q)"
| "hseq (HGetResponse k) q = HGetResponse (\<lambda>r. hseq (k r) q)"

text \<open>Run without interruption: the state it leaves, and whether it returned or panicked.\<close>

primrec run_prog ::
  "('w, 'v, 'x) child \<Rightarrow> 'v hprog \<Rightarrow> ('w, 'v) rctx \<Rightarrow> ('w, 'v) rctx \<times> unit outcome" where
  "run_prog child HReturn s = (s, Ret ())"
| "run_prog child (HPanic m) s = (s, Panic m)"
| "run_prog child (HReply r k) s =
     (case Reply child r s of
        (s', Ret b) \<Rightarrow> run_prog child (k b) s'
      | (s', Panic m) \<Rightarrow> (s', Panic m))"
| "run_prog child (HBind t k) s =
     (case c_Bind child t of Ret x \<Rightarrow> run_prog child (k x) s | Panic m \<Rightarrow> (s, Panic m))"
| "run_prog child (HGetResponse k) s = run_prog child (k (GetResponse s)) s"

section \<open>Threads\<close>

text \<open>
  A thread runs a program, is inside \<open>Reply\<close> after it won the flag and before it stored the
  response (\<open>Storing\<close>), inside \<open>Reply\<close> before it calls the child (\<open>Sending\<close>),
  or is over.
\<close>

datatype 'v thread =
    Running "'v hprog"
  | Storing "'v response option" "bool \<Rightarrow> 'v hprog"
  | Sending "'v response option" "bool \<Rightarrow> 'v hprog"
  | Finished
  | Panicked string

fun thread_step ::
  "('w, 'v, 'x) child \<Rightarrow> 'v thread \<Rightarrow> ('w, 'v) rctx \<Rightarrow> 'v thread \<times> ('w, 'v) rctx" where
  "thread_step child (Running HReturn) s = (Finished, s)"
| "thread_step child (Running (HPanic m)) s = (Panicked m, s)"
| "thread_step child (Running (HReply r k)) s =
     (if replyed s then (Running (k False), s) else (Storing r k, s\<lparr>replyed := True\<rparr>))"
| "thread_step child (Storing r k) s = (Sending r k, setResponse r s)"
| "thread_step child (Sending r k) s =
     (case child_reply child r s of
        (s', Ret b) \<Rightarrow> (Running (k b), s')
      | (s', Panic m) \<Rightarrow> (Panicked m, s'))"
| "thread_step child (Running (HBind t k)) s =
     (case c_Bind child t of Ret x \<Rightarrow> (Running (k x), s) | Panic m \<Rightarrow> (Panicked m, s))"
| "thread_step child (Running (HGetResponse k)) s = (Running (k (GetResponse s)), s)"
| "thread_step child Finished s = (Finished, s)"
| "thread_step child (Panicked m) s = (Panicked m, s)"

fun halted :: "'v thread \<Rightarrow> bool" where
  "halted Finished = True"
| "halted (Panicked m) = True"
| "halted _ = False"

text \<open>Any number of threads over one context; a step is one of them moving.\<close>

inductive pool_step ::
  "('w, 'v, 'x) child \<Rightarrow> 'v thread list \<times> ('w, 'v) rctx \<Rightarrow> 'v thread list \<times> ('w, 'v) rctx \<Rightarrow> bool"
  for child where
  move: "\<not> halted t \<Longrightarrow> thread_step child t s = (t', s') \<Longrightarrow>
         pool_step child (xs @ t # ys, s) (xs @ t' # ys, s')"

inductive pool_reach ::
  "('w, 'v, 'x) child \<Rightarrow> 'v thread list \<times> ('w, 'v) rctx \<Rightarrow> 'v thread list \<times> ('w, 'v) rctx \<Rightarrow> bool"
  for child start where
  start: "pool_reach child start start"
| step: "pool_reach child start c \<Longrightarrow> pool_step child c c' \<Longrightarrow> pool_reach child start c'"

inductive_cases pool_stepE: "pool_step child (ts, s) (ts', s')"

section \<open>At most one answer\<close>

text \<open>
  The invariant: the flag is set exactly when one thread is on its way to the child or the child
  has been called, never more than one of these; the response is stored before the child is
  called, and it is the response that the child gets.
\<close>

fun replying :: "'v thread \<Rightarrow> bool" where
  "replying (Storing r k) = True"
| "replying (Sending r k) = True"
| "replying _ = False"

fun stored_ok :: "('w, 'v) rctx \<Rightarrow> 'v thread \<Rightarrow> bool" where
  "stored_ok s (Sending r k) = (res s = r)"
| "stored_ok s _ = True"

definition replying_count :: "'v thread list \<Rightarrow> nat" where
  "replying_count ts = length (filter replying ts)"

definition reply_inv :: "'v thread list \<Rightarrow> ('w, 'v) rctx \<Rightarrow> bool" where
  "reply_inv ts s \<longleftrightarrow>
     replying_count ts + length (sent s) = (if replyed s then 1 else 0)
   \<and> (\<not> replyed s \<longrightarrow> res s = None)
   \<and> list_all (stored_ok s) ts
   \<and> (\<forall>r \<in> set (sent s). res s = r)"

lemma replying_count_simps [simp]:
  "replying_count [] = 0"
  "replying_count (t # ts) = (if replying t then 1 else 0) + replying_count ts"
  "replying_count (ts @ us) = replying_count ts + replying_count us"
  by (simp_all add: replying_count_def)

lemma replying_count_0: "replying_count ts = 0 \<longleftrightarrow> (\<forall>t \<in> set ts. \<not> replying t)"
  by (auto simp: replying_count_def filter_empty_conv)

lemma stored_ok_idle: "\<not> replying t \<Longrightarrow> stored_ok s t"
  by (cases t) auto

lemma stored_ok_no_replying: "replying_count ts = 0 \<Longrightarrow> list_all (stored_ok s) ts"
  by (auto simp: replying_count_0 list_all_iff stored_ok_idle)

lemma reply_inv_new: "replying_count ts = 0 \<Longrightarrow> reply_inv ts (NewRequestContext w)"
  by (simp add: reply_inv_def NewRequestContext_def stored_ok_no_replying)

lemma stored_ok_res: "res s' = res s \<Longrightarrow> stored_ok s' t = stored_ok s t"
  by (cases t) auto

lemma list_all_stored_res: "res s' = res s \<Longrightarrow> list_all (stored_ok s') ts = list_all (stored_ok s) ts"
  by (simp add: list_all_iff stored_ok_res [of s' s])

lemma child_reply_frame:
  assumes "child_reply child r s = (s', out)"
  shows "replyed s' = replyed s" "res s' = res s" "sent s' = sent s @ [r]"
  using assms by (auto simp: child_reply_def split: prod.splits)

text \<open>
  A thread only counts through whether it is replying, so idle threads may come, go and change.
\<close>

lemma reply_inv_swap:
  "\<not> replying t \<Longrightarrow> \<not> replying t' \<Longrightarrow> reply_inv (xs @ t # ys) s \<longleftrightarrow> reply_inv (xs @ t' # ys) s"
  by (simp add: reply_inv_def stored_ok_idle)

lemma reply_inv_drop:
  "\<not> replying t \<Longrightarrow> reply_inv (xs @ t # ys) s \<longleftrightarrow> reply_inv (xs @ ys) s"
  by (simp add: reply_inv_def stored_ok_idle)

text \<open>The three steps of a reply, each on its own.\<close>

lemma reply_inv_claim:
  assumes "reply_inv (xs @ t # ys) s" and "\<not> replyed s"
  shows "reply_inv (xs @ Storing r k # ys) (s\<lparr>replyed := True\<rparr>)"
  using assms by (auto simp: reply_inv_def intro!: stored_ok_no_replying split: if_splits)

lemma reply_inv_store:
  assumes "reply_inv (xs @ Storing r k # ys) s"
  shows "reply_inv (xs @ Sending r k # ys) (setResponse r s)"
  using assms
  by (auto simp: reply_inv_def setResponse_def intro!: stored_ok_no_replying split: if_splits)

lemma reply_inv_send:
  assumes "reply_inv (xs @ Sending r k # ys) s" and "child_reply child r s = (s', out)"
    and "\<not> replying t'"
  shows "reply_inv (xs @ t' # ys) s'"
  using assms(1,3) child_reply_frame [OF assms(2)]
  by (auto simp: reply_inv_def stored_ok_idle
      list_all_stored_res [OF child_reply_frame(2) [OF assms(2)]] split: if_splits)

lemma reply_inv_step:
  assumes inv: "reply_inv (xs @ t # ys) s" and step: "thread_step child t s = (t', s')"
  shows "reply_inv (xs @ t' # ys) s'"
proof (cases t)
  case (Running p)
  with inv have idle: "reply_inv (xs @ u # ys) s" if "\<not> replying u" for u
    using that reply_inv_swap [of t u xs ys s] by simp
  show ?thesis
    using step Running idle inv reply_inv_claim [of xs t ys s]
    by (cases p) (auto split: if_splits outcome.splits)
next
  case (Storing r k)
  with inv step show ?thesis by (auto intro: reply_inv_store)
next
  case (Sending r k)
  with inv step show ?thesis
    by (auto split: prod.splits outcome.splits intro!: reply_inv_send [of xs r k ys s])
qed (use inv step in auto)

lemma pool_step_inv: "pool_step child (ts, s) (ts', s') \<Longrightarrow> reply_inv ts s \<Longrightarrow> reply_inv ts' s'"
  by (auto elim!: pool_stepE intro: reply_inv_step)

lemma pool_reach_inv:
  assumes "pool_reach child (ts, s) (ts', s')" and "reply_inv ts s"
  shows "reply_inv ts' s'"
proof -
  have "reply_inv (fst c') (snd c')" if "pool_reach child c c'" "reply_inv (fst c) (snd c)" for c c'
    using that
  proof (induction rule: pool_reach.induct)
    case (step c' c'')
    then show ?case using pool_step_inv by (cases c', cases c'') fastforce
  qed
  from this [OF assms(1)] assms(2) show ?thesis by simp
qed

section \<open>Schedules\<close>

text \<open>
  A schedule names the thread that moves next.  Naming a thread that is over, or that does not
  exist, changes nothing.
\<close>

fun pool_run ::
  "('w, 'v, 'x) child \<Rightarrow> nat list \<Rightarrow> 'v thread list \<times> ('w, 'v) rctx \<Rightarrow> 'v thread list \<times> ('w, 'v) rctx" where
  "pool_run child [] c = c"
| "pool_run child (i # is) (ts, s) =
     (if i < length ts
      then (case thread_step child (ts ! i) s of (t, s') \<Rightarrow> pool_run child is (ts[i := t], s'))
      else pool_run child is (ts, s))"

lemma pool_reach_trans:
  "pool_reach child a b \<Longrightarrow> pool_reach child b c \<Longrightarrow> pool_reach child a c"
  by (rotate_tac, induction rule: pool_reach.induct) (auto intro: pool_reach.intros)

lemma pool_step_nth:
  assumes "i < length ts" and "thread_step child (ts ! i) s = (t', s')"
  shows "pool_reach child (ts, s) (ts[i := t'], s')"
proof (cases "halted (ts ! i)")
  case True
  with assms(2) have "t' = ts ! i" "s' = s" by (auto elim!: halted.elims(2))
  with assms(1) show ?thesis by (simp add: pool_reach.start)
next
  case False
  have "pool_step child (take i ts @ ts ! i # drop (Suc i) ts, s) (take i ts @ t' # drop (Suc i) ts, s')"
    using False assms(2) by (rule pool_step.move)
  then have "pool_step child (ts, s) (ts[i := t'], s')"
    using assms(1) by (simp add: id_take_nth_drop [symmetric] upd_conv_take_nth_drop)
  with pool_reach.start show ?thesis by (rule pool_reach.step)
qed

lemma pool_run_reach: "pool_reach child c (pool_run child is c)"
proof (induction child "is" c rule: pool_run.induct)
  case (2 child i "is" ts s)
  then show ?case
    by (auto split: prod.splits intro: pool_reach_trans pool_step_nth)
qed (simp add: pool_reach.start)

section \<open>Threads run alone\<close>

text \<open>
  A thread that is not interrupted does what \<open>run_prog\<close> says: the atomic view of the
  operations is the one-thread case of the steps.
\<close>

fun thread_end :: "unit outcome \<Rightarrow> 'v thread" where
  "thread_end (Ret u) = Finished"
| "thread_end (Panic m) = Panicked m"

inductive thread_steps ::
  "('w, 'v, 'x) child \<Rightarrow> 'v thread \<times> ('w, 'v) rctx \<Rightarrow> 'v thread \<times> ('w, 'v) rctx \<Rightarrow> bool"
  for child where
  refl: "thread_steps child c c"
| step: "\<not> halted t \<Longrightarrow> thread_steps child (thread_step child t s) c \<Longrightarrow> thread_steps child (t, s) c"

definition ended :: "('w, 'v) rctx \<times> unit outcome \<Rightarrow> 'v thread \<times> ('w, 'v) rctx" where
  "ended x = (thread_end (snd x), fst x)"

lemma ended_simps [simp]:
  "ended (s, Ret u) = (Finished, s)" "ended (s, Panic m) = (Panicked m, s)"
  by (simp_all add: ended_def)

lemma sending_steps:
  assumes "\<And>b s. thread_steps child (Running (k b), s) (ended (run_prog child (k b) s))"
  shows "thread_steps child (Sending r k, s)
           (ended (case child_reply child r s of
              (s', Ret b) \<Rightarrow> run_prog child (k b) s'
            | (s', Panic m) \<Rightarrow> (s', Panic m)))"
  by (rule thread_steps.step)
    (auto split: prod.splits outcome.splits intro: thread_steps.refl assms)

lemma run_prog_steps: "thread_steps child (Running p, s) (ended (run_prog child p s))"
proof (induction p arbitrary: s)
  case (HReply r k)
  have IH: "thread_steps child (Running (k b), s) (ended (run_prog child (k b) s))" for b s
    by (rule HReply.IH) simp
  show ?case
  proof (cases "replyed s")
    case True
    with IH show ?thesis by (intro thread_steps.step) (simp_all add: Reply_def)
  next
    case False
    let ?s = "s\<lparr>replyed := True\<rparr>"
    have "thread_steps child (Storing r k, ?s) (ended (run_prog child (HReply r k) s))"
      using False sending_steps [of child k, OF IH, of r "setResponse r ?s"]
      by (intro thread_steps.step) (simp_all add: Reply_def)
    with False show ?thesis
      by (intro thread_steps.step) simp_all
  qed
next
  case (HBind t k)
  then show ?case
    by (intro thread_steps.step) (auto split: outcome.splits intro: thread_steps.refl)
qed (rule thread_steps.step; simp add: thread_steps.refl)+

lemma run_prog_hseq:
  "run_prog child (hseq p q) s =
     (case run_prog child p s of
        (s', Ret u) \<Rightarrow> run_prog child q s'
      | (s', Panic m) \<Rightarrow> (s', Panic m))"
  by (induction p arbitrary: s) (auto split: prod.splits outcome.splits)

section \<open>Programs that answer\<close>

text \<open>
  A program that replies on every path on which it returns, and one that never passes a nil
  response.
\<close>

primrec always_replies :: "'v hprog \<Rightarrow> bool" where
  "always_replies HReturn = False"
| "always_replies (HPanic m) = True"
| "always_replies (HReply r k) = True"
| "always_replies (HBind t k) = (\<forall>x. always_replies (k x))"
| "always_replies (HGetResponse k) = (\<forall>r. always_replies (k r))"

primrec no_nil_reply :: "'v hprog \<Rightarrow> bool" where
  "no_nil_reply HReturn = True"
| "no_nil_reply (HPanic m) = True"
| "no_nil_reply (HReply r k) = (r \<noteq> None \<and> (\<forall>b. no_nil_reply (k b)))"
| "no_nil_reply (HBind t k) = (\<forall>x. no_nil_reply (k x))"
| "no_nil_reply (HGetResponse k) = (\<forall>r. no_nil_reply (k r))"

lemma always_replies_hseq: "always_replies q \<Longrightarrow> always_replies (hseq p q)"
  by (induction p) auto

lemma no_nil_reply_hseq: "no_nil_reply p \<Longrightarrow> no_nil_reply q \<Longrightarrow> no_nil_reply (hseq p q)"
  by (induction p) auto

text \<open>What such programs guarantee of the state, as facts about threads that every step keeps.\<close>

fun thread_answers :: "('w, 'v) rctx \<Rightarrow> 'v thread \<Rightarrow> bool" where
  "thread_answers s (Running p) = (replyed s \<or> always_replies p)"
| "thread_answers s (Storing r k) = replyed s"
| "thread_answers s (Sending r k) = replyed s"
| "thread_answers s Finished = replyed s"
| "thread_answers s (Panicked m) = True"

fun thread_no_nil :: "'v thread \<Rightarrow> bool" where
  "thread_no_nil (Running p) = no_nil_reply p"
| "thread_no_nil (Storing r k) = (r \<noteq> None \<and> (\<forall>b. no_nil_reply (k b)))"
| "thread_no_nil (Sending r k) = (r \<noteq> None \<and> (\<forall>b. no_nil_reply (k b)))"
| "thread_no_nil Finished = True"
| "thread_no_nil (Panicked m) = True"

lemma thread_step_replyed: "thread_step child t s = (t', s') \<Longrightarrow> replyed s \<Longrightarrow> replyed s'"
  by (cases "(child, t, s)" rule: thread_step.cases)
    (auto simp: setResponse_def child_reply_frame split: if_splits prod.splits outcome.splits)

lemma thread_answers_mono: "thread_answers s t \<Longrightarrow> (replyed s \<Longrightarrow> replyed s') \<Longrightarrow> thread_answers s' t"
  by (cases t) auto

lemma thread_step_answers:
  "thread_step child t s = (t', s') \<Longrightarrow> thread_answers s t \<Longrightarrow> thread_answers s' t'"
  by (cases "(child, t, s)" rule: thread_step.cases)
    (auto simp: setResponse_def child_reply_frame split: if_splits prod.splits outcome.splits)

lemma thread_step_no_nil: "thread_step child t s = (t', s') \<Longrightarrow> thread_no_nil t \<Longrightarrow> thread_no_nil t'"
  by (cases "(child, t, s)" rule: thread_step.cases)
    (auto split: if_splits prod.splits outcome.splits)

section \<open>The contract of a transport\<close>

text \<open>
  What the core relies on of an implementation of \<open>ChildContext\<close>: the messages in the world
  grow by at most one per \<open>Reply\<close>, on the topic that \<open>ReplyDesc\<close> names, and a reply
  that carries an error does not panic and reports success.
\<close>

locale child_context =
  fixes child :: "('w, 'v, 'x) child"
    and published :: "'w \<Rightarrow> 'm list"
    and topic_of :: "'m \<Rightarrow> string"
  assumes reply_publishes:
    "c_Reply child w r = (w', out) \<Longrightarrow>
     published w' = published w \<or>
     (\<exists>m. published w' = published w @ [m] \<and> topic_of m = c_ReplyDesc child)"
  and error_reply_returns:
    "r_error x = Some e \<Longrightarrow> snd (c_Reply child w (Some x)) = Ret True"
begin

text \<open>The messages added to a world are at most as many as the calls of the child's \<open>Reply\<close>.\<close>

definition world_inv :: "'w \<Rightarrow> ('w, 'v) rctx \<Rightarrow> bool" where
  "world_inv w0 s \<longleftrightarrow>
     (\<exists>ms. published (world s) = published w0 @ ms \<and> length ms \<le> length (sent s)
         \<and> list_all (\<lambda>m. topic_of m = c_ReplyDesc child) ms)"

lemma world_inv_new: "world_inv w (NewRequestContext w)"
  by (simp add: world_inv_def NewRequestContext_def)

lemma world_inv_child_reply:
  assumes "child_reply child r s = (s', out)" and "world_inv w0 s"
  shows "world_inv w0 s'"
proof -
  obtain ms where ms: "published (world s) = published w0 @ ms" "length ms \<le> length (sent s)"
      "list_all (\<lambda>m. topic_of m = c_ReplyDesc child) ms"
    using assms(2) by (auto simp: world_inv_def)
  from assms(1) obtain w' where w': "c_Reply child (world s) r = (w', out)"
      "world s' = w'" "sent s' = sent s @ [r]"
    by (auto simp: child_reply_def split: prod.splits)
  from reply_publishes [OF w'(1)] show ?thesis
  proof (elim disjE exE conjE)
    assume "published w' = published (world s)"
    with ms w' show ?thesis unfolding world_inv_def by (intro exI [of _ ms]) simp
  next
    fix m assume "published w' = published (world s) @ [m]" "topic_of m = c_ReplyDesc child"
    with ms w' show ?thesis unfolding world_inv_def by (intro exI [of _ "ms @ [m]"]) simp
  qed
qed

lemma world_inv_frame: "world s' = world s \<Longrightarrow> sent s' = sent s \<Longrightarrow> world_inv w0 s' = world_inv w0 s"
  by (simp add: world_inv_def)

lemma world_inv_step:
  assumes "thread_step child t s = (t', s')" and "world_inv w0 s"
  shows "world_inv w0 s'"
proof (cases "\<exists>r k. t = Sending r k")
  case True
  with assms show ?thesis
    by (auto split: prod.splits outcome.splits dest: world_inv_child_reply)
next
  case False
  have "world s' = world s \<and> sent s' = sent s"
    using assms(1) False
    by (cases "(child, t, s)" rule: thread_step.cases)
      (auto simp: setResponse_def split: if_splits prod.splits outcome.splits)
  with assms(2) show ?thesis using world_inv_frame [of s' s w0] by simp
qed

text \<open>With at most one call of \<open>Reply\<close>, at most one message is added.\<close>

lemma world_inv_at_most_one:
  assumes "world_inv w0 s" and "length (sent s) \<le> 1"
  shows "published (world s) = published w0 \<or>
    (\<exists>m. published (world s) = published w0 @ [m] \<and> topic_of m = c_ReplyDesc child)"
proof -
  obtain ms where ms: "published (world s) = published w0 @ ms" "length ms \<le> length (sent s)"
      "list_all (\<lambda>m. topic_of m = c_ReplyDesc child) ms"
    using assms(1) by (auto simp: world_inv_def)
  with assms(2) have "length ms \<le> 1" by simp
  then consider "ms = []" | m where "ms = [m]" by (cases ms) auto
  then show ?thesis
  proof cases
    case 1
    with ms(1) show ?thesis by simp
  next
    case (2 m)
    with ms(1,3) have "published (world s) = published w0 @ [m] \<and> topic_of m = c_ReplyDesc child"
      by simp
    then show ?thesis by blast
  qed
qed

lemma error_child_reply: "\<exists>s'. child_reply child (Some (error_response st (Some e))) s = (s', Ret True)"
  using error_reply_returns [of "error_response st (Some e)" e "world s"]
  by (auto simp: child_reply_def error_response_def split: prod.splits)

end

section \<open>The properties of contexts\<close>

lemma pool_run_inv:
  assumes "pool_run child sched (map Running ps, NewRequestContext w) = (ts, s)"
  shows "reply_inv ts s"
proof -
  have "replying_count (map Running ps) = 0" by (simp add: replying_count_0)
  then have "reply_inv (map Running ps) (NewRequestContext w)" by (rule reply_inv_new)
  with pool_run_reach [of child "(map Running ps, NewRequestContext w)" sched] assms show ?thesis
    using pool_reach_inv by fastforce
qed

lemma pool_run_answers:
  "pool_run child sched (ts, s) = (ts', s') \<Longrightarrow> list_all (thread_answers s) ts \<Longrightarrow>
   list_all (thread_answers s') ts'"
proof (induction child sched "(ts, s)" arbitrary: ts s rule: pool_run.induct)
  case (2 child i "is" ts s)
  show ?case
  proof (cases "i < length ts")
    case True
    obtain t' s1 where step: "thread_step child (ts ! i) s = (t', s1)" by fastforce
    have "list_all (thread_answers s1) (ts[i := t'])"
      using "2.prems"(2) True thread_step_answers [OF step] thread_step_replyed [OF step]
      by (auto simp: list_all_iff dest!: set_update_subset_insert [THEN subsetD]
          intro: thread_answers_mono)
    then show ?thesis
      using "2.hyps"(1) [OF True step [symmetric]] "2.prems"(1) True step by simp
  next
    case False
    then show ?thesis using "2.hyps"(2) [OF False] "2.prems" by simp
  qed
qed simp

text \<open>
  C25. Any number of goroutines may reply through one context in any interleaving: the child's
  \<open>Reply\<close> is called at most once, with the response that \<open>GetResponse\<close> reports.
\<close>

theorem concurrent_replies_once:
  "case pool_run child sched (map Running ps, NewRequestContext w) of
     (ts, s) \<Rightarrow> sent s = [] \<or> sent s = [GetResponse s]"
proof -
  obtain ts s where run: "pool_run child sched (map Running ps, NewRequestContext w) = (ts, s)"
    by fastforce
  then have "reply_inv ts s" by (rule pool_run_inv)
  with run show ?thesis
    by (cases "sent s") (auto simp: reply_inv_def GetResponse_def split: if_splits)
qed

text \<open>
  When the goroutines that share a context all reply on every path and have all come to an
  end, at least one of them without a panic, the child's \<open>Reply\<close> was called exactly once.
\<close>

lemma concurrent_replies_answer:
  assumes "pool_run child sched (map Running ps, NewRequestContext w) = (ts, s)"
    and "list_all always_replies ps" and "list_all halted ts" and "Finished \<in> set ts"
  shows "sent s = [GetResponse s]"
proof -
  have "list_all (thread_answers s) ts"
    using pool_run_answers [OF assms(1)] assms(2) by (auto simp: list_all_iff)
  with assms(4) have "replyed s" by (auto simp: list_all_iff)
  moreover have "replying_count ts = 0"
    using assms(3) by (auto simp: replying_count_0 list_all_iff elim!: halted.elims(2))
  ultimately show ?thesis
    using pool_run_inv [OF assms(1)] by (cases "sent s") (auto simp: reply_inv_def GetResponse_def)
qed

definition two_repliers :: "nat hprog list" where
  "two_repliers = [HReply (Some (ok_response (Some 1))) (\<lambda>_. HReturn),
                   HReply (Some (ok_response (Some 2))) (\<lambda>_. HReturn)]"

definition recorder :: "(nat response option list, nat, unit) child" where
  "recorder =
     \<lparr>c_ID = \<lparr>id_Num = 1, id_Str = []\<rparr>, c_Method = ''m'', c_Ctx = None,
      c_Reply = (\<lambda>w r. (w @ [r], Ret True)), c_ReplyDesc = ''recorder'', c_Bind = (\<lambda>t. Ret (Inr 0))\<rparr>"

lemma concurrent_replies_answer_witness:
  "case pool_run recorder [1, 0, 0, 1, 0, 1, 1] (map Running two_repliers, NewRequestContext []) of
     (ts, s) \<Rightarrow> sent s = [GetResponse s]"
proof -
  have run: "pool_run recorder [1, 0, 0, 1, 0, 1, 1] (map Running two_repliers, NewRequestContext []) =
      ([Finished, Finished],
       \<lparr>replyed = True, res = Some (ok_response (Some 2)), world = [Some (ok_response (Some 2))],
        sent = [Some (ok_response (Some 2))]\<rparr>)"
    by (simp add: two_repliers_def recorder_def NewRequestContext_def setResponse_def child_reply_def)
  show ?thesis
    unfolding run prod.case
    by (rule concurrent_replies_answer [OF run]) (simp_all add: two_repliers_def)
qed

text \<open>
  The text of an identifier without a string determines its number, over all 64 bits.
\<close>

lemma id_String_number: "parse_uint (id_String \<lparr>id_Num = n, id_Str = []\<rparr>) = unat n"
  by (simp add: id_String_def parse_format_uint)

end
