(* ===== verification/Server_Core.thy ===== *)
theory Server_Core
  imports Request_Context
begin

text \<open>
  The server that every transport embeds (\<open>server.go\<close>, \<open>server_option.go\<close>): its options,
  the table of handlers, the callbacks run after each response, and \<open>Call\<close>, which admits a
  request through the rate limiter, runs its handler on a worker and answers in every case.

  The limiter (golang.org/x/time/rate) and the worker pool (tunny) are outside the repository:
  what they answer is an argument, and the moment the pool gives up on a job is a step of its own
  that may happen whenever the caller waits.
\<close>

section \<open>Options\<close>

text \<open>Durations are nanoseconds.\<close>

record server_options =
  logResponse :: bool
  so_name :: string
  workerNum :: int
  limiterDuration :: int
  limiterCount :: int
  limiterReject :: bool

type_synonym server_option = "server_options \<Rightarrow> server_options"

definition WithServerName :: "string \<Rightarrow> server_option" where
  "WithServerName name o' = o'\<lparr>so_name := name\<rparr>"

definition WithLogResponse :: "bool \<Rightarrow> server_option" where
  "WithLogResponse b o' = o'\<lparr>logResponse := b\<rparr>"

definition WithLimiter :: "int \<Rightarrow> int \<Rightarrow> server_option" where
  "WithLimiter d count o' = o'\<lparr>limiterDuration := d, limiterCount := count\<rparr>"

definition WithLimiterReject :: server_option where
  "WithLimiterReject o' = o'\<lparr>limiterReject := True\<rparr>"

definition WithLimiterWait :: server_option where
  "WithLimiterWait o' = o'\<lparr>limiterReject := False\<rparr>"

definition WithWorkerNum :: "int \<Rightarrow> server_option" where
  "WithWorkerNum count o' = o'\<lparr>workerNum := count\<rparr>"

section \<open>The server\<close>

text \<open>
  A handler's method is the program it runs on the context it is given.  The table maps a method
  to a pointer, which \<open>Register\<close> accepts even when it is nil.
\<close>

record ('w, 'v, 'x) handler =
  h_Method :: "('w, 'v, 'x) child \<Rightarrow> 'v hprog"
  h_Timeout :: int

text \<open>
  A callback run after a response: one that the user registered, or the one that
  \<open>RegisterMetrics\<close> registers, with which of the two collectors it was given.
\<close>

datatype 'u after_callback = UserCallback 'u | MetricsCallback (has_time: bool) (has_count: bool)

record 'v after_event =
  ev_Duration :: int
  ev_Res :: "'v response option"

text \<open>The parameters the limiter and the pool are made with are kept beside the options.\<close>

record ('w, 'v, 'x, 'u) server =
  handlerMap :: "string \<rightharpoonup> ('w, 'v, 'x) handler option"
  cbList :: "'u after_callback list"
  s_options :: server_options
  poolSize :: int
  limiterEvery :: int
  limiterBurst :: int

definition default_options :: "string \<Rightarrow> int \<Rightarrow> server_options" where
  "default_options uuid numCPU =
     \<lparr>logResponse = False, so_name = uuid, workerNum = numCPU, limiterDuration = 1000000000,
      limiterCount = 5, limiterReject = True\<rparr>"

definition NewServer :: "string \<Rightarrow> int \<Rightarrow> server_option list \<Rightarrow> ('w, 'v, 'x, 'u) server" where
  "NewServer uuid numCPU opts =
     (let o' = foldl (\<lambda>acc f. f acc) (default_options uuid numCPU) opts
      in \<lparr>handlerMap = Map.empty, cbList = [], s_options = o', poolSize = workerNum o',
          limiterEvery = limiterDuration o', limiterBurst = limiterCount o'\<rparr>)"

definition Register ::
  "string \<Rightarrow> ('w, 'v, 'x) handler option \<Rightarrow> ('w, 'v, 'x, 'u) server \<Rightarrow> ('w, 'v, 'x, 'u) server" where
  "Register method hdl s = s\<lparr>handlerMap := (handlerMap s)(method \<mapsto> hdl)\<rparr>"

definition OnAfterResponse ::
  "'u after_callback \<Rightarrow> ('w, 'v, 'x, 'u) server \<Rightarrow> ('w, 'v, 'x, 'u) server" where
  "OnAfterResponse cb s = s\<lparr>cbList := cbList s @ [cb]\<rparr>"

definition RegisterMetrics ::
  "bool \<Rightarrow> bool \<Rightarrow> ('w, 'v, 'x, 'u) server \<Rightarrow> ('w, 'v, 'x, 'u) server" where
  "RegisterMetrics responseTime errorCount = OnAfterResponse (MetricsCallback responseTime errorCount)"

section \<open>What happens after a response\<close>

text \<open>
  The observable actions of the deferred part of \<open>Call\<close>: the log line, the telemetry record,
  and what the callbacks do.  Labels are the name, the status and, for errors, the message.
\<close>

datatype 'u effect =
    LogResponse string int int
  | RecordRequest int string string "gerror option"
  | CallUser 'u int "int option"
  | ObserveTime string string int
  | IncError string string string

text \<open>\<open>Duration.Round\<close>, halves away from zero; the durations here are far from overflow.\<close>

definition duration_Round :: "int \<Rightarrow> int \<Rightarrow> int" where
  "duration_Round d m =
     (if m \<le> 0 then d
      else let r = \<bar>d\<bar> mod m
           in if r + r < m then sgn d * (\<bar>d\<bar> - r) else sgn d * (\<bar>d\<bar> + m - r))"

definition status_label :: "'v response option \<Rightarrow> string" where
  "status_label r = (case r of None \<Rightarrow> ''0'' | Some x \<Rightarrow> format_int (r_status x))"

text \<open>
  One callback.  The metrics callback reads the error of the response without a test for nil.
\<close>

fun run_callback ::
  "string \<Rightarrow> 'v after_event \<Rightarrow> 'u after_callback \<Rightarrow> 'u effect list \<times> unit outcome" where
  "run_callback name e (UserCallback u) =
     ([CallUser u (ev_Duration e) (map_option r_status (ev_Res e))], Ret ())"
| "run_callback name e (MetricsCallback rt ec) =
     (let observed = (if rt then [ObserveTime name (status_label (ev_Res e)) (ev_Duration e)] else [])
      in case ev_Res e of
           None \<Rightarrow> (observed, Panic nil_deref)
         | Some r \<Rightarrow>
             (case r_error r of
                Some err \<Rightarrow>
                  (observed @ (if ec then [IncError name (status_label (Some r)) (error_text err)] else []),
                   Ret ())
              | None \<Rightarrow> (observed, Ret ())))"

fun emitAfterResponse ::
  "string \<Rightarrow> 'v after_event \<Rightarrow> 'u after_callback list \<Rightarrow> 'u effect list \<times> unit outcome" where
  "emitAfterResponse name e [] = ([], Ret ())"
| "emitAfterResponse name e (cb # cbs) =
     (case run_callback name e cb of
        (fx, Panic m) \<Rightarrow> (fx, Panic m)
      | (fx, Ret u) \<Rightarrow> (case emitAfterResponse name e cbs of (fx', out) \<Rightarrow> (fx @ fx', out)))"

text \<open>
  The deferred function of \<open>Call\<close>, for the time the call took and the response that
  \<open>GetResponse\<close> returned.  The argument \<open>evt.Res.Error\<close> of \<open>RecordRequest\<close> is
  read without a test for nil.
\<close>

definition after_call ::
  "('w, 'v, 'x, 'u) server \<Rightarrow> ('w, 'v, 'x) child \<Rightarrow> int \<Rightarrow> 'v response option \<Rightarrow>
   'u effect list \<times> unit outcome" where
  "after_call srv child elapsed r =
     (let duration = duration_Round elapsed 1000000;
          status = (case r of None \<Rightarrow> 0 | Some x \<Rightarrow> r_status x);
          logged = (if logResponse (s_options srv)
                    then [LogResponse (c_ReplyDesc child) status duration] else [])
      in case r of
           None \<Rightarrow> (logged, Panic nil_deref)
         | Some x \<Rightarrow>
             (case emitAfterResponse (so_name (s_options srv))
                     \<lparr>ev_Duration = duration, ev_Res = r\<rparr> (cbList srv) of
                (fx, out) \<Rightarrow>
                  (logged @ RecordRequest duration (c_Method child) (status_label r) (r_error x) # fx, out)))"

section \<open>Call\<close>

definition unhandled_error :: "string \<Rightarrow> gerror" where
  "unhandled_error method = Errorf (''Unhandled method: '' @ method)"

definition panic_error :: "string \<Rightarrow> string \<Rightarrow> gerror" where
  "panic_error method m = Errorf (''panic in method '' @ method @ '' '' @ m)"

text \<open>A reply with an error as the last thing a goroutine does.\<close>

definition reply_error_prog :: "int \<Rightarrow> gerror \<Rightarrow> 'v hprog" where
  "reply_error_prog status err = HReply (Some (error_response status (Some err))) (\<lambda>_. HReturn)"

text \<open>
  The job that the pool runs: the handler, then an error reply that only goes out when the
  handler did not reply.
\<close>

definition job_prog :: "('w, 'v, 'x) handler \<Rightarrow> ('w, 'v, 'x) child \<Rightarrow> 'v hprog" where
  "job_prog hdl child = hseq (h_Method hdl child) (reply_error_prog RPCStatusServerError ErrNoReply)"

text \<open>
  The goroutine of \<open>Call\<close> is replying (with a program that the deferred function follows),
  waiting in \<open>ProcessTimed\<close>, or over: returned, or panicked out of \<open>Call\<close>, which takes the
  process down.  The worker is the job, or its recovery after a panic.
\<close>

datatype ('v, 'u) call_pc =
    Answering "'v thread"
  | Waiting
  | Returned "'u effect list"
  | Crashed string "'u effect list"

datatype 'v worker = Job (w_thread: "'v thread") | Recovering (w_thread: "'v thread")

record ('w, 'v, 'u) call_state =
  pc :: "('v, 'u) call_pc"
  wk :: "'v worker option"
  sh :: "('w, 'v) rctx"

text \<open>
  Up to the moment the goroutine waits or starts its reply: the limiter, then the lookup.
  \<open>allow\<close> is what the limiter's \<open>Allow\<close> answers, \<open>wait\<close> the error of its
  \<open>Wait\<close>.  A nil handler is dereferenced for its timeout, outside the recovery.
\<close>

definition call_start ::
  "('w, 'v, 'x, 'u) server \<Rightarrow> ('w, 'v, 'x) child \<Rightarrow> bool \<Rightarrow> gerror option \<Rightarrow> 'w \<Rightarrow>
   ('w, 'v, 'u) call_state" where
  "call_start srv child allow wait w =
     (let answer = (\<lambda>status err.
            \<lparr>pc = Answering (Running (reply_error_prog status err)), wk = None,
             sh = NewRequestContext w\<rparr>);
          dispatch =
            (case handlerMap srv (c_Method child) of
               None \<Rightarrow> answer RPCStatusServerError (unhandled_error (c_Method child))
             | Some None \<Rightarrow>
                 \<lparr>pc = Answering (Panicked nil_deref), wk = None, sh = NewRequestContext w\<rparr>
             | Some (Some hdl) \<Rightarrow>
                 \<lparr>pc = Waiting, wk = Some (Job (Running (job_prog hdl child))),
                  sh = NewRequestContext w\<rparr>)
      in if limiterReject (s_options srv)
         then if \<not> allow then answer RPCStatusTooFraquently ErrTooFraquently else dispatch
         else case wait of
                Some e \<Rightarrow> answer RPCStatusRequestTimeout ErrTimeout
              | None \<Rightarrow> dispatch)"

text \<open>The deferred function, and how the goroutine ends given whether it was panicking.\<close>

definition finish_call ::
  "('w, 'v, 'x, 'u) server \<Rightarrow> ('w, 'v, 'x) child \<Rightarrow> int \<Rightarrow> string option \<Rightarrow> ('w, 'v) rctx \<Rightarrow>
   ('v, 'u) call_pc" where
  "finish_call srv child elapsed panicking s =
     (case after_call srv child elapsed (GetResponse s) of
        (fx, Panic m) \<Rightarrow> Crashed m fx
      | (fx, Ret u) \<Rightarrow> (case panicking of Some m \<Rightarrow> Crashed m fx | None \<Rightarrow> Returned fx))"

text \<open>
  The steps.  \<open>GiveUp e\<close> is the pool returning the error \<open>e\<close> (a timeout) to the waiting
  goroutine; the worker goes on, as the pool does not stop it.  \<open>MainStep\<close> in
  \<open>Waiting\<close> is the pool returning the finished job.
\<close>

datatype actor = MainStep | WorkerStep | GiveUp gerror

fun main_step ::
  "('w, 'v, 'x, 'u) server \<Rightarrow> ('w, 'v, 'x) child \<Rightarrow> int \<Rightarrow> ('w, 'v, 'u) call_state \<Rightarrow>
   ('w, 'v, 'u) call_state option" where
  "main_step srv child elapsed st =
     (case pc st of
        Answering Finished \<Rightarrow> Some (st\<lparr>pc := finish_call srv child elapsed None (sh st)\<rparr>)
      | Answering (Panicked m) \<Rightarrow> Some (st\<lparr>pc := finish_call srv child elapsed (Some m) (sh st)\<rparr>)
      | Answering t \<Rightarrow>
          (case thread_step child t (sh st) of (t', s') \<Rightarrow> Some (st\<lparr>pc := Answering t', sh := s'\<rparr>))
      | Waiting \<Rightarrow>
          (case map_option w_thread (wk st) of
             Some Finished \<Rightarrow> Some (st\<lparr>pc := finish_call srv child elapsed None (sh st)\<rparr>)
           | _ \<Rightarrow> None)
      | Returned fx \<Rightarrow> None
      | Crashed m fx \<Rightarrow> None)"

fun worker_step ::
  "('w, 'v, 'x) child \<Rightarrow> ('w, 'v, 'u) call_state \<Rightarrow> ('w, 'v, 'u) call_state option" where
  "worker_step child st =
     (case wk st of
        None \<Rightarrow> None
      | Some (Job Finished) \<Rightarrow> None
      | Some (Recovering Finished) \<Rightarrow> None
      | Some (Job (Panicked m)) \<Rightarrow>
          Some (st\<lparr>wk := Some (Recovering (Running
                     (reply_error_prog RPCStatusServerError (panic_error (c_Method child) m))))\<rparr>)
      | Some (Recovering (Panicked m)) \<Rightarrow> Some (st\<lparr>pc := Crashed m [], wk := None\<rparr>)
      | Some (Job t) \<Rightarrow>
          (case thread_step child t (sh st) of (t', s') \<Rightarrow> Some (st\<lparr>wk := Some (Job t'), sh := s'\<rparr>))
      | Some (Recovering t) \<Rightarrow>
          (case thread_step child t (sh st) of
             (t', s') \<Rightarrow> Some (st\<lparr>wk := Some (Recovering t'), sh := s'\<rparr>)))"

fun call_step ::
  "('w, 'v, 'x, 'u) server \<Rightarrow> ('w, 'v, 'x) child \<Rightarrow> int \<Rightarrow> actor \<Rightarrow> ('w, 'v, 'u) call_state \<Rightarrow>
   ('w, 'v, 'u) call_state option" where
  "call_step srv child elapsed MainStep st = main_step srv child elapsed st"
| "call_step srv child elapsed WorkerStep st =
     (case pc st of Crashed m fx \<Rightarrow> None | _ \<Rightarrow> worker_step child st)"
| "call_step srv child elapsed (GiveUp e) st =
     (case pc st of
        Waiting \<Rightarrow> Some (st\<lparr>pc := Answering (Running (reply_error_prog RPCStatusServerError e))\<rparr>)
      | _ \<Rightarrow> None)"

fun call_run ::
  "('w, 'v, 'x, 'u) server \<Rightarrow> ('w, 'v, 'x) child \<Rightarrow> int \<Rightarrow> actor list \<Rightarrow> ('w, 'v, 'u) call_state \<Rightarrow>
   ('w, 'v, 'u) call_state option" where
  "call_run srv child elapsed [] st = Some st"
| "call_run srv child elapsed (a # as) st =
     (case call_step srv child elapsed a st of
        None \<Rightarrow> None
      | Some st' \<Rightarrow> call_run srv child elapsed as st')"

section \<open>The steps as a relation\<close>

text \<open>
  The same steps with one rule for each kind of move; proofs about reachable states invert these
  rules.
\<close>

inductive call_move ::
  "('w, 'v, 'x, 'u) server \<Rightarrow> ('w, 'v, 'x) child \<Rightarrow> int \<Rightarrow> ('w, 'v, 'u) call_state \<Rightarrow> actor \<Rightarrow>
   ('w, 'v, 'u) call_state \<Rightarrow> bool" for srv child elapsed st where
  answer: "pc st = Answering t \<Longrightarrow> \<not> halted t \<Longrightarrow> thread_step child t (sh st) = (t', s') \<Longrightarrow>
    call_move srv child elapsed st MainStep (st\<lparr>pc := Answering t', sh := s'\<rparr>)"
| answered: "pc st = Answering Finished \<Longrightarrow>
    call_move srv child elapsed st MainStep (st\<lparr>pc := finish_call srv child elapsed None (sh st)\<rparr>)"
| panicked: "pc st = Answering (Panicked m) \<Longrightarrow>
    call_move srv child elapsed st MainStep (st\<lparr>pc := finish_call srv child elapsed (Some m) (sh st)\<rparr>)"
| job_done: "pc st = Waiting \<Longrightarrow> wk st = Some w \<Longrightarrow> w_thread w = Finished \<Longrightarrow>
    call_move srv child elapsed st MainStep (st\<lparr>pc := finish_call srv child elapsed None (sh st)\<rparr>)"
| job: "(\<And>m fx. pc st \<noteq> Crashed m fx) \<Longrightarrow> wk st = Some (Job t) \<Longrightarrow> \<not> halted t \<Longrightarrow>
    thread_step child t (sh st) = (t', s') \<Longrightarrow>
    call_move srv child elapsed st WorkerStep (st\<lparr>wk := Some (Job t'), sh := s'\<rparr>)"
| recovering: "(\<And>m fx. pc st \<noteq> Crashed m fx) \<Longrightarrow> wk st = Some (Recovering t) \<Longrightarrow> \<not> halted t \<Longrightarrow>
    thread_step child t (sh st) = (t', s') \<Longrightarrow>
    call_move srv child elapsed st WorkerStep (st\<lparr>wk := Some (Recovering t'), sh := s'\<rparr>)"
| recover: "(\<And>m fx. pc st \<noteq> Crashed m fx) \<Longrightarrow> wk st = Some (Job (Panicked m)) \<Longrightarrow>
    call_move srv child elapsed st WorkerStep (st\<lparr>wk := Some (Recovering (Running
      (reply_error_prog RPCStatusServerError (panic_error (c_Method child) m))))\<rparr>)"
| crash: "(\<And>m fx. pc st \<noteq> Crashed m fx) \<Longrightarrow> wk st = Some (Recovering (Panicked m)) \<Longrightarrow>
    call_move srv child elapsed st WorkerStep (st\<lparr>pc := Crashed m [], wk := None\<rparr>)"
| give_up: "pc st = Waiting \<Longrightarrow>
    call_move srv child elapsed st (GiveUp e)
      (st\<lparr>pc := Answering (Running (reply_error_prog RPCStatusServerError e))\<rparr>)"

inductive_cases main_moveE: "call_move srv child elapsed st MainStep st'"
inductive_cases worker_moveE: "call_move srv child elapsed st WorkerStep st'"

lemma call_step_move: "call_step srv child elapsed a st = Some st' \<Longrightarrow> call_move srv child elapsed st a st'"
proof (cases a)
  case MainStep
  assume "call_step srv child elapsed a st = Some st'"
  with MainStep show ?thesis
    by (auto split: call_pc.splits thread.splits prod.splits option.splits intro: call_move.intros)
next
  case WorkerStep
  assume "call_step srv child elapsed a st = Some st'"
  with WorkerStep show ?thesis
    by (auto split: call_pc.splits thread.splits prod.splits option.splits worker.splits
        intro: call_move.intros)
next
  case (GiveUp e)
  assume "call_step srv child elapsed a st = Some st'"
  with GiveUp show ?thesis
    by (auto split: call_pc.splits intro: call_move.intros)
qed

lemma call_move_step: "call_move srv child elapsed st a st' \<Longrightarrow> call_step srv child elapsed a st = Some st'"
  by (induction rule: call_move.induct)
    (auto split: call_pc.splits thread.splits hprog.splits prod.splits option.splits worker.splits)

text \<open>An invariant of the moves of a set of actors is an invariant of the runs that use only these.\<close>

lemma call_run_invariant:
  assumes "call_run srv child elapsed as st = Some st'" and "I st"
    and "\<And>a st st'. a \<in> set as \<Longrightarrow> call_move srv child elapsed st a st' \<Longrightarrow> I st \<Longrightarrow> I st'"
  shows "I st'"
  using assms
proof (induction "as" arbitrary: st)
  case (Cons a as)
  from Cons.prems(1) obtain st1 where st1: "call_step srv child elapsed a st = Some st1"
      "call_run srv child elapsed as st1 = Some st'"
    by (auto split: option.splits)
  from st1(1) have "call_move srv child elapsed st a st1" by (rule call_step_move)
  with Cons.prems have "I st1" by auto
  with st1(2) show ?case by (rule Cons.IH) (use Cons.prems(3) in auto)
qed simp

lemma call_run_append:
  "call_run srv child elapsed (as @ bs) st =
     (case call_run srv child elapsed as st of
        None \<Rightarrow> None | Some st' \<Rightarrow> call_run srv child elapsed bs st')"
  by (induction "as" arbitrary: st) (auto split: option.splits)

section \<open>One answer for each call\<close>

definition pc_threads :: "('v, 'u) call_pc \<Rightarrow> 'v thread list" where
  "pc_threads p = (case p of Answering t \<Rightarrow> [t] | _ \<Rightarrow> [])"

definition wk_threads :: "'v worker option \<Rightarrow> 'v thread list" where
  "wk_threads w = (case w of None \<Rightarrow> [] | Some w' \<Rightarrow> [w_thread w'])"

lemma pc_threads_simps [simp]:
  "pc_threads (Answering t) = [t]" "pc_threads Waiting = []"
  "pc_threads (Returned fx) = []" "pc_threads (Crashed m fx) = []"
  by (simp_all add: pc_threads_def)

lemma wk_threads_simps [simp]:
  "wk_threads None = []" "wk_threads (Some w) = [w_thread w]"
  by (simp_all add: wk_threads_def)

lemma pc_threads_finish [simp]: "pc_threads (finish_call srv child elapsed p s) = []"
  by (simp add: finish_call_def split: prod.splits outcome.splits option.splits)

definition sent_ok :: "('w, 'v) rctx \<Rightarrow> bool" where
  "sent_ok s \<longleftrightarrow> sent s = [] \<or> sent s = [res s]"

fun crashed :: "('v, 'u) call_pc \<Rightarrow> bool" where
  "crashed (Crashed m fx) = True"
| "crashed _ = False"

definition call_inv :: "('w, 'v, 'u) call_state \<Rightarrow> bool" where
  "call_inv st \<longleftrightarrow>
     sent_ok (sh st) \<and> (\<not> crashed (pc st) \<longrightarrow> reply_inv (pc_threads (pc st) @ wk_threads (wk st)) (sh st))"

lemma reply_inv_sent: "reply_inv ts s \<Longrightarrow> sent_ok s"
  by (cases "sent s") (auto simp: sent_ok_def reply_inv_def split: if_splits)

lemma call_inv_alive:
  "call_inv st \<Longrightarrow> \<not> crashed (pc st) \<Longrightarrow> reply_inv (pc_threads (pc st) @ wk_threads (wk st)) (sh st)"
  by (simp add: call_inv_def)

lemma call_invI:
  "reply_inv (pc_threads (pc st) @ wk_threads (wk st)) (sh st) \<Longrightarrow> call_inv st"
  by (auto simp: call_inv_def intro: reply_inv_sent)

lemma reply_inv_step_hd:
  "reply_inv (t # ys) s \<Longrightarrow> thread_step child t s = (t', s') \<Longrightarrow> reply_inv (t' # ys) s'"
  using reply_inv_step [of "[]" t ys] by simp

lemma reply_inv_step_last:
  "reply_inv (xs @ [t]) s \<Longrightarrow> thread_step child t s = (t', s') \<Longrightarrow> reply_inv (xs @ [t']) s'"
  using reply_inv_step [of xs t "[]" s child t' s'] by simp

lemma reply_inv_drop_hd: "\<not> replying t \<Longrightarrow> reply_inv (t # ys) s \<longleftrightarrow> reply_inv ys s"
  using reply_inv_drop [of t "[]" ys] by simp

lemma reply_inv_drop_last: "\<not> replying t \<Longrightarrow> reply_inv (xs @ [t]) s \<longleftrightarrow> reply_inv xs s"
  using reply_inv_drop [of t xs "[]"] by simp

lemmas reply_inv_drops = reply_inv_drop_hd reply_inv_drop_last

lemma call_inv_move:
  assumes "call_move srv child elapsed st a st'" and "call_inv st"
  shows "call_inv st'"
  using assms
proof (induction rule: call_move.induct)
  case (crash m)
  then show ?case by (simp add: call_inv_def)
next
  case (answer t t' s')
  then show ?case by (auto intro!: call_invI dest!: call_inv_alive intro: reply_inv_step_hd)
next
  case (job t t' s')
  then have "\<not> crashed (pc st)" by (auto elim!: crashed.elims)
  with job show ?case by (auto intro!: call_invI dest!: call_inv_alive intro: reply_inv_step_last)
next
  case (recovering t t' s')
  then have "\<not> crashed (pc st)" by (auto elim!: crashed.elims)
  with recovering show ?case
    by (auto intro!: call_invI dest!: call_inv_alive intro: reply_inv_step_last)
next
  case (recover m)
  then have "\<not> crashed (pc st)" by (auto elim!: crashed.elims)
  with recover show ?case
    by (auto intro!: call_invI dest!: call_inv_alive simp: reply_inv_drops)
qed (auto intro!: call_invI dest!: call_inv_alive simp: reply_inv_drops)

lemma call_inv_start: "call_inv (call_start srv child allow wait w)"
  by (rule call_invI)
    (auto simp: call_start_def Let_def reply_inv_new split: option.splits)

lemma call_inv_run:
  assumes "call_run srv child elapsed as (call_start srv child allow wait w) = Some st"
  shows "call_inv st"
  by (rule call_run_invariant [where I = call_inv, OF assms call_inv_start call_inv_move])

text \<open>
  A call that has returned has claimed its answer, and nobody is left waiting: the goroutine ends
  only after its own reply or after the job, and both reply on every path.
\<close>

definition answers_inv :: "('w, 'v, 'u) call_state \<Rightarrow> bool" where
  "answers_inv st \<longleftrightarrow>
     list_all (thread_answers (sh st)) (pc_threads (pc st) @ wk_threads (wk st))
   \<and> (\<forall>fx. pc st = Returned fx \<longrightarrow> replyed (sh st))"

lemma reply_error_prog_answers: "always_replies (reply_error_prog status err)"
  by (simp add: reply_error_prog_def)

lemma job_prog_answers: "always_replies (job_prog hdl child)"
  by (simp add: job_prog_def always_replies_hseq reply_error_prog_answers)

lemma finish_Returned:
  "finish_call srv child elapsed p s = Returned fx \<Longrightarrow> p = None \<and> GetResponse s \<noteq> None"
  by (auto simp: finish_call_def after_call_def split: prod.splits outcome.splits option.splits)

lemma list_all_answers_mono:
  "list_all (thread_answers s) ts \<Longrightarrow> (replyed s \<Longrightarrow> replyed s') \<Longrightarrow> list_all (thread_answers s') ts"
  by (auto simp: list_all_iff intro: thread_answers_mono)

lemma answers_inv_move: "call_move srv child elapsed st a st' \<Longrightarrow> answers_inv st \<Longrightarrow> answers_inv st'"
proof (induction rule: call_move.induct)
  case (answer t t' s')
  then show ?case
    using thread_step_replyed [OF answer(3)] thread_step_answers [OF answer(3)]
    by (auto simp: answers_inv_def intro: list_all_answers_mono)
next
  case (job t t' s')
  then show ?case
    using thread_step_replyed [OF job(4)] thread_step_answers [OF job(4)]
    by (auto simp: answers_inv_def intro: list_all_answers_mono)
next
  case (recovering t t' s')
  then show ?case
    using thread_step_replyed [OF recovering(4)] thread_step_answers [OF recovering(4)]
    by (auto simp: answers_inv_def intro: list_all_answers_mono)
qed (auto simp: answers_inv_def reply_error_prog_answers dest: finish_Returned)

lemma answers_inv_start: "answers_inv (call_start srv child allow wait w)"
  by (auto simp: answers_inv_def call_start_def Let_def reply_error_prog_answers job_prog_answers
      split: option.splits)

lemma answers_inv_run:
  assumes "call_run srv child elapsed as (call_start srv child allow wait w) = Some st"
  shows "answers_inv st"
  by (rule call_run_invariant [where I = answers_inv, OF assms answers_inv_start answers_inv_move])

lemma replyed_idle_sent:
  assumes "reply_inv ts s" and "replyed s" and "replying_count ts = 0"
  shows "sent s = [res s]"
  using assms by (cases "sent s") (auto simp: reply_inv_def)

section \<open>When a call takes the process down\<close>

text \<open>The deferred function panics exactly when it finds no response.\<close>

lemma emitAfterResponse_Ret:
  "ev_Res e = Some r \<Longrightarrow> snd (emitAfterResponse name e cbs) = Ret ()"
proof (induction cbs)
  case (Cons cb cbs)
  then show ?case
    by (cases cb) (auto split: prod.splits outcome.splits option.splits)
qed simp

lemma after_call_panics: "snd (after_call srv child elapsed r) = (if r = None then Panic nil_deref else Ret ())"
proof (cases r)
  case (Some x)
  let ?e = "\<lparr>ev_Duration = duration_Round elapsed 1000000, ev_Res = Some x\<rparr>"
  obtain fx out where emit: "emitAfterResponse (so_name (s_options srv)) ?e (cbList srv) = (fx, out)"
    by fastforce
  then have "out = Ret ()"
    using emitAfterResponse_Ret [of ?e x "so_name (s_options srv)" "cbList srv"] by simp
  with emit Some show ?thesis by (simp add: after_call_def Let_def)
qed (simp add: after_call_def)

lemma finish_crashed:
  "crashed (finish_call srv child elapsed p s) \<longleftrightarrow> p \<noteq> None \<or> GetResponse s = None"
  using after_call_panics [of srv child elapsed "GetResponse s"]
  by (auto simp: finish_call_def split: prod.splits outcome.splits option.splits if_splits)

text \<open>
  What the server assumes of a transport here: a reply that carries an error returns.  Of the
  handlers: none is nil, and none replies with a nil response.
\<close>

definition error_replies_return :: "('w, 'v, 'x) child \<Rightarrow> bool" where
  "error_replies_return child \<longleftrightarrow>
     (\<forall>w status e. snd (c_Reply child w (Some (error_response status (Some e)))) = Ret True)"

definition handlers_ok :: "('w, 'v, 'x, 'u) server \<Rightarrow> ('w, 'v, 'x) child \<Rightarrow> bool" where
  "handlers_ok srv child \<longleftrightarrow>
     (case handlerMap srv (c_Method child) of
        None \<Rightarrow> True
      | Some None \<Rightarrow> False
      | Some (Some hdl) \<Rightarrow> no_nil_reply (h_Method hdl child))"

text \<open>A goroutine that does nothing but reply with an error.\<close>

definition calm :: "'v thread \<Rightarrow> bool" where
  "calm t \<longleftrightarrow> t = Running HReturn \<or> t = Finished \<or>
     (\<exists>status e. let r = Some (error_response status (Some e)) in
        t = Running (HReply r (\<lambda>_. HReturn)) \<or> t = Storing r (\<lambda>_. HReturn) \<or>
        t = Sending r (\<lambda>_. HReturn))"

lemma calm_reply_error: "calm (Running (reply_error_prog status e))"
  by (auto simp: calm_def reply_error_prog_def Let_def)

lemma reply_error_prog_no_nil: "no_nil_reply (reply_error_prog status e)"
  by (simp add: reply_error_prog_def)

lemma calm_not_panicked: "\<not> calm (Panicked m)"
  by (auto simp: calm_def Let_def)

lemma calm_step:
  assumes "thread_step child t s = (t', s')" and "calm t" and "error_replies_return child"
  shows "calm t'"
proof -
  have err: "\<exists>w. c_Reply child v (Some (error_response status (Some e))) = (w, Ret True)" for v status e
    using assms(3) by (metis error_replies_return_def prod.collapse)
  from assms(2) consider "t = Running HReturn" | "t = Finished"
    | status e where "t = Running (HReply (Some (error_response status (Some e))) (\<lambda>_. HReturn))"
    | status e where "t = Storing (Some (error_response status (Some e))) (\<lambda>_. HReturn)"
    | status e where "t = Sending (Some (error_response status (Some e))) (\<lambda>_. HReturn)"
    by (auto simp: calm_def Let_def)
  then show ?thesis
  proof cases
    case (5 status e)
    with assms(1) err [of "world s" status e] show ?thesis
      by (auto simp: calm_def child_reply_def)
  qed (use assms(1) in \<open>auto simp: calm_def Let_def split: if_splits\<close>)
qed

definition calm_inv :: "('w, 'v, 'u) call_state \<Rightarrow> bool" where
  "calm_inv st \<longleftrightarrow>
     (\<forall>t. pc st = Answering t \<longrightarrow> calm t)
   \<and> (\<forall>t. wk st = Some (Recovering t) \<longrightarrow> calm t)
   \<and> list_all thread_no_nil (pc_threads (pc st) @ wk_threads (wk st))
   \<and> None \<notin> set (sent (sh st))"

lemma thread_step_sent_no_nil:
  "thread_step child t s = (t', s') \<Longrightarrow> thread_no_nil t \<Longrightarrow> None \<notin> set (sent s) \<Longrightarrow> None \<notin> set (sent s')"
  by (cases "(child, t, s)" rule: thread_step.cases)
    (auto simp: setResponse_def child_reply_frame split: if_splits prod.splits outcome.splits)

lemma calm_no_nil: "calm t \<Longrightarrow> thread_no_nil t"
  by (auto simp: calm_def Let_def)

lemma calm_inv_move:
  assumes "call_move srv child elapsed st a st'" and "calm_inv st" and "error_replies_return child"
  shows "calm_inv st'"
  using assms
proof (induction rule: call_move.induct)
  case (answer t t' s')
  then show ?case
    using calm_step [OF answer(3)] thread_step_no_nil [OF answer(3)]
      thread_step_sent_no_nil [OF answer(3)]
    by (auto simp: calm_inv_def)
next
  case (job t t' s')
  then show ?case
    using thread_step_no_nil [OF job(4)] thread_step_sent_no_nil [OF job(4)]
    by (auto simp: calm_inv_def)
next
  case (recovering t t' s')
  then show ?case
    using calm_step [OF recovering(4)] thread_step_no_nil [OF recovering(4)]
      thread_step_sent_no_nil [OF recovering(4)]
    by (auto simp: calm_inv_def)
next
  case (job_done w)
  then show ?case
    by (auto simp: calm_inv_def finish_call_def split: prod.splits outcome.splits option.splits)
next
  case answered
  then show ?case
    by (auto simp: calm_inv_def finish_call_def split: prod.splits outcome.splits option.splits)
next
  case (panicked m)
  then show ?case
    by (auto simp: calm_inv_def finish_call_def split: prod.splits outcome.splits option.splits)
next
  case (recover m)
  then show ?case by (auto simp: calm_inv_def calm_reply_error reply_error_prog_no_nil)
next
  case (crash m)
  then show ?case by (auto simp: calm_inv_def)
next
  case (give_up e)
  then show ?case by (auto simp: calm_inv_def calm_reply_error reply_error_prog_no_nil)
qed

lemma calm_inv_start:
  "handlers_ok srv child \<Longrightarrow> calm_inv (call_start srv child allow wait w)"
  by (auto simp: calm_inv_def call_start_def Let_def handlers_ok_def NewRequestContext_def job_prog_def
      calm_reply_error reply_error_prog_no_nil intro!: no_nil_reply_hseq split: option.splits)

lemma calm_inv_run:
  assumes "call_run srv child elapsed as (call_start srv child allow wait w) = Some st"
    and "handlers_ok srv child" and "error_replies_return child"
  shows "calm_inv st"
  by (rule call_run_invariant [where I = calm_inv, OF assms(1) calm_inv_start [OF assms(2)]])
    (rule calm_inv_move [OF _ _ assms(3)])

text \<open>
  The nil dereference needs a worker that has claimed the answer and not yet stored it, at the
  moment the goroutine of the call, which gave up waiting, runs its deferred function.
\<close>

lemma crash_window:
  assumes "call_inv st" and "answers_inv st" and "calm_inv st"
    and "call_move srv child elapsed st MainStep st'" and "crashed (pc st')"
  shows "\<exists>w r k. wk st = Some w \<and> w_thread w = Storing r k \<and> pc st = Answering Finished"
  using assms(4)
proof cases
  case answered
  with assms(5) have none: "res (sh st) = None" by (simp add: finish_crashed GetResponse_def)
  from answered have "replyed (sh st)" using assms(2) by (simp add: answers_inv_def)
  moreover have inv: "reply_inv (wk_threads (wk st)) (sh st)"
    using call_inv_alive [OF assms(1)] answered by (simp add: reply_inv_drops)
  moreover have "sent (sh st) = []"
    using assms(1,3) none by (auto simp: call_inv_def sent_ok_def calm_inv_def)
  ultimately obtain w where w: "wk st = Some w" "replying (w_thread w)" "stored_ok (sh st) (w_thread w)"
    by (cases "wk st") (auto simp: reply_inv_def split: if_splits)
  moreover have "thread_no_nil (w_thread w)"
    using assms(3) w(1) by (auto simp: calm_inv_def)
  ultimately show ?thesis
    using none answered by (cases "w_thread w") auto
next
  case (panicked m)
  then show ?thesis using assms(3) by (simp add: calm_inv_def calm_not_panicked)
next
  case (job_done w)
  with assms(5) have none: "res (sh st) = None" by (simp add: finish_crashed GetResponse_def)
  from job_done have "replyed (sh st)" using assms(2) by (simp add: answers_inv_def)
  moreover have "reply_inv [Finished] (sh st)"
    using call_inv_alive [OF assms(1)] job_done by simp
  ultimately have "sent (sh st) = [None]"
    using replyed_idle_sent [of "[Finished]" "sh st"] none by simp
  then show ?thesis using assms(3) by (simp add: calm_inv_def)
qed (use assms(5) in auto)

text \<open>Without a timeout the goroutine replies only when there is no worker.\<close>

definition no_timeout_inv :: "('w, 'v, 'u) call_state \<Rightarrow> bool" where
  "no_timeout_inv st \<longleftrightarrow>
     \<not> crashed (pc st) \<and> (\<forall>t. pc st = Answering t \<longrightarrow> wk st = None)
   \<and> call_inv st \<and> answers_inv st \<and> calm_inv st"

lemma no_timeout_move:
  assumes "call_move srv child elapsed st a st'" and "no_timeout_inv st" and "\<forall>e. a \<noteq> GiveUp e"
    and "error_replies_return child"
  shows "no_timeout_inv st'"
proof -
  have inv: "call_inv st'" "answers_inv st'" "calm_inv st'"
    using assms call_inv_move answers_inv_move calm_inv_move by (auto simp: no_timeout_inv_def)
  show ?thesis
  proof (cases a)
    case MainStep
    have "\<not> crashed (pc st')"
      using crash_window [of st srv child elapsed st'] assms MainStep
      by (auto simp: no_timeout_inv_def)
    moreover have "wk st' = wk st"
      using assms(1) unfolding MainStep by (auto elim!: main_moveE)
    moreover have "\<exists>t. pc st = Answering t" if "pc st' = Answering t" for t
      using that assms(1) unfolding MainStep
      by (auto elim!: main_moveE simp: finish_call_def split: prod.splits outcome.splits option.splits)
    ultimately show ?thesis
      using inv assms(2) by (auto simp: no_timeout_inv_def)
  next
    case WorkerStep
    with assms(1,2) inv show ?thesis
      by (auto elim!: worker_moveE simp: no_timeout_inv_def calm_inv_def calm_not_panicked)
  qed (use assms(3) in auto)
qed

lemma call_start_shape:
  "\<not> crashed (pc (call_start srv child allow wait w))"
  "pc (call_start srv child allow wait w) = Answering t \<Longrightarrow> wk (call_start srv child allow wait w) = None"
  by (auto simp: call_start_def Let_def split: option.splits if_splits)

lemma no_timeout_start:
  "handlers_ok srv child \<Longrightarrow> no_timeout_inv (call_start srv child allow wait w)"
  by (simp add: no_timeout_inv_def call_start_shape call_inv_start answers_inv_start calm_inv_start)

lemma no_timeout_run:
  assumes "call_run srv child elapsed as (call_start srv child allow wait w) = Some st"
    and "handlers_ok srv child" and "error_replies_return child" and "\<forall>e. GiveUp e \<notin> set as"
  shows "no_timeout_inv st"
  by (rule call_run_invariant [where I = no_timeout_inv, OF assms(1) no_timeout_start [OF assms(2)]])
    (use no_timeout_move assms(3,4) in blast)

section \<open>A call without a timeout\<close>

text \<open>The worker alone, and the goroutine of the call alone, run a thread to its end.\<close>

lemma job_steps:
  assumes "thread_steps child c c'" and "\<not> crashed (pc st)" and "J = Job \<or> J = Recovering"
  shows "\<exists>n. call_run srv child elapsed (replicate n WorkerStep) (st\<lparr>wk := Some (J (fst c)), sh := snd c\<rparr>)
           = Some (st\<lparr>wk := Some (J (fst c')), sh := snd c'\<rparr>)"
  using assms(1)
proof (induction rule: thread_steps.induct)
  case (refl c)
  show ?case by (rule exI [of _ 0]) simp
next
  case (step t s c)
  then obtain n where n: "call_run srv child elapsed (replicate n WorkerStep)
      (st\<lparr>wk := Some (J (fst (thread_step child t s))), sh := snd (thread_step child t s)\<rparr>)
      = Some (st\<lparr>wk := Some (J (fst c)), sh := snd c\<rparr>)"
    by blast
  have "call_step srv child elapsed WorkerStep (st\<lparr>wk := Some (J t), sh := s\<rparr>)
      = Some (st\<lparr>wk := Some (J (fst (thread_step child t s))), sh := snd (thread_step child t s)\<rparr>)"
    using step.hyps(1) assms(2,3)
    by (cases t; cases "pc st") (auto split: prod.splits)
  with n show ?case by (intro exI [of _ "Suc n"]) simp
qed

lemma main_steps:
  assumes "thread_steps child c c'"
  shows "\<exists>n. call_run srv child elapsed (replicate n MainStep) (st\<lparr>pc := Answering (fst c), sh := snd c\<rparr>)
           = Some (st\<lparr>pc := Answering (fst c'), sh := snd c'\<rparr>)"
  using assms
proof (induction rule: thread_steps.induct)
  case (refl c)
  show ?case by (rule exI [of _ 0]) simp
next
  case (step t s c)
  then obtain n where n: "call_run srv child elapsed (replicate n MainStep)
      (st\<lparr>pc := Answering (fst (thread_step child t s)), sh := snd (thread_step child t s)\<rparr>)
      = Some (st\<lparr>pc := Answering (fst c), sh := snd c\<rparr>)"
    by blast
  have "call_step srv child elapsed MainStep (st\<lparr>pc := Answering t, sh := s\<rparr>)
      = Some (st\<lparr>pc := Answering (fst (thread_step child t s)), sh := snd (thread_step child t s)\<rparr>)"
    using step.hyps(1) by (cases t) (auto split: prod.splits)
  with n show ?case by (intro exI [of _ "Suc n"]) simp
qed

text \<open>
  What a job leaves behind when it is not interrupted: the handler and the error reply after it,
  and, after a panic, the reply of the recovery.
\<close>

definition job_result ::
  "('w, 'v, 'x) child \<Rightarrow> ('w, 'v, 'x) handler \<Rightarrow> ('w, 'v) rctx \<Rightarrow> ('w, 'v) rctx" where
  "job_result child hdl s =
     (case run_prog child (job_prog hdl child) s of
        (s', Ret u) \<Rightarrow> s'
      | (s', Panic m) \<Rightarrow>
          fst (run_prog child (reply_error_prog RPCStatusServerError (panic_error (c_Method child) m)) s'))"

lemma Reply_error:
  assumes "error_replies_return child"
  shows "snd (run_prog child (reply_error_prog status e) s) = Ret ()"
    and "res (fst (run_prog child (reply_error_prog status e) s))
       = (if replyed s then res s else Some (error_response status (Some e)))"
    and "replyed (fst (run_prog child (reply_error_prog status e) s))"
proof -
  have "\<exists>w. c_Reply child v (Some (error_response status (Some e))) = (w, Ret True)" for v
    using assms by (metis error_replies_return_def prod.collapse)
  then obtain w where "c_Reply child (world s) (Some (error_response status (Some e))) = (w, Ret True)"
    by blast
  then have "run_prog child (reply_error_prog status e) s =
      (if replyed s then s
       else s\<lparr>replyed := True, res := Some (error_response status (Some e)), world := w,
              sent := sent s @ [Some (error_response status (Some e))]\<rparr>, Ret ())"
    by (simp add: reply_error_prog_def Reply_def child_reply_def setResponse_def)
  then show "snd (run_prog child (reply_error_prog status e) s) = Ret ()"
    and "res (fst (run_prog child (reply_error_prog status e) s))
       = (if replyed s then res s else Some (error_response status (Some e)))"
    and "replyed (fst (run_prog child (reply_error_prog status e) s))"
    by simp_all
qed

lemma job_result_response:
  assumes "error_replies_return child"
  shows "res (job_result child hdl s) =
     (case run_prog child (h_Method hdl child) s of
        (s', out) \<Rightarrow>
          if replyed s' then res s'
          else Some (error_response RPCStatusServerError (Some
                 (case out of Ret u \<Rightarrow> ErrNoReply | Panic m \<Rightarrow> panic_error (c_Method child) m))))"
proof -
  obtain s' out where run: "run_prog child (h_Method hdl child) s = (s', out)" by fastforce
  obtain s2 where s2: "run_prog child (reply_error_prog RPCStatusServerError ErrNoReply) s' = (s2, Ret ())"
    using Reply_error(1) [OF assms] by (metis prod.collapse)
  show ?thesis
    using run s2 Reply_error(2) [OF assms, of RPCStatusServerError ErrNoReply s'] Reply_error(2) [OF assms]
    by (cases out) (auto simp: job_result_def job_prog_def run_prog_hseq)
qed

text \<open>With no timeout the worker and then the goroutine run to their ends.\<close>

definition dispatched ::
  "('w, 'v, 'x, 'u) server \<Rightarrow> ('w, 'v, 'x) child \<Rightarrow> bool \<Rightarrow> gerror option \<Rightarrow> ('w, 'v, 'x) handler \<Rightarrow> bool" where
  "dispatched srv child allow wait hdl \<longleftrightarrow>
     (if limiterReject (s_options srv) then allow else wait = None)
   \<and> (case handlerMap srv (c_Method child) of Some (Some h) \<Rightarrow> h = hdl | _ \<Rightarrow> False)"

text \<open>The limiter lets a request through.\<close>

definition admits :: "('w, 'v, 'x, 'u) server \<Rightarrow> bool \<Rightarrow> gerror option \<Rightarrow> bool" where
  "admits srv allow wait \<longleftrightarrow> (if limiterReject (s_options srv) then allow else wait = None)"

lemma dispatched_start:
  "dispatched srv child allow wait hdl \<Longrightarrow>
   call_start srv child allow wait w =
     \<lparr>pc = Waiting, wk = Some (Job (Running (job_prog hdl child))), sh = NewRequestContext w\<rparr>"
  by (auto simp: dispatched_def call_start_def Let_def split: option.splits if_splits)

lemma job_completes:
  assumes "dispatched srv child allow wait hdl" and "error_replies_return child"
  shows "\<exists>n J. call_run srv child elapsed (replicate n WorkerStep) (call_start srv child allow wait w) =
           Some \<lparr>pc = Waiting, wk = Some (J Finished), sh = job_result child hdl (NewRequestContext w)\<rparr>
         \<and> (J = Job \<or> J = Recovering)"
proof -
  let ?s0 = "NewRequestContext w"
  let ?st = "\<lambda>J t s. \<lparr>pc = Waiting, wk = Some (J t), sh = s\<rparr> :: ('a, 'b, 'd) call_state"
  obtain s1 out where run: "run_prog child (job_prog hdl child) ?s0 = (s1, out)" by fastforce
  from job_steps [OF run_prog_steps [of child "job_prog hdl child" ?s0],
      of "?st Job Finished ?s0" Job srv elapsed] run
  obtain n where n: "call_run srv child elapsed (replicate n WorkerStep) (?st Job (Running (job_prog hdl child)) ?s0)
      = Some (?st Job (thread_end out) s1)"
    by (auto simp: ended_def)
  show ?thesis
  proof (cases out)
    case (Ret u)
    with n run show ?thesis
      unfolding dispatched_start [OF assms(1)]
      by (intro exI [of _ n] exI [of _ Job]) (simp add: job_result_def)
  next
    case (Panic m)
    let ?p = "reply_error_prog RPCStatusServerError (panic_error (c_Method child) m)"
    obtain s2 where s2: "run_prog child ?p s1 = (s2, Ret ())"
      using Reply_error(1) [OF assms(2)] by (metis prod.collapse)
    from job_steps [OF run_prog_steps [of child ?p s1], of "?st Job Finished ?s0" Recovering srv elapsed] s2
    obtain k where "call_run srv child elapsed (replicate k WorkerStep) (?st Recovering (Running ?p) s1)
        = Some (?st Recovering Finished s2)"
      by auto
    then have "call_run srv child elapsed (replicate n WorkerStep @ WorkerStep # replicate k WorkerStep)
        (call_start srv child allow wait w) = Some (?st Recovering Finished s2)"
      unfolding dispatched_start [OF assms(1)] call_run_append n using Panic by simp
    moreover have "replicate n WorkerStep @ WorkerStep # replicate k WorkerStep
        = replicate (n + Suc k) WorkerStep"
      by (simp only: replicate_add replicate.simps)
    ultimately show ?thesis
      using run Panic s2
      by (intro exI [of _ "n + Suc k"] exI [of _ Recovering]) (simp add: job_result_def)
  qed
qed

section \<open>Calls on a transport\<close>

text \<open>
  On a transport that keeps the contract of \<open>ChildContext\<close>, a call adds at most one message to
  what the transport has published, on the reply topic, in every schedule.
\<close>

context child_context
begin

lemma transport_errors: "error_replies_return child"
  using error_reply_returns by (simp add: error_replies_return_def error_response_def)

lemma world_inv_move:
  "call_move srv child elapsed st a st' \<Longrightarrow> world_inv w0 (sh st) \<Longrightarrow> world_inv w0 (sh st')"
  by (induction rule: call_move.induct) (auto intro: world_inv_step)

lemma world_inv_call_start: "world_inv w (sh (call_start srv child allow wait w))"
  by (auto simp: call_start_def Let_def world_inv_new split: option.split)

lemma call_publishes:
  assumes "call_run srv child elapsed sched (call_start srv child allow wait w) = Some st"
  shows "published (world (sh st)) = published w \<or>
    (\<exists>msg. published (world (sh st)) = published w @ [msg] \<and> topic_of msg = c_ReplyDesc child)"
proof (rule world_inv_at_most_one)
  show "world_inv w (sh st)"
    by (rule call_run_invariant [where I = "\<lambda>st. world_inv w (sh st)",
          OF assms world_inv_call_start world_inv_move])
  show "length (sent (sh st)) \<le> 1"
    using call_inv_run [OF assms] by (auto simp: call_inv_def sent_ok_def)
qed

end

section \<open>Requests that are refused\<close>

text \<open>Without a worker the response can only be the one that the goroutine set out to send.\<close>

definition only_response :: "'v response \<Rightarrow> ('w, 'v, 'u) call_state \<Rightarrow> bool" where
  "only_response r st \<longleftrightarrow>
     wk st = None \<and> (res (sh st) = None \<or> res (sh st) = Some r) \<and> pc st \<noteq> Waiting
   \<and> (\<forall>t. pc st = Answering t \<longrightarrow>
        t = Running (HReply (Some r) (\<lambda>_. HReturn)) \<or> t = Storing (Some r) (\<lambda>_. HReturn) \<or>
        t = Sending (Some r) (\<lambda>_. HReturn) \<or> t = Running HReturn \<or> halted t)"

lemma only_response_move:
  assumes "call_move srv child elapsed st a st'" and "only_response r st"
  shows "only_response r st'"
  using assms
proof (induction rule: call_move.induct)
  case (answer t t' s')
  then consider "t = Running (HReply (Some r) (\<lambda>_. HReturn))" | "t = Storing (Some r) (\<lambda>_. HReturn)"
    | "t = Sending (Some r) (\<lambda>_. HReturn)" | "t = Running HReturn"
    by (auto simp: only_response_def)
  then show ?case
    using answer
    by cases (auto simp: only_response_def setResponse_def child_reply_frame
        split: if_splits prod.splits outcome.splits)
qed (auto simp: only_response_def finish_call_def split: prod.splits outcome.splits option.splits)

lemma only_response_run:
  assumes "call_run srv child elapsed as st = Some st'" and "only_response r st"
  shows "only_response r st'"
  by (rule call_run_invariant [where I = "only_response r", OF assms]) (rule only_response_move)

lemma only_response_answer:
  "only_response (error_response status (Some e))
     \<lparr>pc = Answering (Running (reply_error_prog status e)), wk = None, sh = NewRequestContext w\<rparr>"
  by (simp add: only_response_def NewRequestContext_def reply_error_prog_def)

section \<open>The properties of calls\<close>

text \<open>No worker was started, and the response is the given one or still missing.\<close>

definition refused :: "'v response \<Rightarrow> ('w, 'v, 'u) call_state \<Rightarrow> bool" where
  "refused r st \<longleftrightarrow> wk st = None \<and> (GetResponse (sh st) = None \<or> GetResponse (sh st) = Some r)"


text \<open>A transport that keeps the responses it is given, for the concrete runs below.\<close>

definition loopback :: "string \<Rightarrow> (nat response option list, nat, unit) child" where
  "loopback method =
     \<lparr>c_ID = \<lparr>id_Num = 1, id_Str = []\<rparr>, c_Method = method, c_Ctx = None,
      c_Reply = (\<lambda>w r. (w @ [r], Ret True)), c_ReplyDesc = ''loopback'',
      c_Bind = (\<lambda>t. Ret (Inr 0))\<rparr>"

definition echo_handler :: "(nat response option list, nat, unit) handler" where
  "echo_handler = \<lparr>h_Method = (\<lambda>c. HReply (Some (ok_response (Some 7))) (\<lambda>_. HReturn)), h_Timeout = 5\<rparr>"

definition echo_server :: "(nat response option list, nat, unit, unit) server" where
  "echo_server = Register ''echo'' (Some echo_handler) (NewServer ''s'' 4 [])"

lemmas echo_defs = loopback_def echo_handler_def echo_server_def NewServer_def Register_def
  default_options_def

lemma loopback_errors: "error_replies_return (loopback m)"
  by (simp add: error_replies_return_def loopback_def)

lemma echo_handlers_ok: "handlers_ok echo_server (loopback ''echo'')"
  by (simp add: handlers_ok_def echo_defs)

lemma echo_dispatched: "dispatched echo_server (loopback ''echo'') True None echo_handler"
  by (simp add: dispatched_def echo_defs)

text \<open>The echo request answered, its job finished, and the call back.\<close>

definition echo_schedule :: "actor list" where
  "echo_schedule = replicate 5 WorkerStep @ [MainStep]"

definition echo_final :: "(nat response option list, nat, unit) call_state" where
  "echo_final =
     \<lparr>pc = Returned [RecordRequest 0 ''echo'' ''200'' None], wk = Some (Job Finished),
      sh = \<lparr>replyed = True, res = Some (ok_response (Some 7)),
            world = [Some (ok_response (Some 7))], sent = [Some (ok_response (Some 7))]\<rparr>\<rparr>"

lemma status_texts: "format_int 200 = ''200''" "format_int 429 = ''429''" "format_int 500 = ''500''"
  by code_simp+

lemma echo_run:
  "call_run echo_server (loopback ''echo'') 0 echo_schedule
     (call_start echo_server (loopback ''echo'') True None []) = Some echo_final"
  by (simp add: echo_defs echo_schedule_def echo_final_def call_start_def Let_def job_prog_def
      reply_error_prog_def NewRequestContext_def eval_nat_numeral setResponse_def child_reply_def
      finish_call_def after_call_def GetResponse_def duration_Round_def status_label_def
      ok_response_def status_defs status_texts)

text \<open>The echo request after a timeout in the window, just before its deferred function runs.\<close>

definition window_state :: "(nat response option list, nat, unit) call_state" where
  "window_state =
     \<lparr>pc = Answering Finished, wk = Some (Job (Storing (Some (ok_response (Some 7)))
        (\<lambda>_. reply_error_prog RPCStatusServerError ErrNoReply))),
      sh = \<lparr>replyed = True, res = None, world = [], sent = []\<rparr>\<rparr>"

lemma window_run:
  "call_run echo_server (loopback ''echo'') 0
     [WorkerStep, GiveUp (ExtErr ''job request timed out''), MainStep, MainStep]
     (call_start echo_server (loopback ''echo'') True None []) = Some window_state"
  by (simp add: echo_defs window_state_def call_start_def Let_def job_prog_def
      reply_error_prog_def NewRequestContext_def)

text \<open>The same request when the limiter is full.\<close>

definition limited_final :: "(nat response option list, nat, unit) call_state" where
  "limited_final =
     (let r = Some (error_response 429 (Some ErrTooFraquently))
      in \<lparr>pc = Returned [RecordRequest 0 ''echo'' ''429'' (Some ErrTooFraquently)], wk = None,
          sh = \<lparr>replyed = True, res = r, world = [r], sent = [r]\<rparr>\<rparr>)"

lemma limited_run:
  "call_run echo_server (loopback ''echo'') 0 (replicate 5 MainStep)
     (call_start echo_server (loopback ''echo'') False None []) = Some limited_final"
  by (simp add: echo_defs limited_final_def call_start_def Let_def
      reply_error_prog_def NewRequestContext_def eval_nat_numeral setResponse_def child_reply_def
      finish_call_def after_call_def GetResponse_def duration_Round_def status_label_def
      error_response_def status_defs status_texts)

lemmas call_run_facts = call_inv_run answers_inv_run calm_inv_run

text \<open>
  C1. However the goroutine of a call, its worker and the pool's timeout interleave, a request is
  answered at most once: the child's \<open>Reply\<close> is called never or once, and then with the
  response that \<open>GetResponse\<close> reports.
\<close>

theorem call_answers_at_most_once:
  assumes "call_run srv child elapsed sched (call_start srv child allow wait w) = Some st"
  shows "sent (sh st) = [] \<or> sent (sh st) = [GetResponse (sh st)]"
  using call_run_facts(1) [OF assms] by (simp add: call_inv_def sent_ok_def GetResponse_def)

theorem call_answers_at_most_once_witness:
  "sent (sh echo_final) = [] \<or> sent (sh echo_final) = [GetResponse (sh echo_final)]"
  by (rule call_answers_at_most_once [OF echo_run])

text \<open>
  C19. A call that has returned has answered: once its worker has come to rest too, the child's
  \<open>Reply\<close> was called exactly once, whether the handler replied, returned without a reply,
  panicked, was never run or was overtaken by a timeout.
\<close>

theorem returned_call_answered:
  assumes "call_run srv child elapsed sched (call_start srv child allow wait w) = Some st"
    and "pc st = Returned fx" and "list_all halted (wk_threads (wk st))"
  shows "sent (sh st) = [GetResponse (sh st)]"
proof -
  have "replying_count (wk_threads (wk st)) = 0"
    using assms(3) by (auto simp: replying_count_0 list_all_iff elim!: halted.elims(2))
  moreover have "reply_inv (wk_threads (wk st)) (sh st)" and "replyed (sh st)"
    using call_inv_alive [OF call_run_facts(1) [OF assms(1)]] call_run_facts(2) [OF assms(1)] assms(2)
    by (auto simp: answers_inv_def)
  ultimately show ?thesis using replyed_idle_sent by (simp add: GetResponse_def)
qed

theorem returned_call_answered_witness:
  "sent (sh echo_final) = [GetResponse (sh echo_final)]"
  by (rule returned_call_answered [OF echo_run]) (simp_all add: echo_final_def)

text \<open>
  As long as the pool does not give up on a job, a call never takes the process down: with
  handlers that are not nil and do not reply nil, and a transport whose error replies return,
  every panic of a handler or of the transport is recovered.
\<close>

lemma no_crash_without_timeout:
  assumes "call_run srv child elapsed sched (call_start srv child allow wait w) = Some st"
    and "handlers_ok srv child" and "error_replies_return child" and "\<forall>e. GiveUp e \<notin> set sched"
  shows "\<not> crashed (pc st)"
  using no_timeout_run [OF assms] by (simp add: no_timeout_inv_def)

lemma no_crash_without_timeout_witness: "\<not> crashed (pc echo_final)"
  by (rule no_crash_without_timeout [OF echo_run echo_handlers_ok loopback_errors])
    (simp add: echo_schedule_def)

text \<open>
  C21. With a timeout it can: when the pool gives up on a job between the handler's claim of the
  answer and its store of the response, the goroutine of the call finds the answer claimed and no
  response, and its deferred function dereferences nil outside every recovery.  This happens for
  every handler that starts with a reply.
\<close>

theorem timeout_race_crashes:
  assumes "dispatched srv child allow wait hdl" and "h_Method hdl child = HReply r k"
  shows "\<exists>st fx. call_run srv child elapsed [WorkerStep, GiveUp e, MainStep, MainStep, MainStep]
                   (call_start srv child allow wait w) = Some st
                 \<and> pc st = Crashed nil_deref fx"
proof -
  obtain fx where "after_call srv child elapsed None = (fx, Panic nil_deref)"
    using after_call_panics [of srv child elapsed None] by (metis prod.collapse)
  then show ?thesis
    using assms(2)
    by (simp add: dispatched_start [OF assms(1)] job_prog_def reply_error_prog_def
        NewRequestContext_def finish_call_def GetResponse_def)
qed

theorem timeout_race_crashes_witness:
  "\<exists>st fx. call_run echo_server (loopback ''echo'') 0
      [WorkerStep, GiveUp (ExtErr ''job request timed out''), MainStep, MainStep, MainStep]
      (call_start echo_server (loopback ''echo'') True None []) = Some st
    \<and> pc st = Crashed nil_deref fx"
  by (rule timeout_race_crashes [OF echo_dispatched]) (simp add: echo_handler_def)



lemma admitted_returns:
  assumes "dispatched srv child allow wait hdl" and "error_replies_return child"
    and "no_nil_reply (h_Method hdl child)"
  obtains n st fx where
    "call_run srv child elapsed (replicate n WorkerStep @ [MainStep]) (call_start srv child allow wait w) = Some st"
    "pc st = Returned fx" "sh st = job_result child hdl (NewRequestContext w)"
proof -
  let ?start = "call_start srv child allow wait w"
  let ?s = "job_result child hdl (NewRequestContext w)"
  obtain n J where n: "call_run srv child elapsed (replicate n WorkerStep) ?start =
      Some \<lparr>pc = Waiting, wk = Some (J Finished), sh = ?s\<rparr>" and "J = Job \<or> J = Recovering"
    using job_completes [OF assms(1,2)] by blast
  then have run: "call_run srv child elapsed (replicate n WorkerStep @ [MainStep]) ?start =
      Some \<lparr>pc = finish_call srv child elapsed None ?s, wk = Some (J Finished), sh = ?s\<rparr>"
    unfolding call_run_append n by auto
  moreover have "handlers_ok srv child"
    using assms(1,3) by (auto simp: dispatched_def handlers_ok_def split: option.splits)
  ultimately have "\<not> crashed (finish_call srv child elapsed None ?s)"
    using no_timeout_run [OF run _ assms(2)] by (auto simp: no_timeout_inv_def)
  then obtain fx where "finish_call srv child elapsed None ?s = Returned fx"
    by (auto simp: finish_call_def split: prod.splits outcome.splits)
  with run have "call_run srv child elapsed (replicate n WorkerStep @ [MainStep]) ?start =
      Some \<lparr>pc = Returned fx, wk = Some (J Finished), sh = ?s\<rparr>" by simp
  then show ?thesis by (rule that) simp_all
qed

text \<open>
  C23. A call whose request is admitted and whose handler is not interrupted returns, and its
  response is the handler's own, or the error for a missing reply, or the error that reports the
  handler's panic.
\<close>

theorem admitted_call_returns:
  assumes "dispatched srv child allow wait hdl" and "error_replies_return child"
    and "no_nil_reply (h_Method hdl child)"
  shows "\<exists>n st fx. call_run srv child elapsed (replicate n WorkerStep @ [MainStep])
                     (call_start srv child allow wait w) = Some st
         \<and> pc st = Returned fx
         \<and> GetResponse (sh st) =
             (case run_prog child (h_Method hdl child) (NewRequestContext w) of
                (s', out) \<Rightarrow>
                  if replyed s' then GetResponse s'
                  else Some (error_response RPCStatusServerError (Some
                    (case out of Ret u \<Rightarrow> ErrNoReply
                               | Panic m \<Rightarrow> panic_error (c_Method child) m))))"
proof -
  from admitted_returns [OF assms] obtain n st fx where
    "call_run srv child elapsed (replicate n WorkerStep @ [MainStep]) (call_start srv child allow wait w) = Some st"
    "pc st = Returned fx" "sh st = job_result child hdl (NewRequestContext w)" by metis
  then show ?thesis
    using job_result_response [OF assms(2), of hdl "NewRequestContext w"]
    by (intro exI [of _ n] exI [of _ st] exI [of _ fx] conjI)
      (auto simp: GetResponse_def split: prod.splits)
qed

theorem admitted_call_returns_witness:
  "\<exists>n st fx. call_run echo_server (loopback ''echo'') 0 (replicate n WorkerStep @ [MainStep])
       (call_start echo_server (loopback ''echo'') True None []) = Some st
   \<and> pc st = Returned fx \<and> GetResponse (sh st) = Some (ok_response (Some 7))"
  using admitted_call_returns [OF echo_dispatched loopback_errors, of 0 "[]"]
  by (simp add: echo_handler_def Reply_def child_reply_def loopback_def NewRequestContext_def
      setResponse_def GetResponse_def)



end
