(* ===== verification/Topics.thy ===== *)
theory Topics
  imports Go_Std
begin

text \<open>
  The shape of the topics that servers and clients compute with \<open>path.Join\<close> from a prefix, a
  device identifier and two plain last levels, and what replacing a word does to such a topic.
  The levels that stem from the prefix and the device are \<open>topic_levels\<close>; nothing is assumed
  about either, so they may be empty, rooted or contain dots.
\<close>

definition topic_buf :: "string \<Rightarrow> string \<Rightarrow> string" where
  "topic_buf pfx dev = foldl join_step [] [pfx, dev]"

definition topic_levels :: "string \<Rightarrow> string \<Rightarrow> string list" where
  "topic_levels pfx dev = clean_segments (is_rooted (topic_buf pfx dev)) (topic_buf pfx dev)"

definition topic_path :: "string \<Rightarrow> string \<Rightarrow> string list \<Rightarrow> string" where
  "topic_path pfx dev last_levels =
     (if is_rooted (topic_buf pfx dev) then ''/'' else [])
     @ join_with CHR ''/'' (topic_levels pfx dev @ last_levels)"

lemma topic_levels_free: "s \<in> set (topic_levels pfx dev) \<Longrightarrow> CHR ''/'' \<notin> set s"
  by (simp add: topic_levels_def clean_segments_free)

lemma clean_segments_plain_tail:
  assumes "plain_segment a" and "plain_segment b"
  shows "clean_segments rooted (a @ CHR ''/'' # b) = [a, b]"
    and "clean_segments rooted (p @ CHR ''/'' # a @ CHR ''/'' # b) = clean_segments rooted p @ [a, b]"
  using assms
  by (auto simp: clean_segments_def split_on_append split_on_segment clean_step_plain
      plain_segment_def [of a] plain_segment_def [of b])

lemma join_with_pair_neq_Nil: "join_with c (ss @ [a, b]) \<noteq> []"
  by (cases "ss = []") (auto simp: join_with_append)

lemma is_rooted_append: "p \<noteq> [] \<Longrightarrow> is_rooted (p @ q) = is_rooted p"
  by (cases p) (auto simp: is_rooted_def)

lemma is_rooted_plain: "plain_segment a \<Longrightarrow> \<not> is_rooted (a @ q)"
  by (cases a) (auto simp: is_rooted_def plain_segment_def)

lemma Clean_topic:
  assumes "plain_segment a" and "plain_segment b"
  shows "path_Clean ((if topic_buf pfx dev = [] then [] else topic_buf pfx dev @ ''/'')
           @ a @ CHR ''/'' # b) = topic_path pfx dev [a, b]"
proof (cases "topic_buf pfx dev = []")
  case True
  have "a \<noteq> []" using assms(1) by (simp add: plain_segment_def)
  with True assms show ?thesis
    by (simp add: path_Clean_def topic_path_def topic_levels_def clean_segments_plain_tail
        is_rooted_plain) (simp add: is_rooted_def clean_segments_def clean_step_def)
next
  case False
  with assms show ?thesis
    by (simp add: path_Clean_def topic_path_def topic_levels_def clean_segments_plain_tail
        is_rooted_append Let_def join_with_pair_neq_Nil)
qed

lemma Join_topic4:
  assumes "plain_segment a" and "plain_segment b"
  shows "path_Join [pfx, dev, a, b] = topic_path pfx dev [a, b]"
proof -
  have "a \<noteq> []" and "b \<noteq> []" using assms by (auto simp: plain_segment_def)
  then have "path_Join [pfx, dev, a, b] = path_Clean
      ((if topic_buf pfx dev = [] then [] else topic_buf pfx dev @ ''/'') @ a @ CHR ''/'' # b)"
    by (simp add: path_Join_def topic_buf_def join_step_def)
  then show ?thesis using Clean_topic [OF assms] by simp
qed

lemma Join_topic3:
  assumes "plain_segment a" and "plain_segment b"
  shows "path_Join [pfx, dev, a @ CHR ''/'' # b] = topic_path pfx dev [a, b]"
proof -
  have "path_Join [pfx, dev, a @ CHR ''/'' # b] = path_Clean
      ((if topic_buf pfx dev = [] then [] else topic_buf pfx dev @ ''/'') @ a @ CHR ''/'' # b)"
    by (simp add: path_Join_def topic_buf_def join_step_def)
  then show ?thesis using Clean_topic [OF assms] by simp
qed

lemma split_topic_path:
  assumes "ts \<noteq> []" and "\<And>s. s \<in> set ts \<Longrightarrow> CHR ''/'' \<notin> set s"
  shows "split_on CHR ''/'' (topic_path pfx dev ts)
       = (if is_rooted (topic_buf pfx dev) then [[]] else []) @ topic_levels pfx dev @ ts"
proof -
  have "split_on CHR ''/'' (join_with CHR ''/'' (topic_levels pfx dev @ ts)) = topic_levels pfx dev @ ts"
    using assms by (intro split_join) (auto dest: topic_levels_free)
  then show ?thesis by (simp add: topic_path_def)
qed

lemma topic_path_inject:
  assumes "ss \<noteq> []" and "ts \<noteq> []"
    and "\<And>s. s \<in> set ss \<Longrightarrow> CHR ''/'' \<notin> set s" and "\<And>s. s \<in> set ts \<Longrightarrow> CHR ''/'' \<notin> set s"
  shows "topic_path pfx dev ss = topic_path pfx dev ts \<longleftrightarrow> ss = ts"
  using split_topic_path [of ss pfx dev] split_topic_path [of ts pfx dev] assms
  by (metis append_same_eq same_append_eq)

section \<open>Replacing a word in a topic\<close>

text \<open>The word the servers replace, and its replacement.\<close>

definition request_word :: string where "request_word = ''request''"
definition response_word :: string where "response_word = ''response''"

lemmas word_defs = request_word_def response_word_def

lemma request_word_facts:
  "CHR ''/'' \<notin> set request_word" "request_word \<noteq> []" "length request_word < length response_word"
  "plain_segment request_word" "plain_segment response_word" "sublist request_word request_word"
  by (simp_all add: word_defs plain_segment_def)

text \<open>The word does not occur in any of the levels.\<close>

definition word_free :: "string list \<Rightarrow> bool" where
  "word_free ss \<longleftrightarrow> list_all (\<lambda>s. \<not> sublist request_word s) ss"

lemma word_free_simps [simp]:
  "word_free []"
  "word_free (s # ss) \<longleftrightarrow> \<not> sublist request_word s \<and> word_free ss"
  "word_free (ss @ ts) \<longleftrightarrow> word_free ss \<and> word_free ts"
  by (simp_all add: word_free_def)

lemma replace_word_id_iff:
  "strings_ReplaceAll request_word response_word s = s \<longleftrightarrow> \<not> sublist request_word s"
  using Replace_no_occurrence [of request_word s response_word "-1"]
    Replace_occurrence_longer [OF request_word_facts(3,2), of "-1" s]
  by (auto simp: strings_ReplaceAll_def)

lemma replace_word_map_id_iff:
  "map (strings_ReplaceAll request_word response_word) ss = ss \<longleftrightarrow> word_free ss"
  by (induction ss) (auto simp: replace_word_id_iff)

lemma replace_word_word:
  "n \<noteq> 0 \<Longrightarrow> strings_Replace request_word response_word n request_word = response_word"
  using Replace_hit [of n request_word response_word "[]"] request_word_facts(2) by simp

text \<open>
  Replacing every occurrence turns a request topic into the response topic of the same device
  and identifier exactly when the word occurs nowhere else.
\<close>

lemma ReplaceAll_topic_path:
  "strings_ReplaceAll request_word response_word (topic_path pfx dev ss)
 = (if is_rooted (topic_buf pfx dev) then ''/'' else [])
   @ join_with CHR ''/'' (map (strings_ReplaceAll request_word response_word) (topic_levels pfx dev @ ss))"
  using ReplaceAll_separator [OF request_word_facts(1,2), of response_word "[]"]
  by (simp add: topic_path_def ReplaceAll_join [OF request_word_facts(1,2)])
    (simp add: strings_ReplaceAll_def)

lemma ReplaceAll_request_topic:
  assumes "CHR ''/'' \<notin> set rid"
  shows "strings_ReplaceAll request_word response_word (topic_path pfx dev [request_word, rid])
       = topic_path pfx dev [response_word, rid]
     \<longleftrightarrow> word_free (topic_levels pfx dev) \<and> \<not> sublist request_word rid"
proof -
  let ?r = "strings_ReplaceAll request_word response_word"
  have free: "CHR ''/'' \<notin> set (?r s)" if "CHR ''/'' \<notin> set s" for s
    using that Replace_set [of request_word response_word "-1" s]
    by (auto simp: strings_ReplaceAll_def word_defs)
  have "join_with CHR ''/'' (map ?r (topic_levels pfx dev @ [request_word, rid]))
      = join_with CHR ''/'' (topic_levels pfx dev @ [response_word, rid])
    \<longleftrightarrow> map ?r (topic_levels pfx dev @ [request_word, rid]) = topic_levels pfx dev @ [response_word, rid]"
    using assms request_word_facts
    by (intro join_inject) (auto simp: free topic_levels_free plain_segment_def)
  also have "\<dots> \<longleftrightarrow> map ?r (topic_levels pfx dev) = topic_levels pfx dev \<and> ?r rid = rid"
    by (simp add: replace_word_word strings_ReplaceAll_def)
  finally show ?thesis
    unfolding ReplaceAll_topic_path
    by (simp add: topic_path_def replace_word_map_id_iff replace_word_id_iff)
qed

text \<open>
  Replacing the first occurrence does so exactly when the word does not occur before the level
  that it is meant to replace; the identifier does not matter.
\<close>

lemma ReplaceFirst_join_free:
  "word_free ss \<Longrightarrow> ts \<noteq> [] \<Longrightarrow>
   strings_Replace request_word response_word 1 (join_with CHR ''/'' (ss @ request_word # ts))
 = join_with CHR ''/'' (ss @ response_word # ts)"
  by (induction ss)
    (auto simp: join_with_Cons ReplaceFirst_separator [OF request_word_facts(1,2)]
      request_word_facts(6) replace_word_word)

lemma ReplaceFirst_word_above:
  assumes "sublist request_word A" and "CHR ''/'' \<notin> set rid"
  shows "strings_Replace request_word response_word 1 (A @ CHR ''/'' # request_word @ CHR ''/'' # rid)
       \<noteq> A @ CHR ''/'' # response_word @ CHR ''/'' # rid"
proof
  let ?r = "strings_Replace request_word response_word 1"
  assume eq: "?r (A @ CHR ''/'' # request_word @ CHR ''/'' # rid)
      = A @ CHR ''/'' # response_word @ CHR ''/'' # rid"
  have st: "?r (A @ CHR ''/'' # request_word @ CHR ''/'' # rid)
      = ?r A @ CHR ''/'' # request_word @ CHR ''/'' # rid"
    using assms by (simp add: ReplaceFirst_separator [OF request_word_facts(1,2)])
  have "split_on CHR ''/'' (?r A @ CHR ''/'' # request_word @ CHR ''/'' # rid)
      = split_on CHR ''/'' (A @ CHR ''/'' # response_word @ CHR ''/'' # rid)"
    by (rule arg_cong [OF trans [OF st [symmetric] eq]])
  then show False
    using assms(2) by (simp add: split_on_append split_on_segment word_defs)
qed

lemma ReplaceFirst_request_topic:
  assumes "CHR ''/'' \<notin> set rid"
  shows "strings_Replace request_word response_word 1 (topic_path pfx dev [request_word, rid])
       = topic_path pfx dev [response_word, rid]
     \<longleftrightarrow> word_free (topic_levels pfx dev)"
proof (cases "word_free (topic_levels pfx dev)")
  case True
  then show ?thesis
    using ReplaceFirst_join_free [of "topic_levels pfx dev" "[rid]"]
      ReplaceFirst_separator [OF request_word_facts(1,2), of response_word "[]"]
    by (auto simp: topic_path_def request_word_facts(2))
next
  case False
  let ?mark = "if is_rooted (topic_buf pfx dev) then ''/'' else []"
  let ?A = "?mark @ join_with CHR ''/'' (topic_levels pfx dev)"
  from False have "sublist request_word (join_with CHR ''/'' (topic_levels pfx dev))"
    using sublist_join [OF request_word_facts(1,2)] by (auto simp: word_free_def list_all_iff)
  then have "sublist request_word ?A"
    by (simp add: sublist_append)
  moreover have "topic_path pfx dev [w, rid] = ?A @ CHR ''/'' # w @ CHR ''/'' # rid" for w
    using False by (cases "topic_levels pfx dev = []") (simp_all add: topic_path_def join_with_append)
  ultimately show ?thesis
    using False ReplaceFirst_word_above [OF _ assms, of ?A] by (simp only: append_assoc)
qed

end
