(* ===== verification/Compressor.thy ===== *)
theory Compressor
  imports Prelude
begin

text \<open>
  The compressor (\<open>compressor/compressor.go\<close>): the choice of an algorithm by a content
  encoding, and the pools of writers, readers and buffers behind it.

  \<open>Compress\<close> returns the bytes of a buffer that it has put back into a pool, so what a result
  holds depends on what happens to that buffer later.  The model therefore has a heap of byte
  arrays: a buffer owns an array, and a result is a view of one.  The gzip, zlib and brotli
  streams are outside the repository and arguments of the definitions, as is the choice that
  \<open>sync.Pool\<close> makes between the objects it holds and a new one.
\<close>

section \<open>Content encodings\<close>

definition ContentEncodingGzip :: int where "ContentEncodingGzip = 0"
definition ContentEncodingDeflate :: int where "ContentEncodingDeflate = 1"
definition ContentEncodingBrotli :: int where "ContentEncodingBrotli = 2"
definition ContentEncodingPlain :: int where "ContentEncodingPlain = 3"

lemmas encoding_defs = ContentEncodingGzip_def ContentEncodingDeflate_def
  ContentEncodingBrotli_def ContentEncodingPlain_def

section \<open>The streams outside the repository\<close>

text \<open>
  A compressing writer hands the buffer it is reset to some chunks when it is written to and some
  when it is closed, each time with an error or not.  A reader may fail to open, and reads
  everything into bytes, with an error or not.
\<close>

record stream_codec =
  sc_write :: "bytes \<Rightarrow> bytes list \<times> gerror option"
  sc_close :: "bytes \<Rightarrow> bytes list \<times> gerror option"
  sc_open :: "bytes \<Rightarrow> gerror option"
  sc_read :: "bytes \<Rightarrow> bytes \<times> gerror option"

text \<open>
  The three streams, and the spare capacity that a growing buffer of a given capacity allocates
  beyond the size it needs.
\<close>

record streams =
  st_gzip :: stream_codec
  st_zlib :: stream_codec
  st_brotli :: stream_codec
  st_spare :: "nat \<Rightarrow> nat \<Rightarrow> nat"

section \<open>Buffers on a heap\<close>

record buffer =
  b_arr :: "nat option"
  b_len :: nat

text \<open>A result is bytes of its own or the first bytes of an array.\<close>

datatype slice = Own bytes | View nat nat

record manager =
  byteReaderPool :: "nat list"
  bufferPool :: "buffer list"
  gzipWriterPool :: "nat list"
  zlibWriterPool :: "nat list"
  brotliWriterPool :: "nat list"
  arrays :: "nat \<Rightarrow> bytes"
  next_array :: nat
  next_object :: nat

definition NewCompressorManager :: manager where
  "NewCompressorManager =
     \<lparr>byteReaderPool = [], bufferPool = [], gzipWriterPool = [], zlibWriterPool = [],
      brotliWriterPool = [], arrays = (\<lambda>_. []), next_array = 0, next_object = 0\<rparr>"

fun read_slice :: "manager \<Rightarrow> slice \<Rightarrow> bytes" where
  "read_slice m (Own bs) = bs"
| "read_slice m (View a n) = take n (arrays m a)"

text \<open>\<open>sync.Pool\<close>: the object at the chosen place, or none, in which case the pool makes one.\<close>

definition pool_Get :: "nat option \<Rightarrow> 'a list \<Rightarrow> 'a option \<times> 'a list" where
  "pool_Get pick pool =
     (case pick of
        None \<Rightarrow> (None, pool)
      | Some i \<Rightarrow>
          if i < length pool then (Some (pool ! i), take i pool @ drop (Suc i) pool) else (None, pool))"

definition new_buffer :: buffer where
  "new_buffer = \<lparr>b_arr = None, b_len = 0\<rparr>"

definition buf_cap :: "manager \<Rightarrow> buffer \<Rightarrow> nat" where
  "buf_cap m b = (case b_arr b of None \<Rightarrow> 0 | Some a \<Rightarrow> length (arrays m a))"

definition buf_bytes :: "manager \<Rightarrow> buffer \<Rightarrow> bytes" where
  "buf_bytes m b = (case b_arr b of None \<Rightarrow> [] | Some a \<Rightarrow> take (b_len b) (arrays m a))"

definition overwrite :: "'a list \<Rightarrow> nat \<Rightarrow> 'a list \<Rightarrow> 'a list" where
  "overwrite xs i p = take i xs @ p @ drop (i + length p) xs"

text \<open>
  \<open>bytes.Buffer\<close>: \<open>Reset\<close> keeps the array, \<open>Write\<close> writes in place when the
  capacity allows and otherwise moves the contents to a new array, \<open>Bytes\<close> is a view.
\<close>

definition buf_Reset :: "buffer \<Rightarrow> buffer" where
  "buf_Reset b = b\<lparr>b_len := 0\<rparr>"

definition buf_Write :: "(nat \<Rightarrow> nat \<Rightarrow> nat) \<Rightarrow> bytes \<Rightarrow> buffer \<times> manager \<Rightarrow> buffer \<times> manager" where
  "buf_Write spare p bm =
     (case bm of (b, m) \<Rightarrow>
        let n = b_len b + length p
        in if n \<le> buf_cap m b
           then (b\<lparr>b_len := n\<rparr>,
                 case b_arr b of
                   None \<Rightarrow> m
                 | Some a \<Rightarrow> m\<lparr>arrays := (arrays m)(a := overwrite (arrays m a) (b_len b) p)\<rparr>)
           else (\<lparr>b_arr = Some (next_array m), b_len = n\<rparr>,
                 m\<lparr>arrays := (arrays m)(next_array m := buf_bytes m b @ p @ replicate (spare (buf_cap m b) n) 0),
                   next_array := Suc (next_array m)\<rparr>))"

definition buf_Bytes :: "buffer \<Rightarrow> slice option" where
  "buf_Bytes b = (case b_arr b of None \<Rightarrow> None | Some a \<Rightarrow> Some (View a (b_len b)))"

definition buf_writes :: "(nat \<Rightarrow> nat \<Rightarrow> nat) \<Rightarrow> bytes list \<Rightarrow> buffer \<times> manager \<Rightarrow> buffer \<times> manager" where
  "buf_writes spare chunks bm = foldl (\<lambda>bm p. buf_Write spare p bm) bm chunks"

section \<open>Compression\<close>

type_synonym result = "slice option \<times> gerror option"

text \<open>
  The body that \<open>GzipCompress\<close>, \<open>ZlibCompress\<close> and \<open>BrotliCompress\<close> share, for a
  stream and the pool of its writers: take a writer and a buffer, reset both, write, close, and
  return the buffer's bytes, or nil with the first error.  The buffer and then the writer go back
  to their pools in every case.
\<close>

definition pooled_compress ::
  "stream_codec \<Rightarrow> (nat \<Rightarrow> nat \<Rightarrow> nat) \<Rightarrow> nat option \<Rightarrow> nat option \<Rightarrow> bytes \<Rightarrow> nat list \<Rightarrow> manager \<Rightarrow>
   nat list \<times> manager \<times> result" where
  "pooled_compress sc spare pick_w pick_b data writers m =
     (let (got_w, writers1) = pool_Get pick_w writers;
          (w, m1) = (case got_w of
                       Some w \<Rightarrow> (w, m)
                     | None \<Rightarrow> (next_object m, m\<lparr>next_object := Suc (next_object m)\<rparr>));
          (got_b, buffers1) = pool_Get pick_b (bufferPool m1);
          b0 = (case got_b of Some b \<Rightarrow> b | None \<Rightarrow> new_buffer);
          m2 = m1\<lparr>bufferPool := buffers1\<rparr>;
          (chunks1, err1) = sc_write sc data;
          (b1, m3) = buf_writes spare chunks1 (buf_Reset b0, m2);
          put = (\<lambda>b m. m\<lparr>bufferPool := bufferPool m @ [b]\<rparr>)
      in case err1 of
           Some e \<Rightarrow> (writers1 @ [w], put b1 m3, (None, Some e))
         | None \<Rightarrow>
             (let (chunks2, err2) = sc_close sc data;
                  (b2, m4) = buf_writes spare chunks2 (b1, m3)
              in case err2 of
                   Some e \<Rightarrow> (writers1 @ [w], put b2 m4, (None, Some e))
                 | None \<Rightarrow> (writers1 @ [w], put b2 m4, (buf_Bytes b2, None))))"

definition GzipCompress ::
  "streams \<Rightarrow> nat option \<Rightarrow> nat option \<Rightarrow> bytes \<Rightarrow> manager \<Rightarrow> manager \<times> result" where
  "GzipCompress ext pw pb data m =
     (case pooled_compress (st_gzip ext) (st_spare ext) pw pb data (gzipWriterPool m) m of
        (ws, m', r) \<Rightarrow> (m'\<lparr>gzipWriterPool := ws\<rparr>, r))"

definition ZlibCompress ::
  "streams \<Rightarrow> nat option \<Rightarrow> nat option \<Rightarrow> bytes \<Rightarrow> manager \<Rightarrow> manager \<times> result" where
  "ZlibCompress ext pw pb data m =
     (case pooled_compress (st_zlib ext) (st_spare ext) pw pb data (zlibWriterPool m) m of
        (ws, m', r) \<Rightarrow> (m'\<lparr>zlibWriterPool := ws\<rparr>, r))"

definition BrotliCompress ::
  "streams \<Rightarrow> nat option \<Rightarrow> nat option \<Rightarrow> bytes \<Rightarrow> manager \<Rightarrow> manager \<times> result" where
  "BrotliCompress ext pw pb data m =
     (case pooled_compress (st_brotli ext) (st_spare ext) pw pb data (brotliWriterPool m) m of
        (ws, m', r) \<Rightarrow> (m'\<lparr>brotliWriterPool := ws\<rparr>, r))"

text \<open>\<open>Compress\<close>: nil stays nil, plain data is returned as it is.\<close>

definition Compress ::
  "streams \<Rightarrow> nat option \<Rightarrow> nat option \<Rightarrow> int \<Rightarrow> bytes option \<Rightarrow> manager \<Rightarrow> manager \<times> result" where
  "Compress ext pw pb tp data m =
     (case data of
        None \<Rightarrow> (m, (None, None))
      | Some d \<Rightarrow>
          if tp = ContentEncodingGzip then GzipCompress ext pw pb d m
          else if tp = ContentEncodingDeflate then ZlibCompress ext pw pb d m
          else if tp = ContentEncodingBrotli then BrotliCompress ext pw pb d m
          else if tp = ContentEncodingPlain then (m, (Some (Own d), None))
          else (m, (None, Some ErrUnknownContentEncoding)))"

section \<open>Decompression\<close>

text \<open>
  A reader is taken from its pool and put back; what is read is freshly allocated by
  \<open>io.ReadAll\<close>, which returns the bytes read so far together with an error.  Brotli's reader
  opens without an error.
\<close>

definition with_reader :: "nat option \<Rightarrow> manager \<Rightarrow> manager" where
  "with_reader pick m =
     (case pool_Get pick (byteReaderPool m) of
        (Some r, rest) \<Rightarrow> m\<lparr>byteReaderPool := rest @ [r]\<rparr>
      | (None, rest) \<Rightarrow>
          m\<lparr>byteReaderPool := rest @ [next_object m], next_object := Suc (next_object m)\<rparr>)"

definition io_ReadAll :: "stream_codec \<Rightarrow> bytes \<Rightarrow> result" where
  "io_ReadAll sc data = (case sc_read sc data of (bs, err) \<Rightarrow> (Some (Own bs), err))"

definition GzipDecompress :: "streams \<Rightarrow> nat option \<Rightarrow> bytes \<Rightarrow> manager \<Rightarrow> manager \<times> result" where
  "GzipDecompress ext pick data m =
     (with_reader pick m,
      case sc_open (st_gzip ext) data of
        Some e \<Rightarrow> (None, Some e)
      | None \<Rightarrow> io_ReadAll (st_gzip ext) data)"

definition ZlibDecompress :: "streams \<Rightarrow> nat option \<Rightarrow> bytes \<Rightarrow> manager \<Rightarrow> manager \<times> result" where
  "ZlibDecompress ext pick data m =
     (with_reader pick m,
      case sc_open (st_zlib ext) data of
        Some e \<Rightarrow> (None, Some e)
      | None \<Rightarrow> io_ReadAll (st_zlib ext) data)"

definition BrotliDecompress :: "streams \<Rightarrow> nat option \<Rightarrow> bytes \<Rightarrow> manager \<Rightarrow> manager \<times> result" where
  "BrotliDecompress ext pick data m = (with_reader pick m, io_ReadAll (st_brotli ext) data)"

definition Decompress ::
  "streams \<Rightarrow> nat option \<Rightarrow> int \<Rightarrow> bytes option \<Rightarrow> manager \<Rightarrow> manager \<times> result" where
  "Decompress ext pick tp data m =
     (case data of
        None \<Rightarrow> (m, (None, None))
      | Some d \<Rightarrow>
          if tp = ContentEncodingGzip then GzipDecompress ext pick d m
          else if tp = ContentEncodingDeflate then ZlibDecompress ext pick d m
          else if tp = ContentEncodingBrotli then BrotliDecompress ext pick d m
          else if tp = ContentEncodingPlain then (m, (Some (Own d), None))
          else (m, (None, Some ErrUnknownContentEncoding)))"

section \<open>Values instead of views\<close>

text \<open>
  The abstract specification: what compression and decompression compute when a result is read
  at once, without pools and buffers.  A stream that produces no byte at all would leave a new
  buffer nil; no stream does (below).
\<close>

definition encode_value :: "stream_codec \<Rightarrow> bytes \<Rightarrow> bytes option \<times> gerror option" where
  "encode_value sc d =
     (case sc_write sc d of
        (c1, Some e) \<Rightarrow> (None, Some e)
      | (c1, None) \<Rightarrow>
          (case sc_close sc d of
             (c2, Some e) \<Rightarrow> (None, Some e)
           | (c2, None) \<Rightarrow> (Some (concat (c1 @ c2)), None)))"

definition decode_value :: "stream_codec \<Rightarrow> bytes \<Rightarrow> bytes option \<times> gerror option" where
  "decode_value sc d =
     (case sc_open sc d of
        Some e \<Rightarrow> (None, Some e)
      | None \<Rightarrow> (case sc_read sc d of (bs, err) \<Rightarrow> (Some bs, err)))"

definition compress_value :: "streams \<Rightarrow> int \<Rightarrow> bytes option \<Rightarrow> bytes option \<times> gerror option" where
  "compress_value ext tp data =
     (case data of
        None \<Rightarrow> (None, None)
      | Some d \<Rightarrow>
          if tp = ContentEncodingGzip then encode_value (st_gzip ext) d
          else if tp = ContentEncodingDeflate then encode_value (st_zlib ext) d
          else if tp = ContentEncodingBrotli then encode_value (st_brotli ext) d
          else if tp = ContentEncodingPlain then (Some d, None)
          else (None, Some ErrUnknownContentEncoding))"

definition decompress_value :: "streams \<Rightarrow> int \<Rightarrow> bytes option \<Rightarrow> bytes option \<times> gerror option" where
  "decompress_value ext tp data =
     (case data of
        None \<Rightarrow> (None, None)
      | Some d \<Rightarrow>
          if tp = ContentEncodingGzip then decode_value (st_gzip ext) d
          else if tp = ContentEncodingDeflate then decode_value (st_zlib ext) d
          else if tp = ContentEncodingBrotli then
            (case sc_read (st_brotli ext) d of (bs, err) \<Rightarrow> (Some bs, err))
          else if tp = ContentEncodingPlain then (Some d, None)
          else (None, Some ErrUnknownContentEncoding))"

text \<open>
  What the documentation of the streams promises: what was written and closed without an error is
  not empty and is read back.
\<close>

definition lawful_stream :: "stream_codec \<Rightarrow> bool" where
  "lawful_stream sc \<longleftrightarrow>
     (\<forall>d c. encode_value sc d = (Some c, None) \<longrightarrow>
        c \<noteq> [] \<and> sc_open sc c = None \<and> sc_read sc c = (d, None))"

definition lawful_streams :: "streams \<Rightarrow> bool" where
  "lawful_streams ext \<longleftrightarrow>
     lawful_stream (st_gzip ext) \<and> lawful_stream (st_zlib ext) \<and> lawful_stream (st_brotli ext)"

text \<open>The contract of a compressor, as the message codecs use it.\<close>

locale byte_compressor =
  fixes comp decomp :: "'e \<Rightarrow> int \<Rightarrow> bytes option \<Rightarrow> bytes option \<times> gerror option"
    and lawful :: "'e \<Rightarrow> bool"
  assumes comp_nil [simp]: "comp ext tp None = (None, None)"
    and decomp_nil [simp]: "decomp ext tp None = (None, None)"
    and comp_unknown: "tp \<notin> {0..3} \<Longrightarrow> comp ext tp (Some d) = (None, Some ErrUnknownContentEncoding)"
    and decomp_unknown:
      "tp \<notin> {0..3} \<Longrightarrow> decomp ext tp (Some d) = (None, Some ErrUnknownContentEncoding)"
    and comp_plain [simp]: "comp ext 3 data = (data, None)"
    and decomp_plain [simp]: "decomp ext 3 data = (data, None)"
    and comp_some: "comp ext tp (Some d) = (r, None) \<Longrightarrow> r \<noteq> None"
    and comp_round_trip:
      "lawful ext \<Longrightarrow> comp ext tp data = (r, None) \<Longrightarrow> decomp ext tp r = (data, None)"
begin

lemma comp_inject:
  "lawful ext \<Longrightarrow> comp ext tp data = (r, None) \<Longrightarrow> comp ext tp data' = (r, None) \<Longrightarrow> data = data'"
  using comp_round_trip by (metis prod.inject)

lemma comp_is_nil: "comp ext tp data = (None, None) \<longleftrightarrow> data = None"
  using comp_some by (cases data) auto

end

lemma encode_value_None: "encode_value sc d \<noteq> (None, None)"
  by (auto simp: encode_value_def split: prod.splits option.splits)

lemma decode_encode:
  "lawful_stream sc \<Longrightarrow> encode_value sc d = (r, None) \<Longrightarrow>
   (\<exists>c. r = Some c \<and> sc_open sc c = None \<and> sc_read sc c = (d, None))"
  using encode_value_None [of sc d] by (cases r) (auto simp: lawful_stream_def)

interpretation codec_values: byte_compressor compress_value decompress_value lawful_streams
proof unfold_locales
  fix ext :: streams and tp :: int and data r
  assume "lawful_streams ext" "compress_value ext tp data = (r, None)"
  then show "decompress_value ext tp r = (data, None)"
    by (auto simp: lawful_streams_def compress_value_def decompress_value_def decode_value_def
        split: option.splits if_splits dest!: decode_encode)
next
  fix ext :: streams and tp :: int and d r
  assume "compress_value ext tp (Some d) = (r, None)"
  then show "r \<noteq> None"
    using encode_value_None by (cases r) (auto simp: compress_value_def split: if_splits)
qed (auto simp: compress_value_def decompress_value_def encoding_defs split: option.splits)

section \<open>What buffers do\<close>

text \<open>
  A buffer is well formed when its array is allocated and long enough.  Writing to a buffer
  touches its own array and arrays allocated meanwhile, and nothing else of the manager.
\<close>

definition buf_ok :: "manager \<Rightarrow> buffer \<Rightarrow> bool" where
  "buf_ok m b = (case b_arr b of
     None \<Rightarrow> b_len b = 0
   | Some a \<Rightarrow> a < next_array m \<and> b_len b \<le> length (arrays m a))"

definition touches_only :: "buffer \<times> manager \<Rightarrow> buffer \<times> manager \<Rightarrow> bool" where
  "touches_only x y \<longleftrightarrow>
     next_array (snd x) \<le> next_array (snd y)
   \<and> (\<forall>a < next_array (snd x). length (arrays (snd x) a) \<le> length (arrays (snd y) a)
        \<and> (b_arr (fst x) \<noteq> Some a \<longrightarrow> arrays (snd y) a = arrays (snd x) a))
   \<and> (b_arr (fst y) = b_arr (fst x) \<or> (\<exists>a \<ge> next_array (snd x). b_arr (fst y) = Some a))"

definition only_writes :: "buffer \<times> manager \<Rightarrow> buffer \<times> manager \<Rightarrow> bool" where
  "only_writes x y \<longleftrightarrow>
     snd y = (snd x)\<lparr>arrays := arrays (snd y), next_array := next_array (snd y)\<rparr> \<and> touches_only x y"

lemma only_writes_refl: "only_writes x x"
  by (simp add: only_writes_def touches_only_def)

lemma only_writes_trans: "only_writes x y \<Longrightarrow> only_writes y z \<Longrightarrow> only_writes x z"
proof -
  assume xy: "only_writes x y" and yz: "only_writes y z"
  note frame = xy [unfolded only_writes_def touches_only_def]
    yz [unfolded only_writes_def touches_only_def]
  have "snd z = (snd x)\<lparr>arrays := arrays (snd z), next_array := next_array (snd z)\<rparr>"
    using frame by (metis (no_types, lifting) manager.surjective manager.update_convs(6,7))
  moreover have "length (arrays (snd x) a) \<le> length (arrays (snd z) a)" if "a < next_array (snd x)" for a
    using frame that by (meson le_trans less_le_trans)
  moreover have "arrays (snd z) a = arrays (snd x) a"
    if "a < next_array (snd x)" "b_arr (fst x) \<noteq> Some a" for a
    using frame that by (metis less_le_trans not_le option.inject)
  moreover have "b_arr (fst z) = b_arr (fst x) \<or> (\<exists>a \<ge> next_array (snd x). b_arr (fst z) = Some a)"
    using frame by (metis le_trans)
  ultimately show "only_writes x z"
    using frame unfolding only_writes_def touches_only_def by (meson le_trans)
qed

lemma length_overwrite: "i + length p \<le> length xs \<Longrightarrow> length (overwrite xs i p) = length xs"
  by (simp add: overwrite_def)

lemma take_overwrite: "i + length p \<le> length xs \<Longrightarrow> take (i + length p) (overwrite xs i p) = take i xs @ p"
  by (simp add: overwrite_def)

lemma buf_Write_ok:
  assumes "buf_ok m b"
  shows "buf_ok (snd (buf_Write spare p (b, m))) (fst (buf_Write spare p (b, m)))"
    and "buf_bytes (snd (buf_Write spare p (b, m))) (fst (buf_Write spare p (b, m))) = buf_bytes m b @ p"
    and "only_writes (b, m) (buf_Write spare p (b, m))"
  using assms
  by (auto simp: buf_ok_def buf_bytes_def only_writes_def touches_only_def buf_Write_def buf_cap_def Let_def
      length_overwrite take_overwrite min_def split: option.splits)

lemma buf_writes_Cons [simp]:
  "buf_writes spare [] bm = bm"
  "buf_writes spare (p # ps) bm = buf_writes spare ps (buf_Write spare p bm)"
  by (simp_all add: buf_writes_def)

lemma buf_writes_ok:
  assumes "buf_ok m b" and "buf_writes spare ps (b, m) = (b', m')"
  shows "buf_ok m' b' \<and> buf_bytes m' b' = buf_bytes m b @ concat ps \<and> only_writes (b, m) (b', m')"
  using assms
proof (induction ps arbitrary: b m)
  case Nil
  then show ?case by (simp add: only_writes_refl)
next
  case (Cons p ps)
  obtain b1 m1 where step: "buf_Write spare p (b, m) = (b1, m1)" by fastforce
  note ok = buf_Write_ok [OF Cons.prems(1), of spare p, unfolded step fst_conv snd_conv]
  have "buf_writes spare ps (b1, m1) = (b', m')"
    using Cons.prems(2) step by simp
  from Cons.IH [OF ok(1) this] ok show ?case
    by (auto intro: only_writes_trans)
qed

text \<open>Writes that fit overwrite the array in place.\<close>

lemma buf_writes_fit:
  assumes "b_arr b = Some a" and "b_len b + length (concat ps) \<le> length (arrays m a)"
  shows "buf_writes spare ps (b, m) =
    (b\<lparr>b_len := b_len b + length (concat ps)\<rparr>,
     m\<lparr>arrays := (arrays m)(a := overwrite (arrays m a) (b_len b) (concat ps))\<rparr>)"
  using assms
proof (induction ps arbitrary: b m)
  case Nil
  then show ?case by (simp add: overwrite_def)
next
  case (Cons p ps)
  let ?b = "b\<lparr>b_len := b_len b + length p\<rparr>"
  let ?m = "m\<lparr>arrays := (arrays m)(a := overwrite (arrays m a) (b_len b) p)\<rparr>"
  have step: "buf_Write spare p (b, m) = (?b, ?m)"
    using Cons.prems by (simp add: buf_Write_def buf_cap_def Let_def)
  have "p = []" if "length (arrays m a) \<le> b_len b"
    using Cons.prems(2) that by (cases p) auto
  then have "overwrite (overwrite (arrays m a) (b_len b) p) (b_len b + length p) (concat ps) =
      overwrite (arrays m a) (b_len b) (concat (p # ps))"
    using Cons.prems(2) by (auto simp: overwrite_def min_def ac_simps)
  moreover have "b_len ?b + length (concat ps) \<le> length (arrays ?m a)"
    using Cons.prems(2) by (simp add: length_overwrite)
  ultimately show ?case
    using Cons.IH [of ?b ?m] Cons.prems(1) by (simp add: step add.assoc cong: if_cong)
qed

section \<open>The pool of buffers\<close>

text \<open>
  The invariant of the manager: pooled buffers are well formed and no two of them own the same
  array.
\<close>

definition owned :: "buffer list \<Rightarrow> nat list" where
  "owned bs = concat (map (\<lambda>b. case b_arr b of None \<Rightarrow> [] | Some a \<Rightarrow> [a]) bs)"

definition pool_ok :: "manager \<Rightarrow> bool" where
  "pool_ok m \<longleftrightarrow> list_all (buf_ok m) (bufferPool m) \<and> distinct (owned (bufferPool m))"

definition taken_buffer :: "nat option \<Rightarrow> manager \<Rightarrow> buffer" where
  "taken_buffer pick m = (case fst (pool_Get pick (bufferPool m)) of Some b \<Rightarrow> b | None \<Rightarrow> new_buffer)"

definition left_buffers :: "nat option \<Rightarrow> manager \<Rightarrow> buffer list" where
  "left_buffers pick m = snd (pool_Get pick (bufferPool m))"

lemma owned_simps [simp]:
  "owned [] = []"
  "owned (b # bs) = (case b_arr b of None \<Rightarrow> [] | Some a \<Rightarrow> [a]) @ owned bs"
  "owned (bs @ cs) = owned bs @ owned cs"
  by (simp_all add: owned_def)

lemma set_owned: "a \<in> set (owned bs) \<longleftrightarrow> (\<exists>b \<in> set bs. b_arr b = Some a)"
  by (force simp: owned_def split: option.splits)

lemma pool_ok_new: "pool_ok NewCompressorManager"
  by (simp add: pool_ok_def NewCompressorManager_def)

lemma buf_ok_frame: "arrays m' = arrays m \<Longrightarrow> next_array m' = next_array m \<Longrightarrow> buf_ok m' = buf_ok m"
  by (simp add: buf_ok_def fun_eq_iff cong: option.case_cong)

lemma buf_ok_Reset: "buf_ok m b \<Longrightarrow> buf_ok m (buf_Reset b)"
  by (auto simp: buf_ok_def buf_Reset_def split: option.splits)

lemma buf_bytes_Reset: "buf_bytes m (buf_Reset b) = []"
  by (auto simp: buf_bytes_def buf_Reset_def split: option.splits)

lemma taken_buffer_ok:
  assumes "pool_ok m"
  shows "buf_ok m (taken_buffer pick m)"
    and "list_all (buf_ok m) (left_buffers pick m)"
    and "distinct (owned (left_buffers pick m))"
    and "b_arr (taken_buffer pick m) = Some a \<Longrightarrow> a \<notin> set (owned (left_buffers pick m))"
proof -
  let ?T = "taken_buffer pick m" and ?L = "left_buffers pick m"
  consider (fresh) "?T = new_buffer" "?L = bufferPool m"
    | (pooled) i where "i < length (bufferPool m)" "?T = bufferPool m ! i"
        "?L = take i (bufferPool m) @ drop (Suc i) (bufferPool m)"
  proof (cases "\<exists>i. pick = Some i \<and> i < length (bufferPool m)")
    case True
    then obtain i where "pick = Some i" "i < length (bufferPool m)" by blast
    then show ?thesis by (intro pooled [of i]) (simp_all add: taken_buffer_def left_buffers_def pool_Get_def)
  next
    case False
    then have "pool_Get pick (bufferPool m) = (None, bufferPool m)"
      by (cases pick) (simp_all add: pool_Get_def)
    then show ?thesis by (intro fresh) (simp_all add: taken_buffer_def left_buffers_def)
  qed
  then have "buf_ok m ?T \<and> list_all (buf_ok m) ?L \<and> distinct (owned ?L) \<and>
      (\<forall>a. b_arr ?T = Some a \<longrightarrow> a \<notin> set (owned ?L))"
  proof cases
    case fresh
    with assms show ?thesis by (simp add: pool_ok_def new_buffer_def buf_ok_def)
  next
    case (pooled i)
    then have "bufferPool m = take i (bufferPool m) @ ?T # drop (Suc i) (bufferPool m)"
      by (simp add: id_take_nth_drop [symmetric])
    with assms have "list_all (buf_ok m) (take i (bufferPool m) @ ?T # drop (Suc i) (bufferPool m))"
      and "distinct (owned (take i (bufferPool m) @ ?T # drop (Suc i) (bufferPool m)))"
      by (simp_all add: pool_ok_def)
    with pooled(3) show ?thesis by (auto split: option.splits)
  qed
  then show "buf_ok m ?T" "list_all (buf_ok m) ?L" "distinct (owned ?L)"
    "b_arr ?T = Some a \<Longrightarrow> a \<notin> set (owned ?L)"
    by simp_all
qed

text \<open>What is left in the pool stays well formed when the taken buffer is written to and put back.\<close>

lemma pool_ok_put:
  assumes "pool_ok m" and "touches_only (taken_buffer pick m, m) (b, m')"
    and "buf_ok m' b" and "bufferPool m' = left_buffers pick m @ [b]"
  shows "pool_ok m'"
proof -
  note left = taken_buffer_ok [OF assms(1), of pick]
  note frame = assms(2) [unfolded touches_only_def fst_conv snd_conv]
  have below: "a < next_array m" if "a \<in> set (owned (left_buffers pick m))" for a
    using that left(2) by (auto simp: set_owned buf_ok_def list_all_iff)
  have "list_all (buf_ok m') (left_buffers pick m)"
    using left(2) frame by (fastforce simp: list_all_iff buf_ok_def split: option.splits)
  moreover have "a \<notin> set (owned (left_buffers pick m))" if "b_arr b = Some a" for a
    using frame that left(4) below by (metis leD option.inject)
  ultimately show ?thesis
    using left(3) assms(3,4) by (auto simp: pool_ok_def split: option.splits)
qed

section \<open>Compression refines its specification\<close>

definition read_result :: "manager \<Rightarrow> result \<Rightarrow> bytes option \<times> gerror option" where
  "read_result m r = (map_option (read_slice m) (fst r), snd r)"

lemma read_result_simps [simp]:
  "read_result m (None, e) = (None, e)"
  "read_result m (Some v, e) = (Some (read_slice m v), e)"
  by (simp_all add: read_result_def)

lemma read_slice_frame: "arrays m' = arrays m \<Longrightarrow> read_slice m' = read_slice m"
proof
  fix v
  assume "arrays m' = arrays m"
  then show "read_slice m' v = read_slice m v" by (cases v) simp_all
qed

lemma read_result_frame: "arrays m' = arrays m \<Longrightarrow> read_result m' = read_result m"
proof
  fix r
  assume "arrays m' = arrays m"
  from read_slice_frame [OF this] show "read_result m' r = read_result m r"
    by (simp only: read_result_def)
qed

lemma read_buf_Bytes:
  "buf_bytes m b \<noteq> [] \<Longrightarrow> map_option (read_slice m) (buf_Bytes b) = Some (buf_bytes m b)"
  by (auto simp: buf_Bytes_def buf_bytes_def split: option.splits)

text \<open>
  What a compression leaves: the result reads as the value of the specification, the pool has the
  buffer that was used at its end, and only arrays of that buffer changed.
\<close>

definition compress_effect :: "nat option \<Rightarrow> manager \<Rightarrow> manager \<Rightarrow> result \<Rightarrow> bool" where
  "compress_effect pick m m' r \<longleftrightarrow>
     (\<exists>b. bufferPool m' = left_buffers pick m @ [b]
        \<and> touches_only (taken_buffer pick m, m) (b, m') \<and> buf_ok m' b
        \<and> (fst r = None \<or> fst r = buf_Bytes b))"

lemma compress_effect_pool_ok: "pool_ok m \<Longrightarrow> compress_effect pick m m' r \<Longrightarrow> pool_ok m'"
  by (auto simp: compress_effect_def intro: pool_ok_put)

lemma touches_only_frame:
  "arrays m2 = arrays m \<Longrightarrow> next_array m2 = next_array m \<Longrightarrow>
   arrays m4 = arrays m3 \<Longrightarrow> next_array m4 = next_array m3 \<Longrightarrow> b_arr b2 = b_arr b \<Longrightarrow>
   touches_only (b2, m2) (b3, m3) \<Longrightarrow> touches_only (b, m) (b3, m4)"
  by (simp add: touches_only_def)

lemma pooled_compress_spec:
  assumes "pool_ok m" and "lawful_stream sc"
    and run: "pooled_compress sc spare pw pb d ws m = (ws', m', r)"
  shows "read_result m' r = encode_value sc d" and "compress_effect pb m m' r"
proof -
  define m2 where "m2 = (case fst (pool_Get pw ws) of
      Some w \<Rightarrow> m | None \<Rightarrow> m\<lparr>next_object := Suc (next_object m)\<rparr>)\<lparr>bufferPool := left_buffers pb m\<rparr>"
  have m2: "arrays m2 = arrays m" "next_array m2 = next_array m" "bufferPool m2 = left_buffers pb m"
    by (simp_all add: m2_def split: option.splits)
  let ?b = "buf_Reset (taken_buffer pb m)"
  obtain c1 e1 where w1: "sc_write sc d = (c1, e1)" by fastforce
  obtain c2 e2 where w2: "sc_close sc d = (c2, e2)" by fastforce
  obtain b1 m3 where s1: "buf_writes spare c1 (?b, m2) = (b1, m3)" by fastforce
  obtain b2 m4 where s2: "buf_writes spare c2 (b1, m3) = (b2, m4)" by fastforce
  have "buf_ok m2 ?b"
    using taken_buffer_ok(1) [OF assms(1)] by (simp add: buf_ok_Reset buf_ok_frame [OF m2(1,2)])
  note ok1 = buf_writes_ok [OF this s1]
  note ok2 = buf_writes_ok [OF ok1 [THEN conjunct1] s2]
  define last where "last = (if e1 = None then (b2, m4) else (b1, m3))"
  have last_ok: "buf_ok (snd last) (fst last)" "only_writes (?b, m2) last"
    using ok1 ok2 by (auto simp: last_def intro: only_writes_trans)
  have r: "m' = (snd last)\<lparr>bufferPool := bufferPool (snd last) @ [fst last]\<rparr>"
    "r = (case e1 of Some e \<Rightarrow> (None, Some e) | None \<Rightarrow>
            (case e2 of Some e \<Rightarrow> (None, Some e) | None \<Rightarrow> (buf_Bytes b2, None)))"
    using run s1 s2 w1 w2 unfolding m2_def
    by (auto simp: pooled_compress_def Let_def last_def taken_buffer_def left_buffers_def
        split: prod.splits option.splits)
  have pool: "bufferPool (snd last) = left_buffers pb m"
    using last_ok(2) m2(3) by (simp add: only_writes_def) (metis manager.select_convs(2) manager.surjective manager.update_convs(6,7))
  show "compress_effect pb m m' r"
    unfolding compress_effect_def
  proof (intro exI conjI)
    show "bufferPool m' = left_buffers pb m @ [fst last]" by (simp add: r(1) pool)
    show "buf_ok m' (fst last)" using last_ok(1) by (auto simp: r(1) buf_ok_def split: option.splits)
    show "touches_only (taken_buffer pb m, m) (fst last, m')"
      using last_ok(2) m2(1,2)
      by (simp add: only_writes_def touches_only_def r(1) buf_Reset_def)
    show "fst r = None \<or> fst r = buf_Bytes (fst last)"
      by (auto simp: r(2) last_def split: option.splits)
  qed
  have "buf_bytes m4 b2 = concat (c1 @ c2)"
    using ok1 ok2 by (simp add: buf_bytes_Reset)
  moreover have "concat (c1 @ c2) \<noteq> []" if "e1 = None" "e2 = None"
  proof -
    have "encode_value sc d = (Some (concat (c1 @ c2)), None)"
      using that by (simp add: encode_value_def w1 w2)
    with assms(2) show ?thesis unfolding lawful_stream_def by blast
  qed
  moreover have "read_slice m' = read_slice m4" if "e1 = None"
    using that by (intro read_slice_frame) (simp add: r(1) last_def)
  ultimately show "read_result m' r = encode_value sc d"
    using read_buf_Bytes [of m4 b2]
    by (auto simp: r(2) read_result_def encode_value_def w1 w2 split: option.splits)
qed

text \<open>The three compressors are the shared body on their own pools of writers.\<close>

lemma compress_effect_pool:
  "compress_effect pick m m' r \<Longrightarrow> bufferPool m'' = bufferPool m' \<Longrightarrow> arrays m'' = arrays m' \<Longrightarrow>
   next_array m'' = next_array m' \<Longrightarrow> compress_effect pick m m'' r"
  by (auto simp: compress_effect_def touches_only_def buf_ok_frame [of m'' m'])

lemma algorithm_form:
  assumes "lawful_streams ext" and "tp \<in> {0, 1, 2}"
    and "Compress ext pw pb tp (Some d) m = (m', r)"
  obtains sc ws ws' m0 where "lawful_stream sc" "compress_value ext tp (Some d) = encode_value sc d"
    "pooled_compress sc (st_spare ext) pw pb d ws m = (ws', m0, r)"
    "bufferPool m' = bufferPool m0" "arrays m' = arrays m0" "next_array m' = next_array m0"
proof -
  note defs = lawful_streams_def Compress_def compress_value_def encoding_defs GzipCompress_def
    ZlibCompress_def BrotliCompress_def
  from assms(2) consider "tp = 0" | "tp = 1" | "tp = 2" by auto
  then show ?thesis
  proof cases
    case 1
    with assms(3) obtain ws' m0
      where "pooled_compress (st_gzip ext) (st_spare ext) pw pb d (gzipWriterPool m) m = (ws', m0, r)"
        "m' = m0\<lparr>gzipWriterPool := ws'\<rparr>"
      by (auto simp: defs split: prod.splits)
    with 1 assms(1) show ?thesis
      by (intro that [of "st_gzip ext" "gzipWriterPool m"]) (auto simp: defs)
  next
    case 2
    with assms(3) obtain ws' m0
      where "pooled_compress (st_zlib ext) (st_spare ext) pw pb d (zlibWriterPool m) m = (ws', m0, r)"
        "m' = m0\<lparr>zlibWriterPool := ws'\<rparr>"
      by (auto simp: defs split: prod.splits)
    with 2 assms(1) show ?thesis
      by (intro that [of "st_zlib ext" "zlibWriterPool m"]) (auto simp: defs)
  next
    case 3
    with assms(3) obtain ws' m0
      where "pooled_compress (st_brotli ext) (st_spare ext) pw pb d (brotliWriterPool m) m = (ws', m0, r)"
        "m' = m0\<lparr>brotliWriterPool := ws'\<rparr>"
      by (auto simp: defs split: prod.splits)
    with 3 assms(1) show ?thesis
      by (intro that [of "st_brotli ext" "brotliWriterPool m"]) (auto simp: defs)
  qed
qed

lemma algorithm_spec:
  assumes "pool_ok m" and "lawful_streams ext" and "tp \<in> {0, 1, 2}"
    and "Compress ext pw pb tp (Some d) m = (m', r)"
  shows "read_result m' r = compress_value ext tp (Some d)" and "compress_effect pb m m' r"
proof -
  from algorithm_form [OF assms(2-4)] obtain sc ws ws' m0
    where sc: "lawful_stream sc" "compress_value ext tp (Some d) = encode_value sc d"
    and run: "pooled_compress sc (st_spare ext) pw pb d ws m = (ws', m0, r)"
    and frame: "bufferPool m' = bufferPool m0" "arrays m' = arrays m0" "next_array m' = next_array m0" .
  note spec = pooled_compress_spec [OF assms(1) sc(1) run]
  show "read_result m' r = compress_value ext tp (Some d)"
    using spec(1) sc(2) read_result_frame [OF frame(2)] by simp
  show "compress_effect pb m m' r"
    using spec(2) frame by (rule compress_effect_pool)
qed

lemma other_encodings:
  assumes "tp \<notin> {0, 1, 2}" and "Compress ext pw pb tp (Some d) m = (m', r)"
  shows "m' = m" and "read_result m' r = compress_value ext tp (Some d)"
  using assms by (auto simp: Compress_def compress_value_def encoding_defs split: if_splits)

lemma Compress_spec:
  assumes "pool_ok m" and "lawful_streams ext" and "Compress ext pw pb tp data m = (m', r)"
  shows "read_result m' r = compress_value ext tp data \<and> pool_ok m'"
proof (cases data)
  case None
  with assms show ?thesis by (auto simp: Compress_def)
next
  case (Some d)
  show ?thesis
  proof (cases "tp \<in> {0, 1, 2}")
    case True
    note spec = algorithm_spec [OF assms(1,2) True assms(3) [unfolded Some]]
    from spec(1) compress_effect_pool_ok [OF assms(1) spec(2)] Some show ?thesis by simp
  next
    case False
    note spec = other_encodings [OF False assms(3) [unfolded Some]]
    from spec Some assms(1) show ?thesis by simp
  qed
qed

text \<open>
  C3. Compressing on a well-formed manager computes, when the result is read at once, what the
  specification says, for every encoding, every choice of pooled writers and buffers and every
  error of the streams; the manager stays well formed.
\<close>

theorem Compress_computes:
  assumes "pool_ok m" and "lawful_streams ext" and "Compress ext pw pb tp data m = (m', r)"
  shows "read_result m' r = compress_value ext tp data \<and> pool_ok m'"
  using assms by (rule Compress_spec)

text \<open>Decompression reads into new memory and touches no buffer.\<close>

lemma with_reader_frame:
  "arrays (with_reader pick m) = arrays m"
  "bufferPool (with_reader pick m) = bufferPool m"
  "next_array (with_reader pick m) = next_array m"
  by (simp_all add: with_reader_def split: option.split prod.split)

lemma io_ReadAll_value:
  "read_result m (io_ReadAll sc d) = (case sc_read sc d of (bs, err) \<Rightarrow> (Some bs, err))"
  by (simp add: io_ReadAll_def split: prod.split)

lemma Decompress_computes:
  assumes "Decompress ext pick tp data m = (m', r)"
  shows "read_result m' r = decompress_value ext tp data"
    and "m' = m \<or> m' = with_reader pick m"
proof -
  have "read_result m'' (snd (Decompress ext pick tp data m)) = decompress_value ext tp data" for m''
    by (cases data)
      (simp_all add: Decompress_def decompress_value_def decode_value_def GzipDecompress_def
        ZlibDecompress_def BrotliDecompress_def io_ReadAll_value split: option.split)
  then show "read_result m' r = decompress_value ext tp data"
    using assms by (metis snd_conv)
  have "fst (Decompress ext pick tp data m) \<in> {m, with_reader pick m}"
    by (cases data)
      (simp_all add: Decompress_def GzipDecompress_def ZlibDecompress_def BrotliDecompress_def)
  then show "m' = m \<or> m' = with_reader pick m"
    using assms by simp
qed

text \<open>
  What was compressed without an error is decompressed to the same data, nil and the empty
  slice included, for every encoding and whatever the pools hand out.
\<close>

lemma Decompress_Compress:
  assumes "pool_ok m" and "lawful_streams ext"
    and "Compress ext pw pb tp data m = (m1, r1)" and "snd r1 = None"
    and "Decompress ext pick tp (fst (read_result m1 r1)) m1 = (m2, r2)"
  shows "read_result m2 r2 = (data, None)"
proof -
  have "compress_value ext tp data = (fst (read_result m1 r1), None)"
    using Compress_spec [OF assms(1-3)] assms(4) by (simp add: read_result_def prod_eq_iff)
  then show ?thesis
    using codec_values.comp_round_trip assms(2) Decompress_computes(1) [OF assms(5)] by metis
qed

section \<open>How long a result is good\<close>

lemma taken_not_last:
  assumes "pool_ok m" and "bufferPool m = bs @ [b]" and "pick \<noteq> Some (length bs)"
    and "b_arr b = Some a"
  shows "b_arr (taken_buffer pick m) \<noteq> Some a"
proof (cases "\<exists>i < length bs. pick = Some i")
  case True
  then obtain i where i: "i < length bs" "pick = Some i" by blast
  then have "taken_buffer pick m = bs ! i"
    using assms(2) by (simp add: taken_buffer_def pool_Get_def nth_append)
  moreover have "a \<notin> set (owned bs)" using assms(1,2,4) by (simp add: pool_ok_def)
  ultimately show ?thesis using i(1) by (auto simp: set_owned)
next
  case False
  with assms(2,3) have "taken_buffer pick m = new_buffer"
    by (auto simp: taken_buffer_def pool_Get_def less_Suc_eq split: option.splits)
  then show ?thesis by (simp add: new_buffer_def)
qed

lemma Compress_keeps_array:
  assumes "pool_ok m" and "lawful_streams ext" and "Compress ext pw pb tp data m = (m', r)"
    and "a < next_array m" and "b_arr (taken_buffer pb m) \<noteq> Some a"
  shows "arrays m' a = arrays m a"
proof (cases "\<exists>d. data = Some d \<and> tp \<in> {0, 1, 2}")
  case True
  then have "compress_effect pb m m' r"
    using algorithm_spec(2) [OF assms(1,2)] assms(3) by blast
  with assms(4,5) show ?thesis by (auto simp: compress_effect_def touches_only_def)
next
  case False
  with assms(3) other_encodings(1) have "m' = m" by (cases data) (auto simp: Compress_def)
  then show ?thesis by simp
qed

lemma Compress_view:
  assumes "pool_ok m" and "lawful_streams ext" and "Compress ext pw pb tp (Some d) m = (m', (Some (View a n), e))"
  obtains b bs where "bufferPool m' = bs @ [b]" "b_arr b = Some a" "b_len b = n" "a < next_array m'"
    "n \<le> length (arrays m' a)" "tp \<in> {0, 1, 2}"
proof -
  have tp: "tp \<in> {0, 1, 2}"
    using assms(3) by (auto simp: Compress_def encoding_defs split: if_splits)
  from algorithm_spec(2) [OF assms(1,2) this assms(3)] tp show ?thesis
    by (auto simp: compress_effect_def buf_Bytes_def buf_ok_def split: option.splits intro: that)
qed

text \<open>
  A compressed result keeps its bytes through a later compression that does not take the
  buffer the result is a view of, which the earlier one put at the end of the pool.
\<close>

lemma result_survives_other_buffer:
  assumes "pool_ok m" and "lawful_streams ext"
    and "Compress ext pw pb tp (Some d) m = (m1, (Some v, None))"
    and "Compress ext pw' pb' tp' data m1 = (m2, r2)"
    and "pb' \<noteq> Some (length (bufferPool m1) - 1)"
  shows "read_slice m2 v = read_slice m1 v"

proof (cases v)
  case (Own bs)
  then show ?thesis by simp
next
  case (View a n)
  with assms(3) obtain b bs where pool: "bufferPool m1 = bs @ [b]" "b_arr b = Some a"
    and a: "a < next_array m1"
    by (auto elim: Compress_view [OF assms(1,2)])
  have ok: "pool_ok m1" using Compress_spec [OF assms(1-3)] by simp
  have "b_arr (taken_buffer pb' m1) \<noteq> Some a"
    using taken_not_last [OF ok pool(1) _ pool(2)] assms(5) pool(1) by simp
  with Compress_keeps_array [OF ok assms(2,4) a] View show ?thesis by simp
qed

lemma pooled_compress_no_error:
  assumes "sc_write sc d = (c1, None)" and "sc_close sc d = (c2, None)"
    and "pooled_compress sc spare pw pb d ws m = (ws', m', r)"
  obtains m2 b m4 where "arrays m2 = arrays m"
    "buf_writes spare (c1 @ c2) (buf_Reset (taken_buffer pb m), m2) = (b, m4)"
    "arrays m' = arrays m4" "r = (buf_Bytes b, None)"
proof -
  define m2 where "m2 = (case fst (pool_Get pw ws) of
      Some w \<Rightarrow> m | None \<Rightarrow> m\<lparr>next_object := Suc (next_object m)\<rparr>)\<lparr>bufferPool := left_buffers pb m\<rparr>"
  obtain b m4 where s: "buf_writes spare c2 (buf_writes spare c1 (buf_Reset (taken_buffer pb m), m2)) = (b, m4)"
    by fastforce
  have "arrays m2 = arrays m" by (simp add: m2_def split: option.split)
  moreover have "buf_writes spare (c1 @ c2) (buf_Reset (taken_buffer pb m), m2) = (b, m4)"
    using s by (simp add: buf_writes_def)
  moreover have "m' = m4\<lparr>bufferPool := bufferPool m4 @ [b]\<rparr> \<and> r = (buf_Bytes b, None)"
    using assms s unfolding m2_def
    by (auto simp: pooled_compress_def Let_def taken_buffer_def left_buffers_def
        split: prod.splits option.splits)
  ultimately show ?thesis by (intro that [of m2 b m4]) simp_all
qed

text \<open>
  A later compression that takes the buffer of an earlier result, and whose output fits in that
  buffer's array, overwrites the earlier result with its own bytes: \<open>Compress\<close> returns
  memory that the pool hands out again.
\<close>

lemma view_overwritten:
  assumes "pool_ok m" and "lawful_streams ext"
    and "Compress ext pw pb tp (Some d) m = (m1, (Some (View a n), None))"
    and "Compress ext pw' (Some (length (bufferPool m1) - 1)) tp' (Some d') m1 = (m2, r2)"
    and "compress_value ext tp' (Some d') = (Some c, None)" and "tp' \<in> {0, 1, 2}"
    and "length c \<le> length (arrays m1 a)"
  shows "read_slice m2 (View a n) = take n (c @ drop (length c) (arrays m1 a))
    \<and> r2 = (Some (View a (length c)), None)"
proof -
  from Compress_view [OF assms(1-3)] obtain b bs where pool: "bufferPool m1 = bs @ [b]" "b_arr b = Some a"
    by metis
  from algorithm_form [OF assms(2,6,4)] obtain sc ws ws' m0
    where sc: "lawful_stream sc" "compress_value ext tp' (Some d') = encode_value sc d'"
    and run: "pooled_compress sc (st_spare ext) pw' (Some (length (bufferPool m1) - 1)) d' ws m1 =
      (ws', m0, r2)"
    and frame: "arrays m2 = arrays m0" .
  from sc(2) assms(5) obtain c1 c2 where w: "sc_write sc d' = (c1, None)" "sc_close sc d' = (c2, None)"
    and c: "c = concat c1 @ concat c2"
    by (auto simp: encode_value_def split: prod.splits option.splits)
  from pooled_compress_no_error [OF w run] obtain m3 b' m4 where m3: "arrays m3 = arrays m1"
    and s: "buf_writes (st_spare ext) (c1 @ c2)
      (buf_Reset (taken_buffer (Some (length (bufferPool m1) - 1)) m1), m3) = (b', m4)"
    and m0: "arrays m0 = arrays m4" and r2: "r2 = (buf_Bytes b', None)" .
  have "taken_buffer (Some (length (bufferPool m1) - 1)) m1 = b"
    using pool(1) by (simp add: taken_buffer_def pool_Get_def)
  then have "buf_writes (st_spare ext) (c1 @ c2) (buf_Reset b, m3) = (b', m4)" using s by simp
  moreover have "b_arr (buf_Reset b) = Some a" "b_len (buf_Reset b) = 0"
    using pool(2) by (simp_all add: buf_Reset_def)
  ultimately have "b_arr b' = Some a" "b_len b' = length c" "arrays m4 a = overwrite (arrays m1 a) 0 c"
    using buf_writes_fit [of "buf_Reset b" a "c1 @ c2" m3] assms(7) c m3 by auto
  then show ?thesis
    by (simp add: frame m0 r2 buf_Bytes_def overwrite_def)
qed

section \<open>Concrete runs\<close>

text \<open>Streams that frame the data with a first and a last byte, written as two chunks.\<close>

definition framing_stream :: stream_codec where
  "framing_stream =
     \<lparr>sc_write = (\<lambda>d. ([1 # d], None)), sc_close = (\<lambda>d. ([[9]], None)),
      sc_open = (\<lambda>c. None), sc_read = (\<lambda>c. (butlast (tl c), None))\<rparr>"

definition framing :: streams where
  "framing =
     \<lparr>st_gzip = framing_stream, st_zlib = framing_stream, st_brotli = framing_stream,
      st_spare = (\<lambda>cap n. 4)\<rparr>"

definition framing_manager :: "bytes \<Rightarrow> manager" where
  "framing_manager xs =
     NewCompressorManager\<lparr>bufferPool := [\<lparr>b_arr = Some 0, b_len = 4\<rparr>], gzipWriterPool := [0],
       arrays := (\<lambda>_. [])(0 := xs), next_array := 1, next_object := 1\<rparr>"

lemma framing_lawful: "lawful_streams framing"
  by (auto simp: framing_def lawful_streams_def lawful_stream_def framing_stream_def encode_value_def)

lemma framing_value: "compress_value framing 0 (Some d) = (Some (1 # d @ [9]), None)"
  by (simp add: compress_value_def encoding_defs encode_value_def framing_def framing_stream_def)

lemmas framing_run_defs = Compress_def encoding_defs GzipCompress_def pooled_compress_def pool_Get_def
  Let_def framing_def framing_stream_def NewCompressorManager_def new_buffer_def buf_Reset_def
  buf_Write_def buf_cap_def buf_bytes_def buf_Bytes_def overwrite_def framing_manager_def

lemma framing_first:
  "Compress framing None None 0 (Some [5, 6]) NewCompressorManager =
     (framing_manager [1, 5, 6, 9, 0, 0, 0], (Some (View 0 4), None))"
  by (simp add: framing_run_defs numeral_eq_Suc)

lemma framing_second:
  "Compress framing (Some 0) (Some 0) 0 (Some [7, 8]) (framing_manager [1, 5, 6, 9, 0, 0, 0]) =
     (framing_manager [1, 7, 8, 9, 0, 0, 0], (Some (View 0 4), None))"
  by (simp add: framing_run_defs numeral_eq_Suc)

theorem Compress_computes_witness:
  "read_result (framing_manager [1, 5, 6, 9, 0, 0, 0]) (Some (View 0 4), None) =
     compress_value framing 0 (Some [5, 6]) \<and> pool_ok (framing_manager [1, 5, 6, 9, 0, 0, 0])"
  by (rule Compress_computes [OF pool_ok_new framing_lawful framing_first])

lemma Decompress_Compress_witness:
  "read_result (with_reader None (framing_manager [1, 5, 6, 9, 0, 0, 0])) (Some (Own [5, 6]), None) =
     (Some [5, 6], None)"
proof (rule Decompress_Compress [OF pool_ok_new framing_lawful framing_first])
  show "Decompress framing None 0
      (fst (read_result (framing_manager [1, 5, 6, 9, 0, 0, 0]) (Some (View 0 4), None)))
      (framing_manager [1, 5, 6, 9, 0, 0, 0]) =
    (with_reader None (framing_manager [1, 5, 6, 9, 0, 0, 0]), (Some (Own [5, 6]), None))"
    by (simp add: Decompress_def encoding_defs GzipDecompress_def io_ReadAll_def framing_def
        framing_stream_def framing_manager_def numeral_eq_Suc)
qed simp

lemma result_survives_other_buffer_witness:
  "read_slice (fst (Compress framing None None 0 (Some [7, 8]) (framing_manager [1, 5, 6, 9, 0, 0, 0])))
     (View 0 4) = [1, 5, 6, 9]"
proof -
  obtain m2 r2 where run: "Compress framing None None 0 (Some [7, 8])
      (framing_manager [1, 5, 6, 9, 0, 0, 0]) = (m2, r2)" by (metis surj_pair)
  have "read_slice m2 (View 0 4) = read_slice (framing_manager [1, 5, 6, 9, 0, 0, 0]) (View 0 4)"
    by (rule result_survives_other_buffer [OF pool_ok_new framing_lawful framing_first run]) simp
  also have "\<dots> = [1, 5, 6, 9]" by (simp add: framing_manager_def numeral_eq_Suc)
  finally show ?thesis by (simp add: run)
qed

end
