(* ===== verification/Pb_Codec.thy ===== *)
theory Pb_Codec
  imports Compressor
begin

text \<open>
  The messages of the protobuf transport (\<open>mqttpb/base.pb.go\<close>, generated from
  \<open>base.proto\<close>) and the codecs that compress and serialise them (\<open>mqttpb/codec.go\<close>).

  The protobuf runtime is outside the repository: serialising and parsing are arguments, with
  the documented law that what was serialised is parsed back, up to the difference between nil
  and empty that the wire format does not keep.
\<close>

section \<open>Messages\<close>

text \<open>An enum of protobuf is open: any 32-bit value may arrive.\<close>

type_synonym encoding = "32 word"

definition ContentEncoding_PLAIN :: encoding where "ContentEncoding_PLAIN = 0"
definition ContentEncoding_GZIP :: encoding where "ContentEncoding_GZIP = 1"
definition ContentEncoding_DEFLATE :: encoding where "ContentEncoding_DEFLATE = 2"
definition ContentEncoding_BROTLI :: encoding where "ContentEncoding_BROTLI = 3"

lemmas pb_encoding_defs = ContentEncoding_PLAIN_def ContentEncoding_GZIP_def
  ContentEncoding_DEFLATE_def ContentEncoding_BROTLI_def

record any =
  TypeUrl :: string
  Value :: "bytes option"

type_synonym metadata = "(string \<rightharpoonup> string) option"

record request =
  q_Id :: "64 word"
  q_Method :: string
  q_Encoding :: encoding
  q_Metadata :: metadata
  q_Body :: "any option"

record pb_response =
  p_Id :: "64 word"
  p_Status :: "32 word"
  p_ErrorMessage :: string
  p_Encoding :: encoding
  p_Metadata :: metadata
  p_Body :: "any option"

definition empty_request :: request where
  "empty_request =
     \<lparr>q_Id = 0, q_Method = [], q_Encoding = 0, q_Metadata = None, q_Body = None\<rparr>"

definition empty_response :: pb_response where
  "empty_response =
     \<lparr>p_Id = 0, p_Status = 0, p_ErrorMessage = [], p_Encoding = 0, p_Metadata = None, p_Body = None\<rparr>"

text \<open>The generated getters, which accept a nil receiver.\<close>

definition Request_GetId :: "request option \<Rightarrow> 64 word" where
  "Request_GetId x = (case x of None \<Rightarrow> 0 | Some r \<Rightarrow> q_Id r)"
definition Request_GetMethod :: "request option \<Rightarrow> string" where
  "Request_GetMethod x = (case x of None \<Rightarrow> [] | Some r \<Rightarrow> q_Method r)"
definition Request_GetEncoding :: "request option \<Rightarrow> encoding" where
  "Request_GetEncoding x = (case x of None \<Rightarrow> ContentEncoding_PLAIN | Some r \<Rightarrow> q_Encoding r)"
definition Request_GetMetadata :: "request option \<Rightarrow> metadata" where
  "Request_GetMetadata x = (case x of None \<Rightarrow> None | Some r \<Rightarrow> q_Metadata r)"
definition Request_GetBody :: "request option \<Rightarrow> any option" where
  "Request_GetBody x = (case x of None \<Rightarrow> None | Some r \<Rightarrow> q_Body r)"

definition Response_GetId :: "pb_response option \<Rightarrow> 64 word" where
  "Response_GetId x = (case x of None \<Rightarrow> 0 | Some r \<Rightarrow> p_Id r)"
definition Response_GetStatus :: "pb_response option \<Rightarrow> 32 word" where
  "Response_GetStatus x = (case x of None \<Rightarrow> 0 | Some r \<Rightarrow> p_Status r)"
definition Response_GetErrorMessage :: "pb_response option \<Rightarrow> string" where
  "Response_GetErrorMessage x = (case x of None \<Rightarrow> [] | Some r \<Rightarrow> p_ErrorMessage r)"
definition Response_GetEncoding :: "pb_response option \<Rightarrow> encoding" where
  "Response_GetEncoding x = (case x of None \<Rightarrow> ContentEncoding_PLAIN | Some r \<Rightarrow> p_Encoding r)"
definition Response_GetMetadata :: "pb_response option \<Rightarrow> metadata" where
  "Response_GetMetadata x = (case x of None \<Rightarrow> None | Some r \<Rightarrow> p_Metadata r)"
definition Response_GetBody :: "pb_response option \<Rightarrow> any option" where
  "Response_GetBody x = (case x of None \<Rightarrow> None | Some r \<Rightarrow> p_Body r)"

section \<open>Serialisation\<close>

text \<open>
  The protobuf runtime for the two envelopes and for the messages \<open>'p\<close> of the application.  A
  failing parse leaves what it had parsed in the envelope.
\<close>

record 'p proto =
  px_MarshalRequest :: "request \<Rightarrow> gerror + bytes"
  px_UnmarshalRequest :: "bytes \<Rightarrow> request \<times> gerror option"
  px_MarshalResponse :: "pb_response \<Rightarrow> gerror + bytes"
  px_UnmarshalResponse :: "bytes \<Rightarrow> pb_response \<times> gerror option"
  px_MarshalMsg :: "'p \<Rightarrow> gerror + bytes"
  px_UnmarshalMsg :: "string \<Rightarrow> bytes option \<Rightarrow> gerror + 'p"
  px_TypeOf :: "'p \<Rightarrow> string"
  px_Empty :: 'p

text \<open>
  What the wire format does not distinguish: a nil and an empty byte string, a nil and an empty
  map.
\<close>

definition norm_value :: "bytes option \<Rightarrow> bytes option" where
  "norm_value v = (if v = Some [] then None else v)"

definition norm_metadata :: "metadata \<Rightarrow> metadata" where
  "norm_metadata md = (if md = Some Map.empty then None else md)"

definition norm_body :: "any option \<Rightarrow> any option" where
  "norm_body b = map_option (\<lambda>a. a\<lparr>Value := norm_value (Value a)\<rparr>) b"

definition norm_request :: "request \<Rightarrow> request" where
  "norm_request q = q\<lparr>q_Metadata := norm_metadata (q_Metadata q), q_Body := norm_body (q_Body q)\<rparr>"

definition norm_response :: "pb_response \<Rightarrow> pb_response" where
  "norm_response p = p\<lparr>p_Metadata := norm_metadata (p_Metadata p), p_Body := norm_body (p_Body p)\<rparr>"

text \<open>The law of the runtime.\<close>

definition lawful_proto :: "'p proto \<Rightarrow> bool" where
  "lawful_proto px \<longleftrightarrow>
     (\<forall>q b. px_MarshalRequest px q = Inr b \<longrightarrow> px_UnmarshalRequest px b = (norm_request q, None))
   \<and> px_UnmarshalResponse px [] = (empty_response, None)
   \<and> (\<forall>p b. px_MarshalResponse px p = Inr b \<longrightarrow> px_UnmarshalResponse px b = (norm_response p, None))"

definition lawful_messages :: "'p proto \<Rightarrow> bool" where
  "lawful_messages px \<longleftrightarrow>
     (\<forall>msg b. px_MarshalMsg px msg = Inr b \<longrightarrow>
        px_UnmarshalMsg px (px_TypeOf px msg) (norm_value (Some b)) = Inr msg
      \<and> px_UnmarshalMsg px (px_TypeOf px msg) (Some b) = Inr msg)"

lemma norm_value_idem [simp]: "norm_value (norm_value v) = norm_value v"
  by (simp add: norm_value_def)

lemma norm_value_simps [simp]:
  "norm_value None = None" "bs \<noteq> [] \<Longrightarrow> norm_value (Some bs) = Some bs"
  "norm_value v = None \<longleftrightarrow> v = None \<or> v = Some []"
  by (auto simp: norm_value_def)

section \<open>The codecs\<close>

definition convertEncoding :: "encoding \<Rightarrow> int" where
  "convertEncoding e =
     (if e = ContentEncoding_PLAIN then ContentEncodingPlain
      else if e = ContentEncoding_GZIP then ContentEncodingGzip
      else if e = ContentEncoding_DEFLATE then ContentEncodingDeflate
      else if e = ContentEncoding_BROTLI then ContentEncodingBrotli
      else ContentEncodingPlain)"

text \<open>Every value of the enum, known or not, is converted to an encoding the compressor knows.\<close>

lemma convertEncoding_known: "convertEncoding e \<in> {0..3}"
  by (simp add: convertEncoding_def encoding_defs)

text \<open>
  \<open>Marshal\<close> has two stages that other goroutines can come between: the body is compressed,
  which may return a view of a pooled buffer, and then the message is serialised, which reads
  the view.  Between the stages the message's body value is the view.  (The source stores it in
  the message it was given, which no caller uses afterwards.)
\<close>

definition with_value :: "bytes option \<Rightarrow> any option \<Rightarrow> any option" where
  "with_value v b = map_option (\<lambda>a. a\<lparr>Value := v\<rparr>) b"

definition compress_body ::
  "streams \<Rightarrow> nat option \<Rightarrow> nat option \<Rightarrow> encoding \<Rightarrow> any option \<Rightarrow> manager \<Rightarrow> manager \<times> result" where
  "compress_body ext pw pb enc body m =
     (case body of
        None \<Rightarrow> (m, (None, None))
      | Some a \<Rightarrow> Compress ext pw pb (convertEncoding enc) (Value a) m)"

definition server_encode :: "'p proto \<Rightarrow> pb_response \<Rightarrow> slice option \<Rightarrow> manager \<Rightarrow> gerror + bytes" where
  "server_encode px res v m =
     px_MarshalResponse px (res\<lparr>p_Body := with_value (map_option (read_slice m) v) (p_Body res)\<rparr>)"

definition server_Marshal ::
  "streams \<Rightarrow> 'p proto \<Rightarrow> nat option \<Rightarrow> nat option \<Rightarrow> pb_response \<Rightarrow> manager \<Rightarrow>
   manager \<times> (gerror + bytes)" where
  "server_Marshal ext px pw pb res m =
     (case compress_body ext pw pb (p_Encoding res) (p_Body res) m of
        (m', (v, Some e)) \<Rightarrow> (m', Inl e)
      | (m', (v, None)) \<Rightarrow> (m', server_encode px res v m'))"

definition client_encode :: "'p proto \<Rightarrow> request \<Rightarrow> slice option \<Rightarrow> manager \<Rightarrow> gerror + bytes" where
  "client_encode px req v m =
     px_MarshalRequest px (req\<lparr>q_Body := with_value (map_option (read_slice m) v) (q_Body req)\<rparr>)"

definition client_Marshal ::
  "streams \<Rightarrow> 'p proto \<Rightarrow> nat option \<Rightarrow> nat option \<Rightarrow> request \<Rightarrow> manager \<Rightarrow>
   manager \<times> (gerror + bytes)" where
  "client_Marshal ext px pw pb req m =
     (case compress_body ext pw pb (q_Encoding req) (q_Body req) m of
        (m', (v, Some e)) \<Rightarrow> (m', Inl e)
      | (m', (v, None)) \<Rightarrow> (m', client_encode px req v m'))"

text \<open>
  \<open>Unmarshal\<close> on both sides.  On an error the message is as far as it was filled, with the
  body still compressed.
\<close>

definition server_Unmarshal ::
  "streams \<Rightarrow> 'p proto \<Rightarrow> nat option \<Rightarrow> bytes \<Rightarrow> manager \<Rightarrow> manager \<times> request \<times> gerror option" where
  "server_Unmarshal ext px pick body m =
     (case px_UnmarshalRequest px body of
        (req, Some e) \<Rightarrow> (m, req, Some e)
      | (req, None) \<Rightarrow>
          (case q_Body req of
             None \<Rightarrow> (m, req, None)
           | Some a \<Rightarrow>
               if Value a = None then (m, req, None)
               else (case Decompress ext pick (convertEncoding (q_Encoding req)) (Value a) m of
                       (m', (v, Some e)) \<Rightarrow> (m', req, Some e)
                     | (m', (v, None)) \<Rightarrow>
                         (m', req\<lparr>q_Body := with_value (map_option (read_slice m') v) (q_Body req)\<rparr>,
                          None))))"

definition client_Unmarshal ::
  "streams \<Rightarrow> 'p proto \<Rightarrow> nat option \<Rightarrow> bytes \<Rightarrow> manager \<Rightarrow> manager \<times> pb_response \<times> gerror option" where
  "client_Unmarshal ext px pick body m =
     (case px_UnmarshalResponse px body of
        (res, Some e) \<Rightarrow> (m, res, Some e)
      | (res, None) \<Rightarrow>
          (case p_Body res of
             None \<Rightarrow> (m, res, None)
           | Some a \<Rightarrow>
               (case Decompress ext pick (convertEncoding (p_Encoding res)) (Value a) m of
                  (m', (v, Some e)) \<Rightarrow> (m', res, Some e)
                | (m', (v, None)) \<Rightarrow>
                    (m', res\<lparr>p_Body := with_value (map_option (read_slice m') v) (p_Body res)\<rparr>,
                     None))))"

section \<open>The codecs on values\<close>

text \<open>The body after compression, when it is read at once.\<close>

definition body_value :: "streams \<Rightarrow> encoding \<Rightarrow> any option \<Rightarrow> bytes option \<times> gerror option" where
  "body_value ext enc body =
     (case body of None \<Rightarrow> (None, None) | Some a \<Rightarrow> compress_value ext (convertEncoding enc) (Value a))"

lemma compress_body_spec:
  assumes "pool_ok m" and "lawful_streams ext" and "compress_body ext pw pb enc body m = (m', r)"
  shows "read_result m' r = body_value ext enc body" and "pool_ok m'"
  using assms Compress_spec [OF assms(1,2)]
  by (auto simp: compress_body_def body_value_def split: option.splits)

lemma with_value_simps [simp]:
  "with_value v None = None"
  "with_value v (Some a) = Some (a\<lparr>Value := v\<rparr>)"
  by (simp_all add: with_value_def)

lemma server_Marshal_value:
  assumes "pool_ok m" and "lawful_streams ext" and "server_Marshal ext px pw pb res m = (m', out)"
  shows "pool_ok m'"
    and "out = (case body_value ext (p_Encoding res) (p_Body res) of
      (v, Some e) \<Rightarrow> Inl e
    | (v, None) \<Rightarrow> px_MarshalResponse px (res\<lparr>p_Body := with_value v (p_Body res)\<rparr>))"
proof -
  obtain m1 v err where run: "compress_body ext pw pb (p_Encoding res) (p_Body res) m = (m1, (v, err))"
    by (metis surj_pair)
  note spec = compress_body_spec [OF assms(1,2) run]
  show "pool_ok m'" using assms(3) spec(2) run
    by (auto simp: server_Marshal_def split: option.splits)
  show "out = (case body_value ext (p_Encoding res) (p_Body res) of
      (v, Some e) \<Rightarrow> Inl e
    | (v, None) \<Rightarrow> px_MarshalResponse px (res\<lparr>p_Body := with_value v (p_Body res)\<rparr>))"
    using assms(3) run
    by (auto simp: server_Marshal_def server_encode_def spec(1) [symmetric] read_result_def split: option.splits)
qed

lemma client_Marshal_value:
  assumes "pool_ok m" and "lawful_streams ext" and "client_Marshal ext px pw pb req m = (m', out)"
  shows "pool_ok m'"
    and "out = (case body_value ext (q_Encoding req) (q_Body req) of
      (v, Some e) \<Rightarrow> Inl e
    | (v, None) \<Rightarrow> px_MarshalRequest px (req\<lparr>q_Body := with_value v (q_Body req)\<rparr>))"
proof -
  obtain m1 v err where run: "compress_body ext pw pb (q_Encoding req) (q_Body req) m = (m1, (v, err))"
    by (metis surj_pair)
  note spec = compress_body_spec [OF assms(1,2) run]
  show "pool_ok m'" using assms(3) spec(2) run
    by (auto simp: client_Marshal_def split: option.splits)
  show "out = (case body_value ext (q_Encoding req) (q_Body req) of
      (v, Some e) \<Rightarrow> Inl e
    | (v, None) \<Rightarrow> px_MarshalRequest px (req\<lparr>q_Body := with_value v (q_Body req)\<rparr>))"
    using assms(3) run
    by (auto simp: client_Marshal_def client_encode_def spec(1) [symmetric] read_result_def split: option.splits)
qed

text \<open>Decompression after the wire has turned an empty value into nil.\<close>

lemma compressed_not_empty:
  assumes "lawful_streams ext" and "compress_value ext tp d = (Some [], None)"
  shows "d = Some []"
  using assms
  by (auto simp: lawful_streams_def lawful_stream_def compress_value_def
      split: option.splits if_splits)

lemma norm_round_trip:
  assumes "lawful_streams ext" and "compress_value ext tp d = (r, None)"
  obtains d' where "decompress_value ext tp (norm_value r) = (d', None)" "norm_value d' = norm_value d"
proof (cases "r = Some []")
  case True
  with assms compressed_not_empty [of ext tp d] have "d = Some []" by simp
  with True show ?thesis by (intro that [of None]) (simp_all add: norm_value_def)
next
  case False
  then show ?thesis
    using that codec_values.comp_round_trip [OF assms] by (simp add: norm_value_def)
qed

definition value_of :: "any option \<Rightarrow> bytes option" where
  "value_of b = (case b of None \<Rightarrow> None | Some a \<Rightarrow> Value a)"

lemma value_of_simps [simp]: "value_of None = None" "value_of (Some a) = Value a"
  by (simp_all add: value_of_def)

lemma Decompress_nil: "Decompress ext pick tp None m = (m, (None, None))"
  by (simp add: Decompress_def)

lemma Decompress_value:
  assumes "decompress_value ext tp v = (d, None)"
  obtains m' s where "Decompress ext pick tp v m = (m', (s, None))" "map_option (read_slice m') s = d"
proof -
  obtain m' r where run: "Decompress ext pick tp v m = (m', r)" by (metis surj_pair)
  with Decompress_computes(1) [OF run] assms show ?thesis
    by (intro that [of m' "fst r"]) (auto simp: read_result_def prod_eq_iff)
qed

lemma server_Unmarshal_value:
  assumes "px_UnmarshalRequest px data = (req, None)"
    and "decompress_value ext (convertEncoding (q_Encoding req)) (value_of (q_Body req)) = (d, None)"
  shows "snd (server_Unmarshal ext px pick data m) = (req\<lparr>q_Body := with_value d (q_Body req)\<rparr>, None)"
proof (cases "q_Body req")
  case None
  then show ?thesis by (cases req) (simp add: server_Unmarshal_def assms(1))
next
  case (Some a)
  show ?thesis
  proof (cases "Value a = None")
    case True
    with assms(2) Some have "a\<lparr>Value := d\<rparr> = a" by (cases a) (simp add: decompress_value_def)
    with True Some assms(1) show ?thesis by (cases req) (simp add: server_Unmarshal_def)
  next
    case False
    from assms(2) Some have "decompress_value ext (convertEncoding (q_Encoding req)) (Value a) = (d, None)"
      by simp
    from Decompress_value [OF this] obtain m' s
      where "Decompress ext pick (convertEncoding (q_Encoding req)) (Value a) m = (m', (s, None))"
        "map_option (read_slice m') s = d" by metis
    with False Some assms(1) show ?thesis by (auto simp: server_Unmarshal_def)
  qed
qed

lemma client_Unmarshal_value:
  assumes "px_UnmarshalResponse px data = (res, None)"
    and "decompress_value ext (convertEncoding (p_Encoding res)) (value_of (p_Body res)) = (d, None)"
  shows "snd (client_Unmarshal ext px pick data m) = (res\<lparr>p_Body := with_value d (p_Body res)\<rparr>, None)"
proof (cases "p_Body res")
  case None
  then show ?thesis by (cases res) (simp add: client_Unmarshal_def assms(1))
next
  case (Some a)
  with assms(2) have "decompress_value ext (convertEncoding (p_Encoding res)) (Value a) = (d, None)"
    by simp
  from Decompress_value [OF this] obtain m' s
    where "Decompress ext pick (convertEncoding (p_Encoding res)) (Value a) m = (m', (s, None))"
      "map_option (read_slice m') s = d" by metis
  with Some assms(1) show ?thesis by (simp add: client_Unmarshal_def)
qed

text \<open>
  The message that crosses the wire: parsed as far as the envelope, decompressed, and up to nil
  and empty the one that was sent.
\<close>

lemma norm_body_with_value:
  "norm_body (with_value v b) = with_value (norm_value v) b"
  by (cases b) (simp_all add: norm_body_def)

lemma with_value_same:
  "with_value (norm_value (value_of b)) (with_value v b) = norm_body b"
  by (cases b) (simp_all add: norm_body_def)

lemma norm_metadata_idem [simp]: "norm_metadata (norm_metadata md) = norm_metadata md"
  by (simp add: norm_metadata_def)

lemma body_value_round_trip:
  assumes "lawful_streams ext" and "body_value ext enc body = (v, None)"
  obtains d where "decompress_value ext (convertEncoding enc) (value_of (norm_body (with_value v body))) = (d, None)"
    "norm_value d = norm_value (value_of body)"
proof (cases body)
  case None
  then show ?thesis by (intro that [of None]) (simp_all add: norm_body_def decompress_value_def)
next
  case (Some a)
  with assms(2) have "compress_value ext (convertEncoding enc) (Value a) = (v, None)"
    by (simp add: body_value_def)
  from norm_round_trip [OF assms(1) this] Some show ?thesis
    using that by (auto simp: norm_body_def)
qed

lemma norm_response_fields:
  "norm_response p = norm_response p' \<Longrightarrow>
   p_Id p = p_Id p' \<and> p_Status p = p_Status p' \<and> p_ErrorMessage p = p_ErrorMessage p'
 \<and> p_Encoding p = p_Encoding p'"
  by (metis (no_types, lifting) norm_response_def pb_response.surjective pb_response.update_convs(5,6)
      pb_response.ext_inject)

lemma pool_ok_with_reader: "pool_ok (with_reader pick m) = pool_ok m"
  by (simp add: pool_ok_def with_reader_frame buf_ok_frame [of "with_reader pick m" m])

lemma Decompress_pool_ok: "pool_ok m \<Longrightarrow> Decompress ext pick tp v m = (m', r) \<Longrightarrow> pool_ok m'"
  using Decompress_computes(2) [of ext pick tp v m m' r] by (auto simp: pool_ok_with_reader)

lemma server_Unmarshal_pool_ok:
  "pool_ok m \<Longrightarrow> server_Unmarshal ext px pick body m = (m', req, err) \<Longrightarrow> pool_ok m'"
  by (auto simp: server_Unmarshal_def split: prod.splits option.splits if_splits dest: Decompress_pool_ok)

lemma client_Unmarshal_pool_ok:
  "pool_ok m \<Longrightarrow> client_Unmarshal ext px pick body m = (m', rsp, err) \<Longrightarrow> pool_ok m'"
  by (auto simp: client_Unmarshal_def split: prod.splits option.splits if_splits dest: Decompress_pool_ok)

lemma request_round_trip_lemma:
  assumes "pool_ok m" and "lawful_streams ext" and "lawful_proto px"
    and "client_Marshal ext px pw pb req m = (m1, Inr data)"
    and "server_Unmarshal ext px pick data m2 = (m3, req', err)"
  shows "err = None \<and> norm_request req' = norm_request req"
proof -
  from client_Marshal_value(2) [OF assms(1,2,4)] obtain v
    where v: "body_value ext (q_Encoding req) (q_Body req) = (v, None)"
    and data: "px_MarshalRequest px (req\<lparr>q_Body := with_value v (q_Body req)\<rparr>) = Inr data"
    by (auto split: prod.splits option.splits)
  let ?wire = "norm_request (req\<lparr>q_Body := with_value v (q_Body req)\<rparr>)"
  have "px_UnmarshalRequest px data = (?wire, None)"
    using assms(3) data by (simp add: lawful_proto_def)
  moreover from body_value_round_trip [OF assms(2) v] obtain d
    where d: "decompress_value ext (convertEncoding (q_Encoding ?wire)) (value_of (q_Body ?wire)) = (d, None)"
      "norm_value d = norm_value (value_of (q_Body req))"
    by (auto simp: norm_request_def)
  ultimately have "req' = ?wire\<lparr>q_Body := with_value d (q_Body ?wire)\<rparr> \<and> err = None"
    using server_Unmarshal_value [of px data ?wire ext d pick m2] assms(5) by simp
  with d(2) show ?thesis
    by (simp add: norm_request_def norm_body_with_value with_value_same)
qed

text \<open>
  C31. A request that the client serialises is parsed by the server to the same request, for every
  encoding, on whatever state the two managers are in; only nil and empty may be confused.
\<close>

theorem request_round_trip:
  assumes "pool_ok m" and "lawful_streams ext" and "lawful_proto px"
    and "client_Marshal ext px pw pb req m = (m1, Inr data)"
    and "server_Unmarshal ext px pick data m2 = (m3, req', err)"
  shows "err = None \<and> norm_request req' = norm_request req"
  using assms by (rule request_round_trip_lemma)

lemma response_round_trip_lemma:
  assumes "pool_ok m" and "lawful_streams ext" and "lawful_proto px"
    and "server_Marshal ext px pw pb res m = (m1, Inr data)"
    and "client_Unmarshal ext px pick data m2 = (m3, res', err)"
  shows "err = None \<and> norm_response res' = norm_response res"
proof -
  from server_Marshal_value(2) [OF assms(1,2,4)] obtain v
    where v: "body_value ext (p_Encoding res) (p_Body res) = (v, None)"
    and data: "px_MarshalResponse px (res\<lparr>p_Body := with_value v (p_Body res)\<rparr>) = Inr data"
    by (auto split: prod.splits option.splits)
  let ?wire = "norm_response (res\<lparr>p_Body := with_value v (p_Body res)\<rparr>)"
  have "px_UnmarshalResponse px data = (?wire, None)"
    using assms(3) data by (simp add: lawful_proto_def)
  moreover from body_value_round_trip [OF assms(2) v] obtain d
    where d: "decompress_value ext (convertEncoding (p_Encoding ?wire)) (value_of (p_Body ?wire)) = (d, None)"
      "norm_value d = norm_value (value_of (p_Body res))"
    by (auto simp: norm_response_def)
  ultimately have "res' = ?wire\<lparr>p_Body := with_value d (p_Body ?wire)\<rparr> \<and> err = None"
    using client_Unmarshal_value [of px data ?wire ext d pick m2] assms(5) by simp
  with d(2) show ?thesis
    by (simp add: norm_response_def norm_body_with_value with_value_same)
qed

text \<open>
  C32. The same for a response from the server to the client.
\<close>

theorem response_round_trip:
  assumes "pool_ok m" and "lawful_streams ext" and "lawful_proto px"
    and "server_Marshal ext px pw pb res m = (m1, Inr data)"
    and "client_Unmarshal ext px pick data m2 = (m3, res', err)"
  shows "err = None \<and> norm_response res' = norm_response res"
  using assms by (rule response_round_trip_lemma)

text \<open>
  Two marshals that share a codec can come between each other: when the second compression
  takes the buffer that the first one returned a view of, and its output has the same length,
  the first message is serialised with the body of the second.
\<close>

lemma interleaved_Marshal_swaps_bodies:
  assumes "pool_ok m" and "lawful_streams ext"
    and "p_Body r1 = Some a" and "Value a = Some d"
    and "compress_body ext pw pb (p_Encoding r1) (p_Body r1) m = (m1, (Some (View arr n), None))"
    and "compress_body ext pw' (Some (length (bufferPool m1) - 1)) (p_Encoding r2) (p_Body r2) m1 = (m2, out)"
    and "body_value ext (p_Encoding r2) (p_Body r2) = (Some c, None)"
    and "convertEncoding (p_Encoding r2) \<noteq> ContentEncodingPlain" and "length c = n"
  shows "server_encode px r1 (Some (View arr n)) m2 =
    px_MarshalResponse px (r1\<lparr>p_Body := with_value (Some c) (p_Body r1)\<rparr>)"
proof -
  let ?e1 = "convertEncoding (p_Encoding r1)" and ?e2 = "convertEncoding (p_Encoding r2)"
  have first: "Compress ext pw pb ?e1 (Some d) m = (m1, (Some (View arr n), None))"
    using assms(3-5) by (simp add: compress_body_def)
  from assms(7) obtain a2 d2 where r2: "p_Body r2 = Some a2" "Value a2 = Some d2"
    by (cases "p_Body r2"; cases "value_of (p_Body r2)")
      (auto simp: body_value_def compress_value_def)
  have second: "Compress ext pw' (Some (length (bufferPool m1) - 1)) ?e2 (Some d2) m1 = (m2, out)"
    using assms(6) r2 by (simp add: compress_body_def)
  have c: "compress_value ext ?e2 (Some d2) = (Some c, None)"
    using assms(7) r2 by (simp add: body_value_def)
  have enc: "?e2 \<in> {0, 1, 2}"
    using convertEncoding_known [of "p_Encoding r2"] assms(8) by (auto simp: encoding_defs)
  from Compress_view [OF assms(1,2) first] have "n \<le> length (arrays m1 arr)" by metis
  with view_overwritten [OF assms(1,2) first second c enc] assms(9)
  have "read_slice m2 (View arr n) = c" by simp
  then show ?thesis by (simp add: server_encode_def)
qed

section \<open>A concrete runtime\<close>

text \<open>
  A runtime that knows two tables of envelopes and writes a message as its place in the table,
  and whose application messages are typed byte strings; messages of one type do not serialise.
\<close>

fun place :: "'a \<Rightarrow> 'a list \<Rightarrow> nat option" where
  "place x [] = None"
| "place x (y # ys) = (if x = y then Some 0 else map_option Suc (place x ys))"

definition at_place :: "('a \<Rightarrow> 'a) \<Rightarrow> 'a \<Rightarrow> 'a list \<Rightarrow> bytes \<Rightarrow> 'a \<times> gerror option" where
  "at_place f x xs bs =
     (case bs of
        [] \<Rightarrow> (x, None)
      | b # _ \<Rightarrow> if unat b < length xs then (f (xs ! unat b), None)
                 else (x, Some (ExtErr ''proto: cannot parse'')))"

definition write_place :: "'a \<Rightarrow> 'a list \<Rightarrow> gerror + bytes" where
  "write_place x xs =
     (case place x xs of None \<Rightarrow> Inl (ExtErr ''proto: not in the table'') | Some i \<Rightarrow> Inr [of_nat i])"

definition table_proto :: "request list \<Rightarrow> pb_response list \<Rightarrow> (string \<times> bytes) proto" where
  "table_proto qs ps =
     \<lparr>px_MarshalRequest = (\<lambda>q. write_place q qs),
      px_UnmarshalRequest = at_place norm_request empty_request qs,
      px_MarshalResponse = (\<lambda>p. write_place p ps),
      px_UnmarshalResponse = at_place norm_response empty_response ps,
      px_MarshalMsg = (\<lambda>(t, b). if t = ''*bad.Message'' then Inl (ExtErr ''proto: bad'') else Inr b),
      px_UnmarshalMsg = (\<lambda>t v. Inr (t, case v of None \<Rightarrow> [] | Some b \<Rightarrow> b)),
      px_TypeOf = fst,
      px_Empty = (''*emptypb.Empty'', [])\<rparr>"

lemma place_Some: "place x xs = Some i \<Longrightarrow> i < length xs \<and> xs ! i = x"
  by (induction xs arbitrary: i) (auto split: if_splits)

lemma at_write_place:
  "length xs < 256 \<Longrightarrow> write_place x xs = Inr b \<Longrightarrow> at_place f y xs b = (f x, None)"
  using place_Some [of x xs]
  by (auto simp: write_place_def at_place_def unat_of_nat split: option.splits)

lemma table_lawful:
  "length qs < 256 \<Longrightarrow> length ps < 256 \<Longrightarrow> lawful_proto (table_proto qs ps)"
  by (auto simp: lawful_proto_def table_proto_def at_write_place) (simp add: at_place_def)

lemma table_messages: "lawful_messages (table_proto qs ps)"
  by (auto simp: lawful_messages_def table_proto_def norm_value_def split: if_splits)

definition hello_any :: "bytes \<Rightarrow> any" where
  "hello_any v = \<lparr>TypeUrl = ''*test.Hello'', Value = Some v\<rparr>"

definition hello_request :: "bytes \<Rightarrow> request" where
  "hello_request v =
     \<lparr>q_Id = 3, q_Method = ''hello'', q_Encoding = 1, q_Metadata = None, q_Body = Some (hello_any v)\<rparr>"

definition hello_response :: "64 word \<Rightarrow> bytes \<Rightarrow> pb_response" where
  "hello_response i v =
     \<lparr>p_Id = i, p_Status = 200, p_ErrorMessage = [], p_Encoding = 1, p_Metadata = None,
      p_Body = Some (hello_any v)\<rparr>"

definition hello_proto :: "(string \<times> bytes) proto" where
  "hello_proto = table_proto [hello_request [1, 5, 6, 9]]
     [hello_response 3 [1, 5, 6, 9], hello_response 3 [1, 7, 8, 9]]"

lemma hello_lawful: "lawful_proto hello_proto"
  by (simp add: hello_proto_def table_lawful)

lemma hello_convert: "convertEncoding 1 = 0"
  by (simp add: convertEncoding_def pb_encoding_defs encoding_defs)

lemma hello_compress:
  "compress_body framing None None 1 (Some (hello_any [5, 6])) NewCompressorManager =
     (framing_manager [1, 5, 6, 9, 0, 0, 0], (Some (View 0 4), None))"
  by (simp add: compress_body_def hello_convert hello_any_def framing_first)

lemma hello_compress_again:
  "compress_body framing (Some 0) (Some 0) 1 (Some (hello_any [7, 8])) (framing_manager [1, 5, 6, 9, 0, 0, 0]) =
     (framing_manager [1, 7, 8, 9, 0, 0, 0], (Some (View 0 4), None))"
  by (simp add: compress_body_def hello_convert hello_any_def framing_second)

lemma hello_views:
  "read_slice (framing_manager [1, x, y, 9, 0, 0, 0]) (View 0 4) = [1, x, y, 9]"
  by (simp add: framing_manager_def numeral_eq_Suc)

lemma hello_fields [simp]:
  "q_Encoding (hello_request v) = 1" "q_Body (hello_request v) = Some (hello_any v)"
  "p_Encoding (hello_response i v) = 1" "p_Body (hello_response i v) = Some (hello_any v)"
  "Value (hello_any v) = Some v"
  by (simp_all add: hello_request_def hello_response_def hello_any_def)

lemma hello_with_body [simp]:
  "(hello_request v)\<lparr>q_Body := Some ((hello_any v)\<lparr>Value := Some w\<rparr>)\<rparr> = hello_request w"
  "(hello_response i v)\<lparr>p_Body := Some ((hello_any v)\<lparr>Value := Some w\<rparr>)\<rparr> = hello_response i w"
  by (simp_all add: hello_request_def hello_response_def hello_any_def)

lemma hello_written:
  "px_MarshalRequest hello_proto (hello_request [1, 5, 6, 9]) = Inr [0]"
  "px_MarshalResponse hello_proto (hello_response 3 [1, 5, 6, 9]) = Inr [0]"
  "px_MarshalResponse hello_proto (hello_response 3 [1, 7, 8, 9]) = Inr [1]"
  by (simp_all add: hello_proto_def table_proto_def write_place_def hello_response_def hello_any_def)

lemma hello_client_Marshal:
  "client_Marshal framing hello_proto None None (hello_request [5, 6]) NewCompressorManager =
     (framing_manager [1, 5, 6, 9, 0, 0, 0], Inr [0])"
  by (simp add: client_Marshal_def hello_compress client_encode_def hello_views hello_written
      del: read_slice.simps)

lemma hello_server_Marshal:
  "server_Marshal framing hello_proto None None (hello_response 3 [5, 6]) NewCompressorManager =
     (framing_manager [1, 5, 6, 9, 0, 0, 0], Inr [0])"
  by (simp add: server_Marshal_def hello_compress server_encode_def hello_views hello_written
      del: read_slice.simps)

theorem request_round_trip_witness:
  "case server_Unmarshal framing hello_proto None [0] NewCompressorManager of
     (m', req', err) \<Rightarrow> err = None \<and> norm_request req' = norm_request (hello_request [5, 6])"
  using request_round_trip [OF pool_ok_new framing_lawful hello_lawful hello_client_Marshal]
  by (auto split: prod.split)

theorem response_round_trip_witness:
  "case client_Unmarshal framing hello_proto None [0] NewCompressorManager of
     (m', res', err) \<Rightarrow> err = None \<and> norm_response res' = norm_response (hello_response 3 [5, 6])"
  using response_round_trip [OF pool_ok_new framing_lawful hello_lawful hello_server_Marshal]
  by (auto split: prod.split)

text \<open>The response with body 5, 6 is serialised with body 7, 8.\<close>

lemma interleaved_Marshal_swaps_bodies_witness:
  "server_encode hello_proto (hello_response 3 [5, 6]) (Some (View 0 4)) (framing_manager [1, 5, 6, 9, 0, 0, 0])
     = px_MarshalResponse hello_proto (hello_response 3 [1, 5, 6, 9])
 \<and> server_encode hello_proto (hello_response 3 [5, 6]) (Some (View 0 4)) (framing_manager [1, 7, 8, 9, 0, 0, 0])
     = px_MarshalResponse hello_proto (hello_response 3 [1, 7, 8, 9])"
proof
  show "server_encode hello_proto (hello_response 3 [5, 6]) (Some (View 0 4)) (framing_manager [1, 5, 6, 9, 0, 0, 0])
     = px_MarshalResponse hello_proto (hello_response 3 [1, 5, 6, 9])"
    by (simp add: server_encode_def hello_views del: read_slice.simps)
  have pick: "length (bufferPool (framing_manager xs)) = 1" for xs
    by (simp add: framing_manager_def)
  have "server_encode hello_proto (hello_response 3 [5, 6]) (Some (View 0 4)) (framing_manager [1, 7, 8, 9, 0, 0, 0])
     = px_MarshalResponse hello_proto ((hello_response 3 [5, 6])\<lparr>p_Body :=
          with_value (Some [1, 7, 8, 9]) (p_Body (hello_response 3 [5, 6]))\<rparr>)"
    by (rule interleaved_Marshal_swaps_bodies [OF pool_ok_new framing_lawful, where a = "hello_any [5, 6]"
          and d = "[5, 6]" and ?r2.0 = "hello_response 4 [7, 8]" and pw = None and pb = None and pw' = "Some 0"
          and ?m1.0 = "framing_manager [1, 5, 6, 9, 0, 0, 0]" and out = "(Some (View 0 4), None)"])
      (simp_all add: hello_compress hello_compress_again pick [of "[1, 5, 6, 9, 0, 0, 0]"] body_value_def hello_convert
        framing_value encoding_defs)
  then show "server_encode hello_proto (hello_response 3 [5, 6]) (Some (View 0 4)) (framing_manager [1, 7, 8, 9, 0, 0, 0])
     = px_MarshalResponse hello_proto (hello_response 3 [1, 7, 8, 9])"
    by simp
qed

end
