(* ===== verification/Broker.thy ===== *)
theory Broker
  imports Prelude
begin

text \<open>
  What servers and clients exchange with the broker through \<open>mqttadapter\<close>: messages, and the
  calls that they make on an adapter when they are set up or closed.
\<close>

record message =
  m_Topic :: string
  m_QoS :: byte
  m_Retained :: bool
  m_Payload :: bytes

text \<open>
  Calls on the adapter other than publishing.  A callback for connections is named by what it
  subscribes to.
\<close>

datatype adapter_call =
    CallEnsureConnected
  | CallOnConnect string byte
  | CallSubscribe string byte
  | CallUnsubscribe string
  | CallDisconnect

end
