(* ===== verification/Pb_Server.thy ===== *)
theory Pb_Server
  imports Server_Core Topics Pb_Codec Broker
begin

text \<open>
  The protobuf server (\<open>mqttpb/server.go\<close>, \<open>mqttpb/context.go\<close>): how a message of the
  request topic becomes a call of the embedded server, and how a response becomes a message.
  \<open>MQTTContext\<close> is the \<open>ChildContext\<close> of this transport; its contract is the locale of
  the request context, interpreted here.

  The world of a server is the state of its codec's compressor and what it has published.  Which
  objects the pools hand out is chosen by an arbitrary function of the number of calls so far.
\<close>

section \<open>Values, requests and responses\<close>

text \<open>A value of a response: a protobuf message, or anything else.\<close>

datatype ('p, 'o) pb_value = ProtoMessage 'p | OtherValue 'o

record 'p pb_env =
  pe_streams :: streams
  pe_proto :: "'p proto"

record pb_world =
  w_manager :: manager
  w_published :: "message list"
  w_picks :: "nat \<Rightarrow> nat option \<times> nat option"
  w_calls :: nat

record request_data =
  rd_Topic :: string
  rd_Request :: request

record response_data =
  rs_Topic :: string
  rs_Response :: pb_response

definition GetReplyTopic :: "request_data \<Rightarrow> string" where
  "GetReplyTopic r = strings_Replace request_word response_word 1 (rd_Topic r)"

definition RequestData_GetResponse :: "request_data \<Rightarrow> response_data" where
  "RequestData_GetResponse r =
     \<lparr>rs_Topic = GetReplyTopic r,
      rs_Response = empty_response\<lparr>p_Id := q_Id (rd_Request r), p_Encoding := q_Encoding (rd_Request r)\<rparr>\<rparr>"

definition MakeOKResponse :: "'p proto \<Rightarrow> request_data \<Rightarrow> 'p \<Rightarrow> response_data option" where
  "MakeOKResponse px r data =
     (let rsp = RequestData_GetResponse r
      in case px_MarshalMsg px data of
           Inl e \<Rightarrow> None
         | Inr d \<Rightarrow>
             Some (rsp\<lparr>rs_Response := (rs_Response rsp)
               \<lparr>p_Status := word_of_int RPCStatusOK,
                p_Body := Some \<lparr>TypeUrl = px_TypeOf px data, Value = Some d\<rparr>\<rparr>\<rparr>))"

definition MakeErrResponse :: "request_data \<Rightarrow> int \<Rightarrow> gerror \<Rightarrow> response_data" where
  "MakeErrResponse r status err =
     (let rsp = RequestData_GetResponse r
      in rsp\<lparr>rs_Response := (rs_Response rsp)
           \<lparr>p_Status := word_of_int status, p_ErrorMessage := error_text err\<rparr>\<rparr>)"

section \<open>The server\<close>

record ('w, 'v, 'x, 'u) pb_server =
  ps_Server :: "('w, 'v, 'x, 'u) server"
  ps_subscribeTopic :: string

text \<open>
  A new server and the calls it makes on its adapter; on each connection it subscribes to its
  topic.
\<close>

definition pb_NewServer ::
  "string \<Rightarrow> int \<Rightarrow> string \<Rightarrow> string \<Rightarrow> server_option list \<Rightarrow>
   ('w, 'v, 'x, 'u) pb_server \<times> adapter_call list" where
  "pb_NewServer uuid numCPU pfx deviceId opts =
     (let topic = path_Join [pfx, deviceId, ''request/+'']
      in (\<lparr>ps_Server = NewServer uuid numCPU opts, ps_subscribeTopic = topic\<rparr>,
          [CallEnsureConnected, CallOnConnect topic DefaultQoS]))"

definition pb_IsConnected :: "bool \<Rightarrow> bool" where
  "pb_IsConnected adapter_connected = adapter_connected"

definition pb_Close :: "adapter_call list \<times> gerror option" where
  "pb_Close = ([CallDisconnect], None)"

text \<open>
  \<open>reply\<close>: the status of a nil response is read; a response that does not serialise is
  dropped with an error.
\<close>

definition pb_reply ::
  "'p pb_env \<Rightarrow> response_data option \<Rightarrow> pb_world \<Rightarrow> pb_world \<times> gerror option outcome" where
  "pb_reply env rsp w =
     (case rsp of
        None \<Rightarrow> (w, Panic nil_deref)
      | Some rs \<Rightarrow>
          (case server_Marshal (pe_streams env) (pe_proto env) (fst (w_picks w (w_calls w)))
                  (snd (w_picks w (w_calls w))) (rs_Response rs) (w_manager w) of
             (m', Inl e) \<Rightarrow> (w\<lparr>w_manager := m', w_calls := Suc (w_calls w)\<rparr>, Ret (Some e))
           | (m', Inr data) \<Rightarrow>
               (w\<lparr>w_manager := m', w_calls := Suc (w_calls w),
                  w_published := w_published w @
                    [\<lparr>m_Topic = rs_Topic rs, m_QoS = DefaultQoS, m_Retained = False, m_Payload = data\<rparr>]\<rparr>,
                Ret None)))"

section \<open>The context of a request\<close>

text \<open>
  Tracing metadata is extracted by the propagator of OpenTelemetry, an argument; without metadata
  the context is the background context.
\<close>

definition NewMQTTContext_ctx :: "(('k \<rightharpoonup> 'k) \<Rightarrow> 'x) \<Rightarrow> 'x \<Rightarrow> ('k \<rightharpoonup> 'k) option \<Rightarrow> 'x" where
  "NewMQTTContext_ctx extract background md =
     (case md of None \<Rightarrow> background | Some kv \<Rightarrow> extract kv)"

definition pb_Metadata :: "request_data \<Rightarrow> metadata" where
  "pb_Metadata r = q_Metadata (rd_Request r)"

definition pb_Encoding :: "request_data \<Rightarrow> encoding" where
  "pb_Encoding r = q_Encoding (rd_Request r)"

text \<open>
  \<open>Bind\<close>: the target must be a protobuf message, and its Go type the one that the body
  names; a request without a body is dereferenced.
\<close>

definition pb_Bind ::
  "'p proto \<Rightarrow> request_data \<Rightarrow> go_type \<Rightarrow> (gerror + ('p, 'o) pb_value) outcome" where
  "pb_Bind px r target =
     (if \<not> is_proto target then Ret (Inl ErrRequestNotProto)
      else case q_Body (rd_Request r) of
             None \<Rightarrow> Panic nil_deref
           | Some body \<Rightarrow>
               if type_string target \<noteq> TypeUrl body
               then Ret (Inl (Errorf (''[RRPC] type '' @ type_string target @ '' is not found'')))
               else Ret (case px_UnmarshalMsg px (type_string target) (Value body) of
                           Inl e \<Rightarrow> Inl e
                         | Inr msg \<Rightarrow> Inr (ProtoMessage msg)))"

text \<open>
  The response that \<open>Reply\<close> makes of what it is given: an error response, or an OK response
  with the message, the empty one when the result is not a protobuf message.
\<close>

definition pb_response_for ::
  "'p proto \<Rightarrow> request_data \<Rightarrow> ('p, 'o) pb_value response \<Rightarrow> response_data option" where
  "pb_response_for px r x =
     (case r_error x of
        Some e \<Rightarrow> Some (MakeErrResponse r (r_status x) e)
      | None \<Rightarrow>
          (case r_result x of
             Some (ProtoMessage msg) \<Rightarrow> MakeOKResponse px r msg
           | _ \<Rightarrow> MakeOKResponse px r (px_Empty px)))"

definition pb_Reply ::
  "'p pb_env \<Rightarrow> request_data \<Rightarrow> pb_world \<Rightarrow> ('p, 'o) pb_value response option \<Rightarrow>
   pb_world \<times> bool outcome" where
  "pb_Reply env r w rsp =
     (case rsp of
        None \<Rightarrow> (w, Panic nil_deref)
      | Some x \<Rightarrow>
          (case pb_reply env (pb_response_for (pe_proto env) r x) w of
             (w', Ret err) \<Rightarrow> (w', Ret True)
           | (w', Panic m) \<Rightarrow> (w', Panic m)))"

text \<open>The methods of \<open>MQTTContext\<close>.\<close>

definition pb_child ::
  "'p pb_env \<Rightarrow> 'x \<Rightarrow> request_data \<Rightarrow> (pb_world, ('p, 'o) pb_value, 'x) child" where
  "pb_child env ctx r =
     \<lparr>c_ID = \<lparr>id_Num = q_Id (rd_Request r), id_Str = []\<rparr>,
      c_Method = q_Method (rd_Request r),
      c_Ctx = Some ctx,
      c_Reply = pb_Reply env r,
      c_ReplyDesc = GetReplyTopic r,
      c_Bind = pb_Bind (pe_proto env) r\<rparr>"

section \<open>Receiving\<close>

text \<open>
  The callback of the subscription: a retained message and one that does not parse are answered
  with status 400, any other starts a call with a new context.
\<close>

definition pb_receive ::
  "'p pb_env \<Rightarrow> ((string \<rightharpoonup> string) \<Rightarrow> 'x) \<Rightarrow> 'x \<Rightarrow> message \<Rightarrow> pb_world \<Rightarrow>
   pb_world \<times> (pb_world, ('p, 'o) pb_value, 'x) child option" where
  "pb_receive env extract background m w =
     (let r0 = \<lparr>rd_Topic = m_Topic m, rd_Request = empty_request\<rparr>
      in if m_Retained m
         then (fst (pb_reply env (Some (MakeErrResponse r0 400 ErrRetailedMessage)) w), None)
         else (case server_Unmarshal (pe_streams env) (pe_proto env) (fst (w_picks w (w_calls w)))
                      (m_Payload m) (w_manager w) of
                 (m', req, err) \<Rightarrow>
                   (let r = r0\<lparr>rd_Request := req\<rparr>;
                        w' = w\<lparr>w_manager := m', w_calls := Suc (w_calls w)\<rparr>
                    in case err of
                         Some e \<Rightarrow> (fst (pb_reply env (Some (MakeErrResponse r 400 e)) w'), None)
                       | None \<Rightarrow>
                           (w', Some (pb_child env
                                  (NewMQTTContext_ctx extract background (q_Metadata req)) r)))))"

text \<open>\<open>initReceive\<close> subscribes the callback to the server's topic.\<close>

definition pb_initReceive :: "('w, 'v, 'x, 'u) pb_server \<Rightarrow> adapter_call list \<times> gerror option" where
  "pb_initReceive s = ([CallSubscribe (ps_subscribeTopic s) DefaultQoS], None)"

section \<open>The contract of the transport\<close>

lemma pb_reply_publishes:
  "pb_reply env rsp w = (w', out) \<Longrightarrow>
   w_published w' = w_published w \<or>
   (\<exists>rs data. rsp = Some rs \<and> w_published w' = w_published w @
      [\<lparr>m_Topic = rs_Topic rs, m_QoS = DefaultQoS, m_Retained = False, m_Payload = data\<rparr>])"
  by (auto simp: pb_reply_def split: option.splits prod.splits sum.splits)

lemma pb_reply_returns: "rsp \<noteq> None \<Longrightarrow> \<exists>err. snd (pb_reply env rsp w) = Ret err"
  by (auto simp: pb_reply_def split: prod.splits sum.splits)

lemma response_topic:
  "rs_Topic (RequestData_GetResponse r) = GetReplyTopic r"
  "rs_Topic (MakeErrResponse r status e) = GetReplyTopic r"
  "MakeOKResponse px r data = Some rs \<Longrightarrow> rs_Topic rs = GetReplyTopic r"
  "pb_response_for px r x = Some rs \<Longrightarrow> rs_Topic rs = GetReplyTopic r"
  by (auto simp: RequestData_GetResponse_def MakeErrResponse_def MakeOKResponse_def
      pb_response_for_def Let_def split: sum.splits option.splits pb_value.splits)

interpretation pb_context: child_context "pb_child env ctx r" w_published m_Topic for env ctx r
proof unfold_locales
  fix w rsp w' out
  assume "c_Reply (pb_child env ctx r) w rsp = (w', out)"
  then show "w_published w' = w_published w \<or>
      (\<exists>m. w_published w' = w_published w @ [m] \<and> m_Topic m = c_ReplyDesc (pb_child env ctx r))"
    by (fastforce simp: pb_child_def pb_Reply_def response_topic
        split: option.splits prod.splits outcome.splits dest: pb_reply_publishes)
next
  fix x :: "('a, 'd) pb_value response" and e w
  assume "r_error x = Some e"
  then show "snd (c_Reply (pb_child env ctx r) w (Some x)) = Ret True"
    using pb_reply_returns [of "Some (MakeErrResponse r (r_status x) e)" env w]
    by (auto simp: pb_child_def pb_Reply_def pb_response_for_def split: prod.splits outcome.splits)
qed

section \<open>What a client reads\<close>

text \<open>
  The environment of the properties: lawful streams and a lawful protobuf runtime.  The manager of
  a server stays well formed.
\<close>

definition pb_env_ok :: "'p pb_env \<Rightarrow> bool" where
  "pb_env_ok env \<longleftrightarrow> lawful_streams (pe_streams env) \<and> lawful_proto (pe_proto env)"

lemma pb_reply_pool_ok:
  assumes "pool_ok (w_manager w)" and "lawful_streams (pe_streams env)"
    and "pb_reply env rsp w = (w', out)"
  shows "pool_ok (w_manager w')"
  using assms server_Marshal_value(1) [OF assms(1,2)]
  by (auto simp: pb_reply_def split: option.splits prod.splits sum.splits)

lemma pb_reply_message:
  assumes "pool_ok (w_manager w)" and "pb_env_ok env"
    and "pb_reply env (Some rs) w = (w', out)"
    and "w_published w' = w_published w @ [msg]"
    and "client_Unmarshal (pe_streams env) (pe_proto env) pick (m_Payload msg) mgr = (mgr', got, err)"
  shows "m_Topic msg = rs_Topic rs \<and> \<not> m_Retained msg \<and> err = None
    \<and> norm_response got = norm_response (rs_Response rs)"
proof -
  let ?pw = "fst (w_picks w (w_calls w))" and ?pb = "snd (w_picks w (w_calls w))"
  from assms(3,4) obtain m' data where
    marshal: "server_Marshal (pe_streams env) (pe_proto env) ?pw ?pb (rs_Response rs) (w_manager w) = (m', Inr data)"
    and msg: "msg = \<lparr>m_Topic = rs_Topic rs, m_QoS = DefaultQoS, m_Retained = False, m_Payload = data\<rparr>"
    by (auto simp: pb_reply_def split: prod.splits sum.splits)
  have "err = None \<and> norm_response got = norm_response (rs_Response rs)"
    using response_round_trip_lemma [OF assms(1) _ _ marshal] assms(2,5) msg by (auto simp: pb_env_ok_def)
  then show ?thesis by (simp add: msg)
qed

text \<open>
  Whatever a handler replies, the one message that the reply publishes goes to the reply topic
  of its request, is not retained, and is read by a client as the response that was made of the
  reply.
\<close>

lemma published_reply_decodes:
  assumes "pool_ok (w_manager w)" and "pb_env_ok env"
    and "c_Reply (pb_child env ctx r) w (Some x) = (w', out)"
    and "w_published w' = w_published w @ [msg]"
    and "client_Unmarshal (pe_streams env) (pe_proto env) pick (m_Payload msg) mgr = (mgr', got, err)"
  shows "\<exists>rs. pb_response_for (pe_proto env) r x = Some rs \<and> m_Topic msg = GetReplyTopic r
    \<and> \<not> m_Retained msg \<and> err = None \<and> norm_response got = norm_response (rs_Response rs)"
proof -
  from assms(3,4) obtain rs out' where rs: "pb_response_for (pe_proto env) r x = Some rs"
    and reply: "pb_reply env (Some rs) w = (w', out')"
    by (cases "pb_response_for (pe_proto env) r x")
      (auto simp: pb_child_def pb_Reply_def pb_reply_def split: prod.splits outcome.splits)
  from pb_reply_message [OF assms(1,2) reply assms(4,5)] rs response_topic(4) [OF rs] show ?thesis
    by simp
qed

text \<open>A message that starts no call is answered with an error response of status 400.\<close>

lemma refused_receive:
  assumes "pool_ok (w_manager w)" and "pb_receive env extract background m w = (w', None)"
  obtains r e w1 out where "rd_Topic r = m_Topic m" "m_Retained m \<longrightarrow> e = ErrRetailedMessage"
    "pool_ok (w_manager w1)" "w_published w1 = w_published w"
    "pb_reply env (Some (MakeErrResponse r 400 e)) w1 = (w', out)"
proof (cases "m_Retained m")
  case True
  with assms(2) that [of "\<lparr>rd_Topic = m_Topic m, rd_Request = empty_request\<rparr>" ErrRetailedMessage w]
    assms(1) show ?thesis
    by (auto simp: pb_receive_def Let_def prod_eq_iff)
next
  case False
  obtain m' req err where run: "server_Unmarshal (pe_streams env) (pe_proto env)
      (fst (w_picks w (w_calls w))) (m_Payload m) (w_manager w) = (m', req, err)"
    by (metis surj_pair)
  with False assms(2) obtain e where e: "err = Some e" by (cases err) (auto simp: pb_receive_def Let_def)
  let ?r = "\<lparr>rd_Topic = m_Topic m, rd_Request = req\<rparr>"
  let ?w1 = "w\<lparr>w_manager := m', w_calls := Suc (w_calls w)\<rparr>"
  have "w' = fst (pb_reply env (Some (MakeErrResponse ?r 400 e)) ?w1)"
    using False run e assms(2) by (simp add: pb_receive_def Let_def)
  then have "pb_reply env (Some (MakeErrResponse ?r 400 e)) ?w1 =
      (w', snd (pb_reply env (Some (MakeErrResponse ?r 400 e)) ?w1))" by simp
  moreover have "pool_ok m'" using server_Unmarshal_pool_ok [OF assms(1) run] .
  ultimately show ?thesis using False by (intro that [of ?r e ?w1]) simp_all
qed


text \<open>
  A request never gets two answers: whatever the handler does and however the goroutines of
  its call interleave, the call publishes nothing or one message, on the request's reply topic.
\<close>

lemma pb_call_publishes_at_most_one:
  assumes "call_run srv (pb_child env ctx r) elapsed sched
      (call_start srv (pb_child env ctx r) allow wait w) = Some st"
  shows "w_published (world (sh st)) = w_published w \<or>
    (\<exists>msg. w_published (world (sh st)) = w_published w @ [msg] \<and> m_Topic msg = GetReplyTopic r)"
  using pb_context.call_publishes [OF assms] by (simp add: pb_child_def)

text \<open>
  C36. A message that does not serialise loses the answer: the handler replies with it, the reply
  panics in the transport, the recovery finds the request answered, and the call returns with an
  OK response recorded although nothing was published.
\<close>

theorem unserialisable_reply_is_lost:
  fixes srv :: "(pb_world, ('p, 'o) pb_value, 'x, 'u) server"
  assumes "dispatched srv (pb_child env ctx r) allow wait hdl"
    and "h_Method hdl (pb_child env ctx r) = HReply (Some (ok_response (Some (ProtoMessage msg)))) k"
    and "px_MarshalMsg (pe_proto env) msg = Inl e"
  shows "\<exists>n st fx. call_run srv (pb_child env ctx r) elapsed (replicate n WorkerStep @ [MainStep])
             (call_start srv (pb_child env ctx r) allow wait w) = Some st
    \<and> pc st = Returned fx \<and> w_published (world (sh st)) = w_published w
    \<and> GetResponse (sh st) = Some (ok_response (Some (ProtoMessage msg)))"
proof -
  let ?child = "pb_child env ctx r :: (pb_world, ('p, 'o) pb_value, 'x) child"
  let ?x = "ok_response (Some (ProtoMessage msg)) :: ('p, 'o) pb_value response"
  let ?s = "\<lparr>replyed = True, res = Some ?x, world = w, sent = [Some ?x]\<rparr>"
  have "c_Reply ?child w (Some ?x) = (w, Panic nil_deref)"
    using assms(3) by (simp add: pb_child_def pb_Reply_def pb_response_for_def MakeOKResponse_def
        ok_response_def pb_reply_def)
  then have run: "call_run srv ?child elapsed (replicate 6 WorkerStep) (call_start srv ?child allow wait w) =
      Some \<lparr>pc = Waiting, wk = Some (Recovering Finished), sh = ?s\<rparr>"
    using assms(2)
    by (simp add: dispatched_start [OF assms(1)] job_prog_def reply_error_prog_def eval_nat_numeral
        NewRequestContext_def setResponse_def child_reply_def)
  have "snd (after_call srv ?child elapsed (Some ?x)) = Ret ()"
    by (simp add: after_call_panics)
  then obtain fx where "after_call srv ?child elapsed (Some ?x) = (fx, Ret ())"
    by (metis prod.collapse)
  then have "finish_call srv ?child elapsed None ?s = Returned fx"
    by (simp add: finish_call_def GetResponse_def)
  then have "call_run srv ?child elapsed (replicate 6 WorkerStep @ [MainStep]) (call_start srv ?child allow wait w) =
      Some \<lparr>pc = Returned fx, wk = Some (Recovering Finished), sh = ?s\<rparr>"
    unfolding call_run_append run by simp
  then show ?thesis
    by (intro exI [of _ "6 :: nat"] exI conjI, assumption) (simp_all add: GetResponse_def)
qed

section \<open>Concrete servers\<close>

definition hello_env :: "(string \<times> bytes) pb_env" where
  "hello_env = \<lparr>pe_streams = framing, pe_proto = hello_proto\<rparr>"

definition hello_world :: pb_world where
  "hello_world =
     \<lparr>w_manager = NewCompressorManager, w_published = [], w_picks = (\<lambda>n. (None, None)), w_calls = 0\<rparr>"

definition hello_data :: request_data where
  "hello_data = \<lparr>rd_Topic = ''a/d/request/1'', rd_Request = hello_request [5, 6]\<rparr>"

definition replying_handler ::
  "string \<times> bytes \<Rightarrow> (pb_world, (string \<times> bytes, unit) pb_value, unit) handler" where
  "replying_handler msg =
     \<lparr>h_Method = (\<lambda>c. HReply (Some (ok_response (Some (ProtoMessage msg)))) (\<lambda>_. HReturn)), h_Timeout = 5\<rparr>"

definition hello_server ::
  "string \<times> bytes \<Rightarrow> (pb_world, (string \<times> bytes, unit) pb_value, unit, unit) server" where
  "hello_server msg = Register ''hello'' (Some (replying_handler msg)) (NewServer ''s'' 4 [])"

abbreviation hello_child :: "(pb_world, (string \<times> bytes, unit) pb_value, unit) child" where
  "hello_child \<equiv> pb_child hello_env () hello_data"

lemma hello_env_ok: "pb_env_ok hello_env"
  by (simp add: pb_env_ok_def hello_env_def framing_lawful hello_lawful)

lemma hello_world_ok: "pool_ok (w_manager hello_world)"
  by (simp add: hello_world_def pool_ok_new)

lemma hello_dispatched:
  "dispatched (hello_server msg) hello_child True None (replying_handler msg)"
  by (simp add: dispatched_def hello_server_def Register_def NewServer_def default_options_def
      pb_child_def hello_data_def hello_request_def)

text \<open>The topics are computed with the word \<open>request\<close> in third place.\<close>

lemma hello_reply_topic: "GetReplyTopic hello_data = ''a/d/response/1''"
  by (simp add: GetReplyTopic_def hello_data_def word_defs) code_simp

theorem unserialisable_reply_is_lost_witness:
  "\<exists>n st fx. call_run (hello_server (''*bad.Message'', [])) hello_child 0 (replicate n WorkerStep @ [MainStep])
       (call_start (hello_server (''*bad.Message'', [])) hello_child True None hello_world) = Some st
    \<and> pc st = Returned fx \<and> w_published (world (sh st)) = []
    \<and> GetResponse (sh st) = Some (ok_response (Some (ProtoMessage (''*bad.Message'', []))))"
proof -
  have "px_MarshalMsg (pe_proto hello_env) (''*bad.Message'', []) = Inl (ExtErr ''proto: bad'')"
    by (simp add: hello_env_def hello_proto_def table_proto_def)
  from unserialisable_reply_is_lost [OF hello_dispatched _ this, of _ _ 0 hello_world]
  show ?thesis by (simp add: replying_handler_def hello_world_def)
qed

text \<open>A reply that serialises, and the world it leaves.\<close>

definition hello_reply_world :: pb_world where
  "hello_reply_world = hello_world
     \<lparr>w_manager := framing_manager [1, 5, 6, 9, 0, 0, 0], w_calls := 1,
      w_published := [\<lparr>m_Topic = ''a/d/response/1'', m_QoS = 0, m_Retained = False, m_Payload = [0]\<rparr>]\<rparr>"

lemma hello_response_for:
  "pb_response_for hello_proto hello_data (ok_response (Some (ProtoMessage (''*test.Hello'', [5, 6])))) =
     Some \<lparr>rs_Topic = ''a/d/response/1'', rs_Response = hello_response 3 [5, 6]\<rparr>"
  by (simp add: pb_response_for_def ok_response_def MakeOKResponse_def RequestData_GetResponse_def
      hello_reply_topic hello_proto_def table_proto_def empty_response_def hello_response_def
      hello_any_def RPCStatusOK_def)
    (simp add: hello_data_def hello_request_def)

lemma hello_reply:
  "c_Reply hello_child hello_world (Some (ok_response (Some (ProtoMessage (''*test.Hello'', [5, 6])))))
     = (hello_reply_world, Ret True)"
  by (simp add: pb_child_def pb_Reply_def hello_env_def hello_response_for)
    (simp add: pb_reply_def hello_world_def hello_server_Marshal hello_reply_world_def DefaultQoS_def)

lemma published_reply_decodes_witness:
  "case client_Unmarshal framing hello_proto None [0] NewCompressorManager of
     (mgr', got, err) \<Rightarrow> err = None \<and> norm_response got = norm_response (hello_response 3 [5, 6])"
proof -
  obtain mgr' got err where read: "client_Unmarshal framing hello_proto None [0] NewCompressorManager = (mgr', got, err)"
    by (metis surj_pair)
  have "w_published hello_reply_world = w_published hello_world @
      [\<lparr>m_Topic = ''a/d/response/1'', m_QoS = 0, m_Retained = False, m_Payload = [0]\<rparr>]"
    by (simp add: hello_reply_world_def hello_world_def)
  from published_reply_decodes [OF hello_world_ok hello_env_ok hello_reply this, of None NewCompressorManager mgr' got err]
  show ?thesis by (simp add: read hello_env_def hello_response_for)
qed

lemma pb_call_publishes_at_most_one_witness:
  "\<exists>st. call_run (hello_server (''*test.Hello'', [5, 6])) hello_child 0 (replicate 5 WorkerStep)
       (call_start (hello_server (''*test.Hello'', [5, 6])) hello_child True None hello_world) = Some st
    \<and> w_published (world (sh st)) \<noteq> []
    \<and> (\<exists>msg. w_published (world (sh st)) = [msg] \<and> m_Topic msg = ''a/d/response/1'')"
proof -
  let ?x = "ok_response (Some (ProtoMessage (''*test.Hello'', [5, 6]))) :: (string \<times> bytes, unit) pb_value response"
  let ?st = "\<lparr>pc = Waiting, wk = Some (Job Finished),
      sh = \<lparr>replyed = True, res = Some ?x, world = hello_reply_world, sent = [Some ?x]\<rparr>\<rparr>
      :: (pb_world, (string \<times> bytes, unit) pb_value, unit) call_state"
  have run: "call_run (hello_server (''*test.Hello'', [5, 6])) hello_child 0 (replicate 5 WorkerStep)
       (call_start (hello_server (''*test.Hello'', [5, 6])) hello_child True None hello_world) = Some ?st"
    unfolding dispatched_start [OF hello_dispatched]
    by (simp add: job_prog_def replying_handler_def reply_error_prog_def eval_nat_numeral
        NewRequestContext_def setResponse_def child_reply_def hello_reply)
  have "w_published (world (sh ?st)) \<noteq> []" by (simp add: hello_reply_world_def)
  with pb_call_publishes_at_most_one [OF run] run show ?thesis
    by (intro exI [of _ ?st]) (auto simp: hello_world_def hello_reply_topic)
qed

text \<open>A retained message on a server whose runtime can serialise the answer to it.\<close>

definition strict_env :: "(string \<times> bytes) pb_env" where
  "strict_env = \<lparr>pe_streams = framing, pe_proto = table_proto []
     [empty_response\<lparr>p_Status := 400, p_ErrorMessage := error_text ErrRetailedMessage\<rparr>]\<rparr>"

definition retained_message :: message where
  "retained_message =
     \<lparr>m_Topic = ''a/d/request/1'', m_QoS = 0, m_Retained = True, m_Payload = [7]\<rparr>"

lemma strict_env_ok: "pb_env_ok strict_env"
  by (simp add: pb_env_ok_def strict_env_def framing_lawful table_lawful)

lemma retained_receive:
  "pb_receive strict_env (\<lambda>kv. ()) () retained_message hello_world =
     (hello_world\<lparr>w_calls := 1, w_published :=
        [\<lparr>m_Topic = ''a/d/response/1'', m_QoS = 0, m_Retained = False, m_Payload = [0]\<rparr>]\<rparr>, None)"
  by (simp add: pb_receive_def retained_message_def strict_env_def pb_reply_def server_Marshal_def
      compress_body_def MakeErrResponse_def RequestData_GetResponse_def GetReplyTopic_def Let_def
      server_encode_def table_proto_def write_place_def empty_request_def empty_response_def
      hello_world_def DefaultQoS_def
      hello_reply_topic [unfolded GetReplyTopic_def hello_data_def request_data.simps])


end
