(* ===== verification/Rpc_Conn.thy ===== *)
theory Rpc_Conn
  imports Broker
begin

text \<open>
  The connection that a client call makes out of two topics (\<open>mqttpb/conn.go\<close> and, but for
  its log lines the same, \<open>mqttjson/conn.go\<close>).  Messages arrive on goroutines of the broker
  client, which hand them to the one reading goroutine through an unbuffered channel; the caller
  closes the connection.

  Each operation that another goroutine can see is an event: the callback first stores the message
  and sets \<open>ready\<close> and then sends on the channel; the reader reads without the channel when
  \<open>ready\<close> is set and otherwise receives from it; closing the channel makes waiting receivers
  return and senders panic, which ends the process.
\<close>

section \<open>States and events\<close>

text \<open>
  The reader is idle, inside \<open>io.ReadAll\<close> with what it has so far, or inside it and waiting on
  the channel, or has a result: the bytes up to the end of the file.
\<close>

datatype reader = RIdle | RReading bytes | RWaiting bytes | RDone bytes

record conn =
  cn_ready :: bool
  cn_bytesReader :: bytes
  cn_senders :: nat
  cn_closed :: bool
  cn_unsubscribed :: bool
  cn_reader :: reader
  cn_crashed :: bool

definition NewConn :: "string \<Rightarrow> string \<Rightarrow> byte \<Rightarrow> conn \<times> adapter_call list" where
  "NewConn requestTopic responseTopic qos =
     (\<lparr>cn_ready = False, cn_bytesReader = [], cn_senders = 0, cn_closed = False,
       cn_unsubscribed = False, cn_reader = RIdle, cn_crashed = False\<rparr>,
      [CallOnConnect responseTopic qos])"

text \<open>
  The events: a message is stored, a sender reaches the closed channel, \<open>io.ReadAll\<close> starts,
  reads at most the given number of bytes, or receives and then reads; the channel is closed, and the topic is
  unsubscribed.  \<open>Write\<close> is an operation on the adapter alone.
\<close>

datatype conn_event =
    Deliver bytes
  | SendClosed
  | ReadAll
  | ReadChunk nat
  | Receive nat
  | CloseChannel
  | Unsubscribe

text \<open>One read of the \<open>bytes.Reader\<close>: some bytes, or the end of the file, which ends the loop.\<close>

definition read_chunk :: "nat \<Rightarrow> bytes \<Rightarrow> conn \<Rightarrow> conn" where
  "read_chunk n acc c =
     (if cn_bytesReader c = [] then c\<lparr>cn_reader := RDone acc\<rparr>
      else c\<lparr>cn_bytesReader := drop n (cn_bytesReader c),
             cn_reader := RReading (acc @ take n (cn_bytesReader c))\<rparr>)"

fun conn_step :: "conn_event \<Rightarrow> conn \<Rightarrow> conn option" where
  "conn_step e c =
     (if cn_crashed c then None
      else case e of
        Deliver p \<Rightarrow>
          if cn_unsubscribed c then None
          else Some (c\<lparr>cn_bytesReader := p, cn_ready := True, cn_senders := Suc (cn_senders c)\<rparr>)
      | SendClosed \<Rightarrow>
          if cn_closed c \<and> 0 < cn_senders c then Some (c\<lparr>cn_crashed := True\<rparr>) else None
      | ReadAll \<Rightarrow>
          (case cn_reader c of
             RIdle \<Rightarrow> Some (c\<lparr>cn_reader := RReading []\<rparr>)
           | RDone r \<Rightarrow> Some (c\<lparr>cn_reader := RReading []\<rparr>)
           | _ \<Rightarrow> None)
      | ReadChunk n \<Rightarrow>
          (case cn_reader c of
             RReading acc \<Rightarrow>
               if n = 0 then None
               else if cn_ready c then Some (read_chunk n acc c)
               else Some (c\<lparr>cn_reader := RWaiting acc\<rparr>)
           | RWaiting acc \<Rightarrow>
               if 0 < n \<and> cn_closed c then Some (c\<lparr>cn_reader := RDone acc\<rparr>) else None
           | _ \<Rightarrow> None)
      | Receive n \<Rightarrow>
          (case cn_reader c of
             RWaiting acc \<Rightarrow>
               if 0 < n \<and> 0 < cn_senders c \<and> \<not> cn_closed c
               then Some (read_chunk n acc (c\<lparr>cn_senders := cn_senders c - 1\<rparr>))
               else None
           | _ \<Rightarrow> None)
      | CloseChannel \<Rightarrow>
          if cn_closed c then Some (c\<lparr>cn_crashed := True\<rparr>) else Some (c\<lparr>cn_closed := True\<rparr>)
      | Unsubscribe \<Rightarrow> if cn_closed c then Some (c\<lparr>cn_unsubscribed := True\<rparr>) else None)"

definition conn_Write :: "string \<Rightarrow> byte \<Rightarrow> bytes \<Rightarrow> message \<times> nat \<times> gerror option" where
  "conn_Write requestTopic qos data =
     (\<lparr>m_Topic = requestTopic, m_QoS = qos, m_Retained = False, m_Payload = data\<rparr>, length data, None)"

fun conn_run :: "conn_event list \<Rightarrow> conn \<Rightarrow> conn option" where
  "conn_run [] c = Some c"
| "conn_run (e # es) c = (case conn_step e c of None \<Rightarrow> None | Some c' \<Rightarrow> conn_run es c')"

declare conn_step.simps [simp del]

section \<open>What is read\<close>

fun delivered :: "conn_event list \<Rightarrow> bytes list" where
  "delivered [] = []"
| "delivered (Deliver p # es) = p # delivered es"
| "delivered (e # es) = delivered es"

fun received :: "conn_event list \<Rightarrow> nat" where
  "received [] = 0"
| "received (Receive n # es) = Suc (received es)"
| "received (e # es) = received es"

lemma delivered_append [simp]: "delivered (as @ bs) = delivered as @ delivered bs"
  by (induction "as" rule: delivered.induct) auto

lemma received_append [simp]: "received (as @ bs) = received as + received bs"
  by (induction "as" rule: received.induct) auto

lemma conn_run_append:
  "conn_run (as @ bs) c = (case conn_run as c of None \<Rightarrow> None | Some c' \<Rightarrow> conn_run bs c')"
  by (induction "as" arbitrary: c) (auto split: option.splits)

text \<open>Invariants of runs, with the events so far.\<close>

lemma conn_run_invariant:
  assumes "conn_run es c0 = Some c" and "I [] c0"
    and "\<And>es c e c'. I es c \<Longrightarrow> conn_step e c = Some c' \<Longrightarrow> I (es @ [e]) c'"
  shows "I es c"
  using assms(1)
proof (induction es arbitrary: c rule: rev_induct)
  case Nil
  then show ?case using assms(2) by simp
next
  case (snoc e es)
  then obtain c1 where "conn_run es c0 = Some c1" "conn_step e c1 = Some c"
    by (auto simp: conn_run_append split: option.splits)
  with snoc.IH assms(3) show ?case by blast
qed

definition conn_start :: conn where
  "conn_start = fst (NewConn [] [] 0)"

lemma NewConn_start: "fst (NewConn reqt rspt qos) = conn_start"
  by (simp add: NewConn_def conn_start_def)

text \<open>
  Senders are the messages not received, the channel is closed once it was closed, and nothing is
  ready before the first message.
\<close>

definition conn_count_inv :: "conn_event list \<Rightarrow> conn \<Rightarrow> bool" where
  "conn_count_inv es c \<longleftrightarrow>
     cn_senders c + received es = length (delivered es)
   \<and> (cn_closed c \<longleftrightarrow> CloseChannel \<in> set es)
   \<and> (cn_ready c \<longleftrightarrow> delivered es \<noteq> [])
   \<and> (cn_unsubscribed c \<longrightarrow> cn_closed c)"

lemmas conn_step_split = if_splits option.splits reader.splits conn_event.splits

lemma conn_count_inv_step:
  assumes "conn_count_inv es c" and "conn_step e c = Some c'"
  shows "conn_count_inv (es @ [e]) c'"
  using assms
  by (cases e) (auto simp: conn_count_inv_def conn_step.simps read_chunk_def split: conn_step_split)

lemma conn_count_inv_run:
  assumes "conn_run es conn_start = Some c"
  shows "conn_count_inv es c"
  by (rule conn_run_invariant [where I = conn_count_inv, OF assms _ conn_count_inv_step])
    (simp add: conn_count_inv_def conn_start_def NewConn_def)

text \<open>
  With one message and an open channel, what the reader has and what is left to read make up the
  message.
\<close>

fun reader_has :: "reader \<Rightarrow> bytes" where
  "reader_has RIdle = []"
| "reader_has (RReading acc) = acc"
| "reader_has (RWaiting acc) = acc"
| "reader_has (RDone acc) = acc"

fun reads :: "conn_event list \<Rightarrow> nat" where
  "reads [] = 0"
| "reads (ReadAll # es) = Suc (reads es)"
| "reads (e # es) = reads es"

lemma reads_append [simp]: "reads (as @ bs) = reads as + reads bs"
  by (induction "as" rule: reads.induct) auto

definition conn_read_inv :: "conn_event list \<Rightarrow> conn \<Rightarrow> bool" where
  "conn_read_inv es c \<longleftrightarrow>
     length (delivered es) \<le> 1 \<and> \<not> cn_closed c \<longrightarrow>
       (cn_reader c = RIdle \<longleftrightarrow> reads es = 0)
     \<and> (reads es \<le> 1 \<longrightarrow> reader_has (cn_reader c) @ cn_bytesReader c = concat (delivered es))
     \<and> (\<forall>r. cn_reader c = RDone r \<longrightarrow> delivered es \<noteq> [] \<and> cn_bytesReader c = [])
     \<and> (\<forall>r. cn_reader c = RWaiting r \<longrightarrow> r = [])
     \<and> (reads es \<noteq> 1 \<longrightarrow> reads es = 0 \<or>
          delivered es \<noteq> [] \<and> cn_bytesReader c = [] \<and> reader_has (cn_reader c) = [])"

lemma conn_read_inv_step:
  assumes "conn_count_inv es c" and "conn_read_inv es c" and "conn_step e c = Some c'"
  shows "conn_read_inv (es @ [e]) c'"
proof (cases "length (delivered (es @ [e])) \<le> 1 \<and> \<not> cn_closed c'")
  case False
  then show ?thesis unfolding conn_read_inv_def by blast
next
  case True
  then have small: "length (delivered es) \<le> 1" and open_c: "\<not> cn_closed c"
    using assms(3) by (auto simp: conn_step.simps read_chunk_def split: conn_step_split)
  note inv = assms(2) [unfolded conn_read_inv_def, rule_format, OF conjI [OF small open_c]]
  show ?thesis
    using True inv open_c assms(1,3)
    by (cases e; cases "cn_reader c")
      (auto simp: conn_read_inv_def conn_count_inv_def conn_step.simps read_chunk_def
        split: if_splits)
qed

lemma conn_read_inv_run:
  assumes "conn_run es conn_start = Some c"
  shows "conn_read_inv es c"
proof -
  have "conn_count_inv es c \<and> conn_read_inv es c"
  proof (rule conn_run_invariant [where I = "\<lambda>es c. conn_count_inv es c \<and> conn_read_inv es c", OF assms])
    show "conn_count_inv [] conn_start \<and> conn_read_inv [] conn_start"
      by (simp add: conn_count_inv_def conn_read_inv_def conn_start_def NewConn_def)
  qed (blast intro: conn_count_inv_step conn_read_inv_step)
  then show ?thesis ..
qed

text \<open>
  While the connection is open, the first read of all bytes gives exactly the message,
  wherever the scheduler puts its arrival among the steps of the reader and however the reader
  cuts it into chunks.
\<close>

lemma conn_reads_message:
  assumes "conn_run es (fst (NewConn reqt rspt qos)) = Some c"
    and "length (delivered es) \<le> 1" and "reads es = 1" and "CloseChannel \<notin> set es"
    and "cn_reader c = RDone r"
  shows "delivered es = [r]"
proof -
  have run: "conn_run es conn_start = Some c" using assms(1) by (simp only: NewConn_start)
  have "\<not> cn_closed c"
    using conn_count_inv_run [OF run] assms(4) by (simp add: conn_count_inv_def)
  with conn_read_inv_run [OF run] assms(2,3,5) have "r = concat (delivered es)" "delivered es \<noteq> []"
    by (auto simp: conn_read_inv_def)
  with assms(2) show ?thesis by (cases "delivered es") auto
qed

text \<open>
  A connection carries one reply: after a message was read, the next read of all bytes ends at
  once with nothing, without waiting for another message.
\<close>

lemma conn_second_read_empty:
  assumes "conn_run es (fst (NewConn reqt rspt qos)) = Some c"
    and "length (delivered es) \<le> 1" and "CloseChannel \<notin> set es"
    and "cn_reader c = RDone r" and "\<not> cn_crashed c" and "0 < n"
  shows "\<exists>c'. conn_run [ReadAll, ReadChunk n] c = Some c' \<and> cn_reader c' = RDone []"
proof -
  have run: "conn_run es conn_start = Some c" using assms(1) by (simp only: NewConn_start)
  have "\<not> cn_closed c" and "cn_ready c \<longleftrightarrow> delivered es \<noteq> []"
    using conn_count_inv_run [OF run] assms(3) by (simp_all add: conn_count_inv_def)
  with conn_read_inv_run [OF run] assms(2,4) have "cn_ready c" "cn_bytesReader c = []"
    by (auto simp: conn_read_inv_def)
  with assms(4-6) show ?thesis by (simp add: conn_step.simps read_chunk_def)
qed

section \<open>When closing takes the process down\<close>


text \<open>
  The late answer: a caller that gives up closes the channel before it unsubscribes, so an
  answer that arrives in between crashes the process, in whatever state the call was.
\<close>

lemma late_answer_crashes:
  assumes "conn_run es (fst (NewConn reqt rspt qos)) = Some c"
    and "CloseChannel \<notin> set es" and "\<not> cn_crashed c"
  shows "\<exists>c'. conn_run [CloseChannel, Deliver p, SendClosed] c = Some c' \<and> cn_crashed c'"
proof -
  have run: "conn_run es conn_start = Some c" using assms(1) by (simp only: NewConn_start)
  from conn_count_inv_run [OF run] assms(2,3) have "\<not> cn_closed c" "\<not> cn_unsubscribed c"
    by (auto simp: conn_count_inv_def)
  with assms(3) show ?thesis by (simp add: conn_step.simps)
qed

text \<open>A call: the reader waits, the answer arrives, is received in two chunks and read to its end.\<close>

definition call_events :: "conn_event list" where
  "call_events = [ReadAll, ReadChunk 512, Deliver [7, 8, 9], Receive 2, ReadChunk 512, ReadChunk 512]"

definition call_conn :: conn where
  "call_conn =
     \<lparr>cn_ready = True, cn_bytesReader = [], cn_senders = 0, cn_closed = False,
       cn_unsubscribed = False, cn_reader = RDone [7, 8, 9], cn_crashed = False\<rparr>"

lemma call_events_run: "conn_run call_events (fst (NewConn ''q'' ''s'' 0)) = Some call_conn"
  by (simp add: call_events_def call_conn_def NewConn_def conn_step.simps read_chunk_def numeral_eq_Suc)

lemma conn_reads_message_witness: "delivered call_events = [[7, 8, 9]]"
  by (rule conn_reads_message [OF call_events_run]) (simp_all add: call_events_def call_conn_def)

lemma conn_second_read_empty_witness:
  "\<exists>c'. conn_run [ReadAll, ReadChunk 512] call_conn = Some c' \<and> cn_reader c' = RDone []"
  by (rule conn_second_read_empty [OF call_events_run]) (simp_all add: call_events_def call_conn_def)


lemma late_answer_crashes_witness:
  "\<exists>c'. conn_run [CloseChannel, Deliver [1], SendClosed] call_conn = Some c' \<and> cn_crashed c'"
  by (rule late_answer_crashes [OF call_events_run]) (simp_all add: call_events_def call_conn_def)

end
