(* ===== verification/Pb_Client.thy ===== *)
theory Pb_Client
  imports Pb_Server Rpc_Conn
begin

text \<open>
  The protobuf client (\<open>mqttpb/client.go\<close>, \<open>mqttpb/rpc_client.go\<close>): the codec that
  net/rpc drives, the way net/rpc drives it for one call, and \<open>Client.Call\<close>, which makes a
  connection of fresh topics for each call and takes a codec from a pool.
\<close>

section \<open>The codec of net/rpc\<close>

record 'x rpc_codec =
  cc_encoding :: encoding
  cc_ctx :: "'x option"
  cc_request :: request
  cc_response :: pb_response
  cc_pending :: "64 word \<rightharpoonup> string"
  cc_manager :: manager

definition NewRPCClientCodecWithConn :: "encoding \<Rightarrow> 'x rpc_codec" where
  "NewRPCClientCodecWithConn enc =
     \<lparr>cc_encoding = enc, cc_ctx = None, cc_request = empty_request, cc_response = empty_response,
      cc_pending = Map.empty, cc_manager = NewCompressorManager\<rparr>"

definition NewRPCClientCodec :: "encoding \<Rightarrow> 'x rpc_codec" where
  "NewRPCClientCodec enc = NewRPCClientCodecWithConn enc"

definition NewRPCClient :: "'x rpc_codec" where
  "NewRPCClient = NewRPCClientCodecWithConn ContentEncoding_BROTLI"

definition SetEncoding :: "encoding \<Rightarrow> 'x rpc_codec \<Rightarrow> 'x rpc_codec" where
  "SetEncoding enc c = c\<lparr>cc_encoding := enc\<rparr>"

definition SetContext :: "'x option \<Rightarrow> 'x rpc_codec \<Rightarrow> 'x rpc_codec" where
  "SetContext x c = c\<lparr>cc_ctx := x\<rparr>"

text \<open>
  \<open>WriteRequest\<close>: the bytes that go to the connection, or an error.  The propagator that
  injects the tracing context into the metadata, which the request keeps from call to call, is an
  argument.
\<close>

definition request_metadata ::
  "('x \<Rightarrow> (string \<rightharpoonup> string) \<Rightarrow> (string \<rightharpoonup> string)) \<Rightarrow> 'x option \<Rightarrow> metadata \<Rightarrow> metadata" where
  "request_metadata inject ctx md =
     (case ctx of
        None \<Rightarrow> md
      | Some x \<Rightarrow> Some (inject x (case md of None \<Rightarrow> Map.empty | Some kv \<Rightarrow> kv)))"

definition pb_WriteRequest ::
  "'p pb_env \<Rightarrow> ('x \<Rightarrow> (string \<rightharpoonup> string) \<Rightarrow> (string \<rightharpoonup> string)) \<Rightarrow> nat option \<Rightarrow> nat option \<Rightarrow>
   64 word \<Rightarrow> string \<Rightarrow> ('p, 'o) pb_value \<Rightarrow> 'x rpc_codec \<Rightarrow> 'x rpc_codec \<times> (gerror + bytes)" where
  "pb_WriteRequest env inject pw pb seq meth param c =
     (let c1 = c\<lparr>cc_pending := (cc_pending c)(seq \<mapsto> meth)\<rparr>;
          px = pe_proto env
      in case param of
           OtherValue u \<Rightarrow> (c1, Inl ErrInvalidRequestBody)
         | ProtoMessage msg \<Rightarrow>
             (case px_MarshalMsg px msg of
                Inl e \<Rightarrow> (c1, Inl e)
              | Inr val \<Rightarrow>
                  (let req = (cc_request c1)
                         \<lparr>q_Id := seq, q_Encoding := cc_encoding c1, q_Method := meth,
                          q_Body := Some \<lparr>TypeUrl = px_TypeOf px msg, Value = Some val\<rparr>,
                          q_Metadata := request_metadata inject (cc_ctx c1) (q_Metadata (cc_request c1))\<rparr>
                   in case client_Marshal (pe_streams env) px pw pb req (cc_manager c1) of
                        (m', out) \<Rightarrow> (c1\<lparr>cc_request := req, cc_manager := m'\<rparr>, out))))"

record rpc_response =
  rr_ServiceMethod :: string
  rr_Seq :: "64 word"
  rr_Error :: string

text \<open>
  \<open>ReadResponseHeader\<close> on what reading all of the connection gave.  A status that is not OK
  is only logged.
\<close>

definition pb_ReadResponseHeader ::
  "'p pb_env \<Rightarrow> ('x \<Rightarrow> (string \<rightharpoonup> string) \<Rightarrow> 'x) \<Rightarrow> nat option \<Rightarrow> gerror + bytes \<Rightarrow> 'x rpc_codec \<Rightarrow>
   'x rpc_codec \<times> (gerror + rpc_response)" where
  "pb_ReadResponseHeader env extract pick body c =
     (let c0 = c\<lparr>cc_response := empty_response\<rparr>
      in case body of
           Inl e \<Rightarrow> (c0, Inl e)
         | Inr [] \<Rightarrow> (c0, Inl ErrEOF)
         | Inr bs \<Rightarrow>
             (case client_Unmarshal (pe_streams env) (pe_proto env) pick bs (cc_manager c0) of
                (m', rsp, Some e) \<Rightarrow> (c0\<lparr>cc_manager := m', cc_response := rsp\<rparr>, Inl e)
              | (m', rsp, None) \<Rightarrow>
                  (c0\<lparr>cc_manager := m', cc_response := rsp,
                      cc_ctx := (case (cc_ctx c0, p_Metadata rsp) of
                                   (Some x, Some kv) \<Rightarrow> Some (extract x kv) | _ \<Rightarrow> cc_ctx c0),
                      cc_pending := (cc_pending c0)(p_Id rsp := None)\<rparr>,
                   Inr \<lparr>rr_ServiceMethod = (case cc_pending c0 (p_Id rsp) of None \<Rightarrow> [] | Some s \<Rightarrow> s),
                        rr_Seq = p_Id rsp, rr_Error = p_ErrorMessage rsp\<rparr>)))"

text \<open>
  \<open>ReadResponseBody\<close>: what was stored in the target, if anything.
\<close>

definition pb_ReadResponseBody :: "'p proto \<Rightarrow> go_type option \<Rightarrow> 'x rpc_codec \<Rightarrow> gerror + 'p option" where
  "pb_ReadResponseBody px target c =
     (case target of
        None \<Rightarrow> Inr None
      | Some t \<Rightarrow>
          if \<not> is_proto t then Inl ErrInvalidRequestBody
          else (case p_Body (cc_response c) of
                  None \<Rightarrow> Inr None
                | Some body \<Rightarrow>
                    if norm_value (Value body) = None then Inr None
                    else if TypeUrl body \<noteq> type_string t then Inl ErrMessageTypeNotMatch
                    else (case px_UnmarshalMsg px (type_string t) (Value body) of
                            Inl e \<Rightarrow> Inl e
                          | Inr msg \<Rightarrow> Inr (Some msg))))"

section \<open>One call through net/rpc\<close>

text \<open>
  How a call ends: with an error or none, and with what was stored in the reply.
\<close>

type_synonym 'p call_result = "gerror option \<times> 'p option"

text \<open>
  The reading goroutine of net/rpc on a connection that carries one answer, for the only call,
  whose sequence number is 0.  An answer with another number is skipped, and the next read finds
  the end of the file.
\<close>

definition rpc_terminate :: "gerror \<Rightarrow> gerror" where
  "rpc_terminate e = (if e = ErrEOF then ErrUnexpectedEOF else e)"

definition rpc_input ::
  "'p pb_env \<Rightarrow> ('x \<Rightarrow> (string \<rightharpoonup> string) \<Rightarrow> 'x) \<Rightarrow> nat option \<Rightarrow> go_type \<Rightarrow> bytes \<Rightarrow> 'x rpc_codec \<Rightarrow>
   'x rpc_codec \<times> 'p call_result" where
  "rpc_input env extract pick target body c =
     (case pb_ReadResponseHeader env extract pick (Inr body) c of
        (c', Inl e) \<Rightarrow> (c', (Some (rpc_terminate e), None))
      | (c', Inr r) \<Rightarrow>
          if rr_Seq r \<noteq> 0 then
            (c'\<lparr>cc_response := empty_response\<rparr>, (Some (rpc_terminate ErrEOF), None))
          else if rr_Error r \<noteq> [] then (c', (Some (ServerError (rr_Error r)), None))
          else (c', case pb_ReadResponseBody (pe_proto env) (Some target) c' of
                      Inl e \<Rightarrow> (Some (Errorf (''reading body '' @ error_text e)), None)
                    | Inr stored \<Rightarrow> (None, stored)))"

section \<open>The client\<close>

type_synonym call_option = "encoding \<Rightarrow> encoding"

definition WithEncoding :: "encoding \<Rightarrow> call_option" where
  "WithEncoding enc o' = enc"

record pb_client =
  pc_topicPrefix :: string
  pc_new_encoding :: encoding

text \<open>A new client and the call it makes on its adapter; new codecs of its pool have the encoding.\<close>

definition pb_NewClient :: "string \<Rightarrow> encoding \<Rightarrow> pb_client \<times> adapter_call list" where
  "pb_NewClient topicPrefix enc =
     (\<lparr>pc_topicPrefix = topicPrefix, pc_new_encoding = enc\<rparr>, [CallEnsureConnected])"

definition pb_request_topic :: "pb_client \<Rightarrow> string \<Rightarrow> string \<Rightarrow> string" where
  "pb_request_topic cl deviceID rid = path_Join [pc_topicPrefix cl, deviceID, ''request'', rid]"

definition pb_response_topic :: "pb_client \<Rightarrow> string \<Rightarrow> string \<Rightarrow> string" where
  "pb_response_topic cl deviceID rid = path_Join [pc_topicPrefix cl, deviceID, ''response'', rid]"

text \<open>
  \<open>createRPCClient\<close>: a codec from the pool, or a new one, set up for the call.
\<close>

definition pb_createRPCClient ::
  "pb_client \<Rightarrow> 'x \<Rightarrow> encoding \<Rightarrow> 'x rpc_codec option \<Rightarrow> 'x rpc_codec" where
  "pb_createRPCClient cl ctx enc pooled =
     SetContext (Some ctx) (SetEncoding enc
       (case pooled of None \<Rightarrow> NewRPCClientCodec (pc_new_encoding cl) | Some c \<Rightarrow> c))"

text \<open>\<open>Dial\<close> puts a codec of its own on a new connection; the pool is not asked.\<close>

definition pb_Dial :: "string \<Rightarrow> string \<Rightarrow> byte \<Rightarrow> 'x rpc_codec \<times> conn \<times> adapter_call list" where
  "pb_Dial reqTopic replyTopic qos = (NewRPCClient, NewConn reqTopic replyTopic qos)"

text \<open>
  What may happen to a call once its request is out: the answer arrives and is read, or the
  context is done first.
\<close>

datatype call_ending = Answered bytes | CtxDone gerror

definition pb_Call ::
  "'p pb_env \<Rightarrow> ('x \<Rightarrow> (string \<rightharpoonup> string) \<Rightarrow> (string \<rightharpoonup> string)) \<Rightarrow> ('x \<Rightarrow> (string \<rightharpoonup> string) \<Rightarrow> 'x) \<Rightarrow>
   nat option \<times> nat option \<times> nat option \<Rightarrow> pb_client \<Rightarrow> 'x \<Rightarrow> string \<Rightarrow> string \<Rightarrow> string \<Rightarrow>
   'p \<Rightarrow> go_type \<Rightarrow> call_option list \<Rightarrow> 'x rpc_codec option \<Rightarrow> call_ending \<Rightarrow>
   'x rpc_codec \<times> message list \<times> 'p call_result" where
  "pb_Call env inject extract picks cl ctx deviceID rid serviceMethod args target opts pooled ending =
     (case picks of (pw, pb, pick) \<Rightarrow>
       (let enc = foldl (\<lambda>acc f. f acc) ContentEncoding_PLAIN opts;
            c = pb_createRPCClient cl ctx enc pooled
        in case pb_WriteRequest env inject pw pb 0 serviceMethod
                  (ProtoMessage args :: ('p, unit) pb_value) c of
             (c1, Inl e) \<Rightarrow> (c1, [], (Some e, None))
           | (c1, Inr data) \<Rightarrow>
               (let msg = fst (conn_Write (pb_request_topic cl deviceID rid) DefaultQoS data)
                in case ending of
                     CtxDone e \<Rightarrow> (c1, [msg], (Some e, None))
                   | Answered bs \<Rightarrow>
                       (case rpc_input env extract pick target bs c1 of
                          (c2, r) \<Rightarrow> (c2, [msg], r)))))"

section \<open>How an answer ends a call\<close>

text \<open>The bytes are read as this response, whatever the state of the client's compressor.\<close>

definition decodes_to :: "'p pb_env \<Rightarrow> nat option \<Rightarrow> bytes \<Rightarrow> pb_response \<Rightarrow> bool" where
  "decodes_to env pick bs rsp \<longleftrightarrow>
     (\<forall>m. \<exists>m'. client_Unmarshal (pe_streams env) (pe_proto env) pick bs m = (m', rsp, None))"

definition answer_result :: "'p proto \<Rightarrow> go_type \<Rightarrow> pb_response \<Rightarrow> 'p call_result" where
  "answer_result px target rsp =
     (if p_Id rsp \<noteq> 0 then (Some ErrUnexpectedEOF, None)
      else if p_ErrorMessage rsp \<noteq> [] then (Some (ServerError (p_ErrorMessage rsp)), None)
      else if \<not> is_proto target then
        (Some (Errorf (''reading body '' @ error_text ErrInvalidRequestBody)), None)
      else case p_Body rsp of
             None \<Rightarrow> (None, None)
           | Some body \<Rightarrow>
               if norm_value (Value body) = None then (None, None)
               else if TypeUrl body \<noteq> type_string target then
                 (Some (Errorf (''reading body '' @ error_text ErrMessageTypeNotMatch)), None)
               else (case px_UnmarshalMsg px (type_string target) (Value body) of
                       Inl e \<Rightarrow> (Some (Errorf (''reading body '' @ error_text e)), None)
                     | Inr msg \<Rightarrow> (None, Some msg)))"

lemma rpc_input_result:
  assumes "decodes_to env pick bs rsp" and "bs \<noteq> []"
  shows "snd (rpc_input env extract pick target bs c) = answer_result (pe_proto env) target rsp"
proof -
  obtain m' where "client_Unmarshal (pe_streams env) (pe_proto env) pick bs (cc_manager c) = (m', rsp, None)"
    using assms(1) by (auto simp: decodes_to_def)
  with assms(2) show ?thesis
    by (cases bs)
      (auto simp: rpc_input_def pb_ReadResponseHeader_def Let_def answer_result_def rpc_terminate_def
        pb_ReadResponseBody_def split: option.splits sum.splits)
qed

text \<open>The request that a call writes, and what it depends on.\<close>

definition call_request ::
  "('x \<Rightarrow> (string \<rightharpoonup> string) \<Rightarrow> (string \<rightharpoonup> string)) \<Rightarrow> 'p proto \<Rightarrow> 'x \<Rightarrow> encoding \<Rightarrow> string \<Rightarrow> 'p \<Rightarrow> bytes \<Rightarrow>
   metadata \<Rightarrow> request" where
  "call_request inject px ctx enc meth args val md =
     \<lparr>q_Id = 0, q_Method = meth, q_Encoding = enc, q_Metadata = request_metadata inject (Some ctx) md,
      q_Body = Some \<lparr>TypeUrl = px_TypeOf px args, Value = Some val\<rparr>\<rparr>"

definition codec_of :: "pb_client \<Rightarrow> 'x rpc_codec option \<Rightarrow> 'x rpc_codec" where
  "codec_of cl pooled = (case pooled of None \<Rightarrow> NewRPCClientCodec (pc_new_encoding cl) | Some c \<Rightarrow> c)"

definition call_encoding :: "call_option list \<Rightarrow> encoding" where
  "call_encoding opts = foldl (\<lambda>acc f. f acc) ContentEncoding_PLAIN opts"

lemma createRPCClient_fields:
  "cc_manager (pb_createRPCClient cl ctx enc pooled) = cc_manager (codec_of cl pooled)"
  "cc_request (pb_createRPCClient cl ctx enc pooled) = cc_request (codec_of cl pooled)"
  "cc_encoding (pb_createRPCClient cl ctx enc pooled) = enc"
  "cc_ctx (pb_createRPCClient cl ctx enc pooled) = Some ctx"
  by (simp_all add: pb_createRPCClient_def codec_of_def SetContext_def SetEncoding_def split: option.split)

lemma request_eqI:
  "rq\<lparr>q_Id := a, q_Encoding := b, q_Method := c, q_Body := d, q_Metadata := e\<rparr> =
   \<lparr>q_Id = a, q_Method = c, q_Encoding = b, q_Metadata = e, q_Body = d\<rparr>"
  by (cases rq) simp

lemma pb_WriteRequest_call:
  "snd (pb_WriteRequest env inject pw pb 0 meth (ProtoMessage args :: ('p, unit) pb_value)
      (pb_createRPCClient cl ctx enc pooled)) =
     (case px_MarshalMsg (pe_proto env) args of
        Inl e \<Rightarrow> Inl e
      | Inr val \<Rightarrow> snd (client_Marshal (pe_streams env) (pe_proto env) pw pb
          (call_request inject (pe_proto env) ctx enc meth args val
             (q_Metadata (cc_request (codec_of cl pooled)))) (cc_manager (codec_of cl pooled))))"
  by (simp add: pb_WriteRequest_def createRPCClient_fields Let_def request_eqI call_request_def
      split: sum.split prod.split)

lemma pb_Call_written:
  assumes "px_MarshalMsg (pe_proto env) args = Inr val"
    and "client_Marshal (pe_streams env) (pe_proto env) pw pb
       (call_request inject (pe_proto env) ctx (call_encoding opts) meth args val
          (q_Metadata (cc_request (codec_of cl pooled)))) (cc_manager (codec_of cl pooled)) = (m1, Inr data)"
  obtains c1 where
    "pb_Call env inject extract (pw, pb, pick) cl ctx dev rid meth args target opts pooled ending =
       (case ending of
          CtxDone e \<Rightarrow> (c1, [fst (conn_Write (pb_request_topic cl dev rid) DefaultQoS data)], (Some e, None))
        | Answered bs \<Rightarrow>
            (case rpc_input env extract pick target bs c1 of
               (c2, r) \<Rightarrow> (c2, [fst (conn_Write (pb_request_topic cl dev rid) DefaultQoS data)], r)))"
proof -
  let ?c = "pb_createRPCClient cl ctx (call_encoding opts) pooled"
  obtain c1 out where run: "pb_WriteRequest env inject pw pb 0 meth (ProtoMessage args :: ('a, unit) pb_value) ?c = (c1, out)"
    by (metis surj_pair)
  have "out = Inr data"
    using pb_WriteRequest_call [of env inject pw pb meth args cl ctx "call_encoding opts" pooled] assms run
    by simp
  with run show ?thesis
    by (intro that [of c1]) (simp add: pb_Call_def Let_def call_encoding_def split: call_ending.split)
qed

lemma answered_call:
  assumes "px_MarshalMsg (pe_proto env) args = Inr val"
    and "client_Marshal (pe_streams env) (pe_proto env) pw pb
       (call_request inject (pe_proto env) ctx (call_encoding opts) meth args val
          (q_Metadata (cc_request (codec_of cl pooled)))) (cc_manager (codec_of cl pooled)) = (m1, Inr data)"
    and "decodes_to env pick bs rsp" and "bs \<noteq> []"
  shows "snd (pb_Call env inject extract (pw, pb, pick) cl ctx dev rid meth args target opts pooled (Answered bs)) =
    ([fst (conn_Write (pb_request_topic cl dev rid) DefaultQoS data)],
     answer_result (pe_proto env) target rsp)"
proof -
  from pb_Call_written [OF assms(1,2), of "extract" pick dev rid target "Answered bs"] obtain c1 where
    "pb_Call env inject extract (pw, pb, pick) cl ctx dev rid meth args target opts pooled (Answered bs) =
       (case rpc_input env extract pick target bs c1 of
          (c2, r) \<Rightarrow> (c2, [fst (conn_Write (pb_request_topic cl dev rid) DefaultQoS data)], r))"
    by (metis call_ending.simps(5))
  with rpc_input_result [OF assms(3,4), of "extract" target c1] show ?thesis
    by (cases "rpc_input env extract pick target bs c1") simp
qed


text \<open>
  The status of an answer is ignored: an answer to the call that carries neither an error text
  nor a body ends it without an error and with its reply untouched, whatever the status says.
\<close>

lemma error_status_without_text_is_success:
  assumes "px_MarshalMsg (pe_proto env) args = Inr val"
    and "client_Marshal (pe_streams env) (pe_proto env) pw pb
       (call_request inject (pe_proto env) ctx (call_encoding opts) meth args val
          (q_Metadata (cc_request (codec_of cl pooled)))) (cc_manager (codec_of cl pooled)) = (m1, Inr data)"
    and "decodes_to env pick bs (empty_response\<lparr>p_Status := status, p_Encoding := enc\<rparr>)" and "bs \<noteq> []"
    and "is_proto target"
  shows "snd (snd (pb_Call env inject extract (pw, pb, pick) cl ctx dev rid meth args target opts pooled
      (Answered bs))) = (None, None)"
  using answered_call [OF assms(1-4)] assms(5) by (simp add: answer_result_def empty_response_def)

lemma rpc_input_same:
  assumes "cc_manager c' = cc_manager c"
  shows "snd (rpc_input env extract pick target bs c') = snd (rpc_input env extract pick target bs c)"
proof (cases bs)
  case Nil
  then show ?thesis by (simp add: rpc_input_def pb_ReadResponseHeader_def Let_def)
next
  case (Cons b bs')
  obtain m rsp err where "client_Unmarshal (pe_streams env) (pe_proto env) pick bs (cc_manager c) = (m, rsp, err)"
    by (metis surj_pair)
  with Cons assms show ?thesis
    by (cases err) (simp_all add: rpc_input_def pb_ReadResponseHeader_def Let_def pb_ReadResponseBody_def)
qed

text \<open>
  C38. Which codec the pool hands out does not matter beyond its compressor and the metadata that
  its last request left: the message and the result of a call are the same for any two.  In
  particular the encoding that the client was made with is never used.
\<close>

theorem pooled_codec_irrelevant:
  fixes args :: 'p and ctx :: 'x
  assumes "pc_topicPrefix cl' = pc_topicPrefix cl"
    and "cc_manager (codec_of cl' pooled') = cc_manager (codec_of cl pooled)"
    and "q_Metadata (cc_request (codec_of cl' pooled')) = q_Metadata (cc_request (codec_of cl pooled))"
  shows "snd (pb_Call env inject extract picks cl' ctx dev rid meth args target opts pooled' ending) =
         snd (pb_Call env inject extract picks cl ctx dev rid meth args target opts pooled ending)"
proof -
  obtain pw pb pick where picks: "picks = (pw, pb, pick)" by (cases picks) auto
  let ?enc = "call_encoding opts"
  let ?c = "pb_createRPCClient cl ctx ?enc pooled" and ?c' = "pb_createRPCClient cl' ctx ?enc pooled'"
  let ?w = "pb_WriteRequest env inject pw pb 0 meth (ProtoMessage args :: ('p, unit) pb_value)"
  have written: "snd (?w ?c') = snd (?w ?c)"
    by (simp only: pb_WriteRequest_call assms(2,3))
  have manager: "cc_manager (fst (?w ?c')) = cc_manager (fst (?w ?c))"
    and ctx: "cc_ctx (fst (?w ?c')) = cc_ctx (fst (?w ?c))"
    using assms(2,3)
    by (auto simp: pb_WriteRequest_def Let_def createRPCClient_fields request_eqI split: sum.split prod.split)
  have topic: "pb_request_topic cl' dev rid = pb_request_topic cl dev rid"
    using assms(1) by (simp add: pb_request_topic_def)
  obtain c1 out c1' where run: "?w ?c = (c1, out)" "?w ?c' = (c1', out)"
    using written by (metis prod.collapse)
  with manager have m: "cc_manager c1' = cc_manager c1" by simp
  note unfold = pb_Call_def picks Let_def topic call_encoding_def [symmetric] run
  show ?thesis
  proof (cases ending)
    case (Answered bs)
    obtain x r where "rpc_input env extract pick target bs c1 = (x, r)" by (metis surj_pair)
    moreover from this obtain x' where "rpc_input env extract pick target bs c1' = (x', r)"
      using rpc_input_same [OF m, of env "extract" pick target bs] by (metis prod.collapse snd_conv)
    ultimately show ?thesis using Answered by (simp add: unfold split: sum.split)
  next
    case (CtxDone e)
    then show ?thesis by (simp add: unfold split: sum.split)
  qed
qed

section \<open>A call from end to end\<close>

text \<open>
  A handler of one request and one response, as the examples write them: it binds the request to
  a message of its type, answers an error when that fails, and otherwise what \<open>f\<close> makes of
  the message.
\<close>

definition unary_handler ::
  "string \<Rightarrow> ('p \<Rightarrow> ('p, 'o) pb_value response) \<Rightarrow> int \<Rightarrow>
   (pb_world, ('p, 'o) pb_value, 'x) handler" where
  "unary_handler argtype f timeout =
     \<lparr>h_Method = (\<lambda>c. HBind (GoType True argtype) (\<lambda>b.
          case b of
            Inr (ProtoMessage a) \<Rightarrow> HReply (Some (f a)) (\<lambda>_. HReturn)
          | Inr (OtherValue u) \<Rightarrow> HReturn
          | Inl e \<Rightarrow> HReply (Some (error_response RPCStatusServerError (Some e))) (\<lambda>_. HReturn))),
      h_Timeout = timeout\<rparr>"

text \<open>What the server makes of the request that the client wrote.\<close>

lemma norm_body_eq_Some:
  "norm_body b = Some a \<longleftrightarrow> (\<exists>a'. b = Some a' \<and> a = a'\<lparr>Value := norm_value (Value a')\<rparr>)"
  by (cases b) (auto simp: norm_body_def)

lemma norm_any_eq:
  fixes a a' :: any
  shows "a\<lparr>Value := norm_value (Value a)\<rparr> = a'\<lparr>Value := norm_value (Value a')\<rparr> \<longleftrightarrow>
   TypeUrl a = TypeUrl a' \<and> norm_value (Value a) = norm_value (Value a')"
  by (cases a; cases a') auto

lemma norm_body_same:
  assumes "norm_body b = norm_body (Some a)"
  obtains a' where "b = Some a'" "TypeUrl a' = TypeUrl a" "norm_value (Value a') = norm_value (Value a)"
  using assms by (cases b) (auto simp: norm_body_def norm_any_eq)

lemma norm_request_body: "norm_request q = norm_request q' \<Longrightarrow> norm_body (q_Body q) = norm_body (q_Body q')"
  by (cases q; cases q') (simp add: norm_request_def)

lemma norm_response_body: "norm_response q = norm_response q' \<Longrightarrow> norm_body (p_Body q) = norm_body (p_Body q')"
  by (cases q; cases q') (simp add: norm_response_def)

lemma received_request:
  assumes "norm_request req' = norm_request (call_request inject px ctx enc meth args val md)"
  obtains body where "q_Id req' = 0" "q_Method req' = meth" "q_Encoding req' = enc"
    "q_Body req' = Some body" "TypeUrl body = px_TypeOf px args" "norm_value (Value body) = norm_value (Some val)"
proof -
  from norm_request_body [OF assms] obtain body where
    "q_Body req' = Some body" "TypeUrl body = px_TypeOf px args" "norm_value (Value body) = norm_value (Some val)"
    by (auto simp: call_request_def elim!: norm_body_same)
  moreover have "q_Id req' = 0" "q_Method req' = meth" "q_Encoding req' = enc"
    using assms by (cases req'; simp add: norm_request_def call_request_def)+
  ultimately show ?thesis using that by blast
qed

text \<open>Parsing a message from its own bytes, whether or not the wire made an empty string nil.\<close>

lemma lawful_parse:
  assumes "lawful_messages px" and "px_MarshalMsg px msg = Inr val" and "norm_value v = norm_value (Some val)"
  shows "px_UnmarshalMsg px (px_TypeOf px msg) v = Inr msg"
proof -
  have "v = norm_value (Some val) \<or> v = Some val"
    using assms(3) by (cases v; cases "val = []") (auto simp: norm_value_def split: if_splits)
  with assms(1,2) show ?thesis unfolding lawful_messages_def by blast
qed

lemma answer_result_norm:
  assumes "norm_response got = norm_response rsp"
    and "\<And>v a. p_Body rsp = Some a \<Longrightarrow> norm_value v = norm_value (Value a) \<Longrightarrow>
      px_UnmarshalMsg px (type_string target) v = px_UnmarshalMsg px (type_string target) (Value a)"
  shows "answer_result px target got = answer_result px target rsp"
proof -
  have "norm_body (p_Body got) = norm_body (p_Body rsp)" using assms(1) by (rule norm_response_body)
  then consider "p_Body got = None" "p_Body rsp = None"
    | a a' where "p_Body got = Some a" "p_Body rsp = Some a'" "TypeUrl a = TypeUrl a'"
        "norm_value (Value a) = norm_value (Value a')"
    by (cases "p_Body rsp") (auto simp: norm_body_def norm_any_eq)
  then show ?thesis
  proof cases
    case 1
    with norm_response_fields [OF assms(1)] show ?thesis by (simp add: answer_result_def)
  next
    case (2 a a')
    from assms(2) [of a' "Value a"] 2
    have "px_UnmarshalMsg px (type_string target) (Value a) = px_UnmarshalMsg px (type_string target) (Value a')"
      by simp
    with norm_response_fields [OF assms(1)] 2 show ?thesis by (simp add: answer_result_def)
  qed
qed

text \<open>The request is served: it parses, and its context binds to the message that was sent.\<close>

lemma request_served:
  assumes "pb_env_ok env" and "lawful_messages (pe_proto env)" and "pool_ok cm" and "pool_ok (w_manager w)"
    and "px_MarshalMsg (pe_proto env) args = Inr val"
    and "client_Marshal (pe_streams env) (pe_proto env) pw pb
       (call_request inject (pe_proto env) ctx enc meth args val md) cm = (m1, Inr data)"
  obtains w1 req x where
    "pb_receive env extr background (fst (conn_Write topic DefaultQoS data)) w =
       (w1, Some (pb_child env x \<lparr>rd_Topic = topic, rd_Request = req\<rparr>))"
    "pool_ok (w_manager w1)" "w_published w1 = w_published w"
    "q_Id req = 0" "q_Method req = meth" "q_Encoding req = enc"
    "pb_Bind (pe_proto env) \<lparr>rd_Topic = topic, rd_Request = req\<rparr> (GoType True (px_TypeOf (pe_proto env) args))
       = Ret (Inr (ProtoMessage args))"
proof -
  obtain m' req err where run: "server_Unmarshal (pe_streams env) (pe_proto env)
      (fst (w_picks w (w_calls w))) data (w_manager w) = (m', req, err)"
    by (metis surj_pair)
  from request_round_trip_lemma [OF assms(3) _ _ assms(6) run] assms(1)
  have ok: "err = None" "norm_request req = norm_request (call_request inject (pe_proto env) ctx enc meth args val md)"
    by (simp_all add: pb_env_ok_def)
  from received_request [OF ok(2)] obtain body where req: "q_Id req = 0" "q_Method req = meth" "q_Encoding req = enc"
    "q_Body req = Some body" "TypeUrl body = px_TypeOf (pe_proto env) args"
    "norm_value (Value body) = norm_value (Some val)" by blast
  show ?thesis
  proof (rule that [of "w\<lparr>w_manager := m', w_calls := Suc (w_calls w)\<rparr>"
        "NewMQTTContext_ctx extr background (q_Metadata req)" req])
    show "pb_receive env extr background (fst (conn_Write topic DefaultQoS data)) w =
       (w\<lparr>w_manager := m', w_calls := Suc (w_calls w)\<rparr>,
        Some (pb_child env (NewMQTTContext_ctx extr background (q_Metadata req)) \<lparr>rd_Topic = topic, rd_Request = req\<rparr>))"
      using run ok(1) by (simp add: pb_receive_def conn_Write_def Let_def)
    show "pb_Bind (pe_proto env) \<lparr>rd_Topic = topic, rd_Request = req\<rparr> (GoType True (px_TypeOf (pe_proto env) args))
       = Ret (Inr (ProtoMessage args))"
      using req lawful_parse [OF assms(2,5) req(6)] by (simp add: pb_Bind_def)
  qed (simp_all add: req server_Unmarshal_pool_ok [OF assms(4) run])
qed

text \<open>A response that serialises is published when it is replied.\<close>

definition serialises :: "'p pb_env \<Rightarrow> pb_response \<Rightarrow> bool" where
  "serialises env rsp \<longleftrightarrow>
     (\<exists>v b. body_value (pe_streams env) (p_Encoding rsp) (p_Body rsp) = (v, None)
          \<and> px_MarshalResponse (pe_proto env) (rsp\<lparr>p_Body := with_value v (p_Body rsp)\<rparr>) = Inr b)"

lemma pb_reply_serialises:
  assumes "pool_ok (w_manager w)" and "pb_env_ok env" and "serialises env (rs_Response rs)"
  obtains w' msg where "pb_reply env (Some rs) w = (w', Ret None)" "w_published w' = w_published w @ [msg]"
    "m_Topic msg = rs_Topic rs"
proof -
  obtain m' out where run: "server_Marshal (pe_streams env) (pe_proto env) (fst (w_picks w (w_calls w)))
      (snd (w_picks w (w_calls w))) (rs_Response rs) (w_manager w) = (m', out)" by (metis surj_pair)
  from server_Marshal_value(2) [OF assms(1) _ run] assms(2,3) obtain b where "out = Inr b"
    by (auto simp: pb_env_ok_def serialises_def)
  with run show ?thesis
    by (intro that [of _ "\<lparr>m_Topic = rs_Topic rs, m_QoS = DefaultQoS, m_Retained = False, m_Payload = b\<rparr>"])
      (auto simp: pb_reply_def)
qed

text \<open>What the handler leaves when it is run alone on a request that binds.\<close>

lemma unary_handler_run:
  assumes "c_Bind child (GoType True argtype) = Ret (Inr (ProtoMessage a))"
    and "c_Reply child w (Some (f a)) = (w', Ret b)"
  shows "job_result child (unary_handler argtype f timeout) (NewRequestContext w) =
    \<lparr>replyed = True, res = Some (f a), world = w', sent = [Some (f a)]\<rparr>"
  using assms
  by (simp add: job_result_def job_prog_def unary_handler_def reply_error_prog_def Reply_def
      NewRequestContext_def child_reply_def setResponse_def)

lemma unary_handler_no_nil: "no_nil_reply (h_Method (unary_handler argtype f timeout) c)"
  by (simp add: unary_handler_def split: sum.split pb_value.split)

text \<open>What a client reads does not depend on the state of its compressor.\<close>

lemma client_Unmarshal_any_manager:
  "snd (client_Unmarshal ext px pick bs m) = snd (client_Unmarshal ext px pick bs m')"
proof -
  have "snd (client_Unmarshal ext px pick bs m) =
      (case px_UnmarshalResponse px bs of
         (rsp, Some e) \<Rightarrow> (rsp, Some e)
       | (rsp, None) \<Rightarrow>
           (case p_Body rsp of
              None \<Rightarrow> (rsp, None)
            | Some a \<Rightarrow>
                (case decompress_value ext (convertEncoding (p_Encoding rsp)) (Value a) of
                   (v, Some e) \<Rightarrow> (rsp, Some e)
                 | (v, None) \<Rightarrow> (rsp\<lparr>p_Body := with_value v (p_Body rsp)\<rparr>, None))))" for m
  proof -
    obtain rsp err where rsp: "px_UnmarshalResponse px bs = (rsp, err)" by (metis surj_pair)
    show ?thesis
    proof (cases "err = None \<and> p_Body rsp \<noteq> None")
      case True
      then obtain a where a: "err = None" "p_Body rsp = Some a" by auto
      obtain m1 v e where run: "Decompress ext pick (convertEncoding (p_Encoding rsp)) (Value a) m = (m1, (v, e))"
        by (metis surj_pair)
      from Decompress_computes(1) [OF run]
      have "decompress_value ext (convertEncoding (p_Encoding rsp)) (Value a) = (map_option (read_slice m1) v, e)"
        by (simp add: read_result_def)
      with run a rsp show ?thesis by (cases e) (simp_all add: client_Unmarshal_def)
    next
      case False
      with rsp show ?thesis by (cases err) (auto simp: client_Unmarshal_def)
    qed
  qed
  then show ?thesis by simp
qed

lemma reply_decodes:
  assumes "pool_ok (w_manager w)" and "pb_env_ok env"
    and "pb_reply env (Some rs) w = (w', out)" and "w_published w' = w_published w @ [msg]"
    and "norm_response (rs_Response rs) \<noteq> empty_response"
  obtains got where "decodes_to env pick (m_Payload msg) got" "m_Payload msg \<noteq> []"
    "norm_response got = norm_response (rs_Response rs)"
proof -
  let ?read = "client_Unmarshal (pe_streams env) (pe_proto env) pick (m_Payload msg)"
  obtain m' got err where read: "?read NewCompressorManager = (m', got, err)" by (metis surj_pair)
  from pb_reply_message [OF assms(1-4) this]
  have got: "err = None" "norm_response got = norm_response (rs_Response rs)" by simp_all
  then have "snd (?read m) = (got, None)" for m
    using read client_Unmarshal_any_manager [of "pe_streams env" "pe_proto env" pick "m_Payload msg" m NewCompressorManager] by simp
  then have dec: "decodes_to env pick (m_Payload msg) got"
    unfolding decodes_to_def by (metis prod.collapse)
  moreover have "m_Payload msg \<noteq> []"
  proof
    assume "m_Payload msg = []"
    moreover have "px_UnmarshalResponse (pe_proto env) [] = (empty_response, None)"
      using assms(2) by (simp add: pb_env_ok_def lawful_proto_def)
    ultimately have "got = empty_response"
      using read by (simp add: client_Unmarshal_def empty_response_def)
    with got(2) assms(5) show False by (simp add: empty_response_def norm_response_def norm_metadata_def norm_body_def)
  qed
  ultimately show ?thesis using got(2) by (rule that)
qed

lemma pb_response_for_cong:
  "q_Id req' = q_Id req \<Longrightarrow> q_Encoding req' = q_Encoding req \<Longrightarrow>
   pb_response_for px \<lparr>rd_Topic = topic, rd_Request = req'\<rparr> x = pb_response_for px \<lparr>rd_Topic = topic, rd_Request = req\<rparr> x"
  by (simp add: pb_response_for_def MakeOKResponse_def MakeErrResponse_def RequestData_GetResponse_def
      GetReplyTopic_def Let_def split: option.split pb_value.split)

lemma end_to_end:
  fixes env :: "'p pb_env" and f :: "'p \<Rightarrow> ('p, 'o) pb_value response"
    and pooled :: "'x rpc_codec option"
  assumes env: "pb_env_ok env" "lawful_messages (pe_proto env)"
    and pools: "pool_ok (cc_manager (codec_of cl pooled))" "pool_ok (w_manager w)"
    and args: "px_MarshalMsg (pe_proto env) args = Inr val"
    and sent: "client_Marshal (pe_streams env) (pe_proto env) pw pb
       (call_request inject (pe_proto env) ctx (call_encoding opts) meth args val
          (q_Metadata (cc_request (codec_of cl pooled)))) (cc_manager (codec_of cl pooled)) = (m1, Inr data)"
    and rs: "pb_response_for (pe_proto env) \<lparr>rd_Topic = pb_request_topic cl dev rid,
       rd_Request = empty_request\<lparr>q_Encoding := call_encoding opts\<rparr>\<rparr> (f args) = Some rs"
    and answer: "serialises env (rs_Response rs)" "norm_response (rs_Response rs) \<noteq> empty_response"
      "\<And>v a. p_Body (rs_Response rs) = Some a \<Longrightarrow> norm_value v = norm_value (Value a) \<Longrightarrow>
        px_UnmarshalMsg (pe_proto env) (type_string target) v
        = px_UnmarshalMsg (pe_proto env) (type_string target) (Value a)"
  obtains w1 and child :: "(pb_world, ('p, 'o) pb_value, 'x) child" where
    "pb_receive env extr background (fst (conn_Write (pb_request_topic cl dev rid) DefaultQoS data)) w = (w1, Some child)"
    "c_Method child = meth"
    "\<And>srv :: (pb_world, ('p, 'o) pb_value, 'x, 'u) server. \<And>elapsed allow wait timeout.
       dispatched srv child allow wait (unary_handler (px_TypeOf (pe_proto env) args) f timeout) \<Longrightarrow>
       \<exists>n st fx answer. call_run srv child elapsed (replicate n WorkerStep @ [MainStep])
                  (call_start srv child allow wait w1) = Some st
         \<and> pc st = Returned fx \<and> w_published (world (sh st)) = w_published w @ [answer]
         \<and> m_Topic answer = strings_Replace request_word response_word 1 (pb_request_topic cl dev rid)
         \<and> snd (snd (pb_Call env inject extract (pw, pb, pick) cl ctx dev rid meth args target opts pooled
                      (Answered (m_Payload answer)))) = answer_result (pe_proto env) target (rs_Response rs)"
proof -
  let ?topic = "pb_request_topic cl dev rid"
  show ?thesis
  proof (rule request_served [OF env pools args sent, where extr = extr and background = background and topic = ?topic])
  fix w1 req x
  assume served: "pb_receive env extr background (fst (conn_Write ?topic DefaultQoS data)) w =
       (w1, Some (pb_child env x \<lparr>rd_Topic = ?topic, rd_Request = req\<rparr>
                    :: (pb_world, ('p, 'o) pb_value, 'x) child))"
    and w1: "pool_ok (w_manager w1)" "w_published w1 = w_published w"
    and req: "q_Id req = 0" "q_Method req = meth" "q_Encoding req = call_encoding opts"
    and bind: "pb_Bind (pe_proto env) \<lparr>rd_Topic = ?topic, rd_Request = req\<rparr>
       (GoType True (px_TypeOf (pe_proto env) args)) = Ret (Inr (ProtoMessage args :: ('p, 'o) pb_value))"
  let ?r = "\<lparr>rd_Topic = ?topic, rd_Request = req\<rparr>"
  let ?child = "pb_child env x ?r :: (pb_world, ('p, 'o) pb_value, 'x) child"
  have rs': "pb_response_for (pe_proto env) ?r (f args) = Some rs"
    using rs req pb_response_for_cong [of req "empty_request\<lparr>q_Encoding := call_encoding opts\<rparr>"
        "pe_proto env" ?topic "f args"]
    by (simp add: empty_request_def)
  from pb_reply_serialises [OF w1(1) env(1) answer(1)] obtain w2 msg where
    reply: "pb_reply env (Some rs) w1 = (w2, Ret None)" "w_published w2 = w_published w1 @ [msg]"
      "m_Topic msg = rs_Topic rs" by blast
  have c_reply: "c_Reply ?child w1 (Some (f args)) = (w2, Ret True)"
    by (simp add: pb_child_def pb_Reply_def rs' reply(1))
  have c_bind: "c_Bind ?child (GoType True (px_TypeOf (pe_proto env) args)) = Ret (Inr (ProtoMessage args))"
    using bind by (simp add: pb_child_def)
  from reply_decodes [OF w1(1) env(1) reply(1,2) answer(2)] obtain got where
    got: "decodes_to env pick (m_Payload msg) got" "m_Payload msg \<noteq> []"
      "norm_response got = norm_response (rs_Response rs)" by blast
  have result: "snd (snd (pb_Call env inject extract (pw, pb, pick) cl ctx dev rid meth args target opts pooled
      (Answered (m_Payload msg)))) = answer_result (pe_proto env) target (rs_Response rs)"
    using answered_call [OF args sent got(1,2)] answer_result_norm [OF got(3) answer(3)] by simp
  show ?thesis
  proof (rule that [OF served])
    show "c_Method ?child = meth" using req by (simp add: pb_child_def)
  next
    fix srv :: "(pb_world, ('p, 'o) pb_value, 'x, 'u) server" and elapsed allow wait timeout
    assume disp: "dispatched srv ?child allow wait (unary_handler (px_TypeOf (pe_proto env) args) f timeout)"
    from admitted_returns [OF disp pb_context.transport_errors unary_handler_no_nil, of elapsed w1]
    obtain n st fx where "call_run srv ?child elapsed (replicate n WorkerStep @ [MainStep])
        (call_start srv ?child allow wait w1) = Some st" "pc st = Returned fx"
      "sh st = job_result ?child (unary_handler (px_TypeOf (pe_proto env) args) f timeout) (NewRequestContext w1)"
      by blast
    then show "\<exists>n st fx answer. call_run srv ?child elapsed (replicate n WorkerStep @ [MainStep])
                  (call_start srv ?child allow wait w1) = Some st
         \<and> pc st = Returned fx \<and> w_published (world (sh st)) = w_published w @ [answer]
         \<and> m_Topic answer = strings_Replace request_word response_word 1 ?topic
         \<and> snd (snd (pb_Call env inject extract (pw, pb, pick) cl ctx dev rid meth args target opts pooled
                      (Answered (m_Payload answer)))) = answer_result (pe_proto env) target (rs_Response rs)"
      using unary_handler_run [where f = f, OF c_bind c_reply, of timeout] reply(2,3) w1(2) response_topic(4) [OF rs'] result
      by (intro exI [of _ n] exI [of _ st] exI [of _ fx] exI [of _ msg]) (simp add: GetReplyTopic_def)
  qed
qed
qed

section \<open>Topics\<close>

lemma pb_topics:
  assumes "plain_segment rid"
  shows "pb_request_topic cl dev rid = topic_path (pc_topicPrefix cl) dev [request_word, rid]"
    and "pb_response_topic cl dev rid = topic_path (pc_topicPrefix cl) dev [response_word, rid]"
  using Join_topic4 [OF _ assms, of request_word] Join_topic4 [OF _ assms, of response_word]
    request_word_facts(4,5)
  by (simp_all add: pb_request_topic_def pb_response_topic_def word_defs)

lemma pb_reply_topic:
  assumes "plain_segment rid"
  shows "strings_Replace request_word response_word 1 (pb_request_topic cl dev rid) = pb_response_topic cl dev rid
    \<longleftrightarrow> word_free (topic_levels (pc_topicPrefix cl) dev)"
  using assms ReplaceFirst_request_topic [of rid]
  by (simp add: pb_topics plain_segment_def)

text \<open>
  C39. A server answers on the topic that the client listens on exactly when the word "request" does
  not occur in a level of the prefix or the device.
\<close>

theorem pb_answers_meet_client_iff:
  assumes "plain_segment rid" and "rd_Topic r = pb_request_topic cl dev rid"
  shows "GetReplyTopic r = pb_response_topic cl dev rid \<longleftrightarrow> word_free (topic_levels (pc_topicPrefix cl) dev)"
  using pb_reply_topic [OF assms(1)] assms(2) by (simp add: GetReplyTopic_def)

lemma pb_subscribeTopic:
  "ps_subscribeTopic (fst (pb_NewServer uuid cpus pfx dev opts)) = topic_path pfx dev [request_word, ''+'']"
  using Join_topic3 [of request_word "''+''" pfx dev] request_word_facts(4)
  by (simp add: pb_NewServer_def Let_def word_defs plain_segment_def)

text \<open>
  The topic a server subscribes to and the request topics of clients for the same prefix and
  device have the same levels, but for the last one, where the subscription has its wildcard; two
  calls have the same topic only with the same identifier.
\<close>

lemma pb_subscription_covers_requests:
  assumes "plain_segment rid" and "plain_segment rid'"
  shows "\<exists>levels.
      split_on CHR ''/'' (ps_subscribeTopic (fst (pb_NewServer uuid cpus (pc_topicPrefix cl) dev opts)))
        = levels @ [''request'', ''+'']
    \<and> split_on CHR ''/'' (pb_request_topic cl dev rid) = levels @ [''request'', rid]
    \<and> (pb_request_topic cl dev rid = pb_request_topic cl dev rid' \<longrightarrow> rid = rid')"
proof -
  let ?levels = "(if is_rooted (topic_buf (pc_topicPrefix cl) dev) then [[]] else [])
    @ topic_levels (pc_topicPrefix cl) dev"
  have free: "CHR ''/'' \<notin> set rid" "CHR ''/'' \<notin> set rid'"
    using assms by (simp_all add: plain_segment_def)
  have "split_on CHR ''/'' (topic_path (pc_topicPrefix cl) dev [request_word, ''+''])
        = ?levels @ [''request'', ''+'']"
    by (subst split_topic_path) (auto simp: word_defs)
  moreover have "split_on CHR ''/'' (pb_request_topic cl dev rid) = ?levels @ [''request'', rid]"
    using free unfolding pb_topics [OF assms(1)] by (subst split_topic_path) (auto simp: word_defs)
  moreover have "rid = rid'" if "pb_request_topic cl dev rid = pb_request_topic cl dev rid'"
    using that topic_path_inject [of "[request_word, rid]" "[request_word, rid']"] free request_word_facts(1)
    unfolding pb_topics [OF assms(1)] pb_topics [OF assms(2)] by auto
  ultimately show ?thesis unfolding pb_subscribeTopic by blast
qed

section \<open>The properties of calls\<close>

lemma dispatchedI:
  "admits srv allow wait \<Longrightarrow> handlerMap srv meth = Some (Some hdl) \<Longrightarrow> c_Method child = meth \<Longrightarrow>
   dispatched srv child allow wait hdl"
  by (simp add: dispatched_def admits_def)

lemma end_to_end_topic:
  fixes env :: "'p pb_env" and f :: "'p \<Rightarrow> ('p, 'o) pb_value response"
    and pooled :: "'x rpc_codec option" and srv :: "(pb_world, ('p, 'o) pb_value, 'x, 'u) server"
  assumes env: "pb_env_ok env" "lawful_messages (pe_proto env)"
    and pools: "pool_ok (cc_manager (codec_of cl pooled))" "pool_ok (w_manager w)"
    and args: "px_MarshalMsg (pe_proto env) args = Inr val"
    and sent: "client_Marshal (pe_streams env) (pe_proto env) pw pb
       (call_request inject (pe_proto env) ctx (call_encoding opts) meth args val
          (q_Metadata (cc_request (codec_of cl pooled)))) (cc_manager (codec_of cl pooled)) = (m1, Inr data)"
    and topic: "plain_segment rid" "word_free (topic_levels (pc_topicPrefix cl) dev)"
    and served: "admits srv allow wait"
      "handlerMap srv meth = Some (Some (unary_handler (px_TypeOf (pe_proto env) args) f timeout))"
    and rs: "pb_response_for (pe_proto env) \<lparr>rd_Topic = pb_request_topic cl dev rid,
       rd_Request = empty_request\<lparr>q_Encoding := call_encoding opts\<rparr>\<rparr> (f args) = Some rs"
    and answer: "serialises env (rs_Response rs)" "norm_response (rs_Response rs) \<noteq> empty_response"
      "\<And>v a. p_Body (rs_Response rs) = Some a \<Longrightarrow> norm_value v = norm_value (Value a) \<Longrightarrow>
        px_UnmarshalMsg (pe_proto env) (type_string target) v
        = px_UnmarshalMsg (pe_proto env) (type_string target) (Value a)"
    and result: "answer_result (pe_proto env) target (rs_Response rs) = r"
  shows "\<exists>w1 child n st fx ans.
      pb_receive env extr background (fst (conn_Write (pb_request_topic cl dev rid) DefaultQoS data)) w = (w1, Some child)
    \<and> call_run srv child elapsed (replicate n WorkerStep @ [MainStep]) (call_start srv child allow wait w1) = Some st
    \<and> pc st = Returned fx \<and> w_published (world (sh st)) = w_published w @ [ans]
    \<and> m_Topic ans = pb_response_topic cl dev rid
    \<and> snd (snd (pb_Call env inject extract (pw, pb, pick) cl ctx dev rid meth args
                 target opts pooled (Answered (m_Payload ans)))) = r"
proof (rule end_to_end [where f = f and target = target and extr = extr and background = background
      and ?'u = 'u, OF env pools args sent rs answer])
  fix w1 and child :: "(pb_world, ('p, 'o) pb_value, 'x) child"
  assume received: "pb_receive env extr background (fst (conn_Write (pb_request_topic cl dev rid) DefaultQoS data)) w
      = (w1, Some child)" and meth: "c_Method child = meth"
    and run: "\<And>srv :: (pb_world, ('p, 'o) pb_value, 'x, 'u) server. \<And>elapsed allow wait timeout.
       dispatched srv child allow wait (unary_handler (px_TypeOf (pe_proto env) args) f timeout) \<Longrightarrow>
       \<exists>n st fx answer. call_run srv child elapsed (replicate n WorkerStep @ [MainStep])
                  (call_start srv child allow wait w1) = Some st
         \<and> pc st = Returned fx \<and> w_published (world (sh st)) = w_published w @ [answer]
         \<and> m_Topic answer = strings_Replace request_word response_word 1 (pb_request_topic cl dev rid)
         \<and> snd (snd (pb_Call env inject extract (pw, pb, pick) cl ctx dev rid meth args target opts pooled
                      (Answered (m_Payload answer)))) = answer_result (pe_proto env) target (rs_Response rs)"
  have "strings_Replace request_word response_word 1 (pb_request_topic cl dev rid) = pb_response_topic cl dev rid"
    using pb_reply_topic [OF topic(1)] topic(2) by blast
  with run [OF dispatchedI [OF served meth], of elapsed] received result show ?thesis
    by (intro exI [of _ w1] exI [of _ child]) simp
qed

text \<open>
  C2. A call from end to end: the client writes a request, the server parses it, binds it, runs the
  handler and publishes its answer on the topic the client listens on; the client's call returns
  without an error and with the message the handler replied.
\<close>

theorem pb_call_end_to_end:
  fixes env :: "'p pb_env" and f :: "'p \<Rightarrow> ('p, 'o) pb_value response"
    and pooled :: "'x rpc_codec option" and srv :: "(pb_world, ('p, 'o) pb_value, 'x, 'u) server"
  assumes env: "pb_env_ok env" "lawful_messages (pe_proto env)"
    and pools: "pool_ok (cc_manager (codec_of cl pooled))" "pool_ok (w_manager w)"
    and args: "px_MarshalMsg (pe_proto env) args = Inr val"
    and sent: "client_Marshal (pe_streams env) (pe_proto env) pw pb
       (call_request inject (pe_proto env) ctx (call_encoding opts) meth args val
          (q_Metadata (cc_request (codec_of cl pooled)))) (cc_manager (codec_of cl pooled)) = (m1, Inr data)"
    and topic: "plain_segment rid" "word_free (topic_levels (pc_topicPrefix cl) dev)"
    and served: "admits srv allow wait"
      "handlerMap srv meth = Some (Some (unary_handler (px_TypeOf (pe_proto env) args) f timeout))"
    and answer: "f args = ok_response (Some (ProtoMessage reply))"
      "px_MarshalMsg (pe_proto env) reply = Inr rval" "rval \<noteq> []"
      "serialises env (empty_response\<lparr>p_Status := 200, p_Encoding := call_encoding opts,
         p_Body := Some \<lparr>TypeUrl = px_TypeOf (pe_proto env) reply, Value = Some rval\<rparr>\<rparr>)"
  shows "\<exists>w1 child n st fx ans.
      pb_receive env extr background (fst (conn_Write (pb_request_topic cl dev rid) DefaultQoS data)) w = (w1, Some child)
    \<and> call_run srv child elapsed (replicate n WorkerStep @ [MainStep]) (call_start srv child allow wait w1) = Some st
    \<and> pc st = Returned fx \<and> w_published (world (sh st)) = w_published w @ [ans]
    \<and> m_Topic ans = pb_response_topic cl dev rid
    \<and> snd (snd (pb_Call env inject extract (pw, pb, pick) cl ctx dev rid meth args
                 (GoType True (px_TypeOf (pe_proto env) reply)) opts pooled (Answered (m_Payload ans))))
        = (None, Some reply)"
proof -
  let ?rs = "\<lparr>rs_Topic = pb_response_topic cl dev rid,
    rs_Response = empty_response\<lparr>p_Status := 200, p_Encoding := call_encoding opts,
         p_Body := Some \<lparr>TypeUrl = px_TypeOf (pe_proto env) reply, Value = Some rval\<rparr>\<rparr>\<rparr>"
  let ?target = "GoType True (px_TypeOf (pe_proto env) reply)"
  have reply_topic: "strings_Replace request_word response_word 1 (pb_request_topic cl dev rid) = pb_response_topic cl dev rid"
    using pb_reply_topic [OF topic(1)] topic(2) by blast
  have rs: "pb_response_for (pe_proto env) \<lparr>rd_Topic = pb_request_topic cl dev rid,
       rd_Request = empty_request\<lparr>q_Encoding := call_encoding opts\<rparr>\<rparr> (f args) = Some ?rs"
    using answer(2) reply_topic
    by (simp add: answer(1) pb_response_for_def ok_response_def MakeOKResponse_def
        RequestData_GetResponse_def GetReplyTopic_def empty_response_def empty_request_def RPCStatusOK_def)
  have parse: "px_UnmarshalMsg (pe_proto env) (type_string ?target) v
      = px_UnmarshalMsg (pe_proto env) (type_string ?target) (Value a)"
    if "p_Body (rs_Response ?rs) = Some a" "norm_value v = norm_value (Value a)" for v a
    using that lawful_parse [OF env(2) answer(2), of v] lawful_parse [OF env(2) answer(2), of "Some rval"]
    by auto
  have result: "answer_result (pe_proto env) ?target (rs_Response ?rs) = (None, Some reply)"
    using answer(3) lawful_parse [OF env(2) answer(2), of "Some rval"]
    by (simp add: answer_result_def empty_response_def)
  have "norm_response (rs_Response ?rs) \<noteq> empty_response"
    by (simp add: norm_response_def empty_response_def)
  show ?thesis
    by (rule end_to_end_topic [where f = f, OF env pools args sent topic served rs _ \<open>norm_response _ \<noteq> _\<close> parse result])
      (simp add: answer(4))
qed

text \<open>
  C27. The same for an error that a handler replies: the client's call returns it as a server error
  with the same text, and leaves its reply untouched.
\<close>

theorem pb_error_end_to_end:
  fixes env :: "'p pb_env" and f :: "'p \<Rightarrow> ('p, 'o) pb_value response"
    and pooled :: "'x rpc_codec option" and srv :: "(pb_world, ('p, 'o) pb_value, 'x, 'u) server"
  assumes env: "pb_env_ok env" "lawful_messages (pe_proto env)"
    and pools: "pool_ok (cc_manager (codec_of cl pooled))" "pool_ok (w_manager w)"
    and args: "px_MarshalMsg (pe_proto env) args = Inr val"
    and sent: "client_Marshal (pe_streams env) (pe_proto env) pw pb
       (call_request inject (pe_proto env) ctx (call_encoding opts) meth args val
          (q_Metadata (cc_request (codec_of cl pooled)))) (cc_manager (codec_of cl pooled)) = (m1, Inr data)"
    and topic: "plain_segment rid" "word_free (topic_levels (pc_topicPrefix cl) dev)"
    and served: "admits srv allow wait"
      "handlerMap srv meth = Some (Some (unary_handler (px_TypeOf (pe_proto env) args) f timeout))"
    and answer: "f args = error_response status (Some e)" "error_text e \<noteq> []"
      "serialises env (empty_response\<lparr>p_Status := word_of_int status, p_ErrorMessage := error_text e,
         p_Encoding := call_encoding opts\<rparr>)"
  shows "\<exists>w1 child n st fx ans.
      pb_receive env extr background (fst (conn_Write (pb_request_topic cl dev rid) DefaultQoS data)) w = (w1, Some child)
    \<and> call_run srv child elapsed (replicate n WorkerStep @ [MainStep]) (call_start srv child allow wait w1) = Some st
    \<and> pc st = Returned fx \<and> w_published (world (sh st)) = w_published w @ [ans]
    \<and> m_Topic ans = pb_response_topic cl dev rid
    \<and> snd (snd (pb_Call env inject extract (pw, pb, pick) cl ctx dev rid meth args
                 target opts pooled (Answered (m_Payload ans)))) = (Some (ServerError (error_text e)), None)"
proof -
  let ?rs = "\<lparr>rs_Topic = pb_response_topic cl dev rid,
    rs_Response = empty_response\<lparr>p_Status := word_of_int status, p_ErrorMessage := error_text e,
         p_Encoding := call_encoding opts\<rparr>\<rparr>"
  have reply_topic: "strings_Replace request_word response_word 1 (pb_request_topic cl dev rid) = pb_response_topic cl dev rid"
    using pb_reply_topic [OF topic(1)] topic(2) by blast
  have rs: "pb_response_for (pe_proto env) \<lparr>rd_Topic = pb_request_topic cl dev rid,
       rd_Request = empty_request\<lparr>q_Encoding := call_encoding opts\<rparr>\<rparr> (f args) = Some ?rs"
    using reply_topic
    by (simp add: answer(1) pb_response_for_def error_response_def MakeErrResponse_def
        RequestData_GetResponse_def GetReplyTopic_def empty_response_def empty_request_def)
  have result: "answer_result (pe_proto env) target (rs_Response ?rs) = (Some (ServerError (error_text e)), None)"
    using answer(2) by (simp add: answer_result_def empty_response_def)
  have nonempty: "norm_response (rs_Response ?rs) \<noteq> empty_response"
    using answer(2) by (simp add: norm_response_def empty_response_def)
  show ?thesis
    by (rule end_to_end_topic [where f = f, OF env pools args sent topic served rs _ nonempty _ result])
      (simp_all add: answer(3), simp add: empty_response_def)
qed

section \<open>Concrete calls\<close>

definition demo_client :: pb_client where
  "demo_client = fst (pb_NewClient ''a'' ContentEncoding_BROTLI)"

definition demo_args :: "string \<times> bytes" where "demo_args = (''*test.Hello'', [5, 6])"
definition demo_reply :: "string \<times> bytes" where "demo_reply = (''*test.Hello'', [7, 8])"

definition demo_wire_request :: request where
  "demo_wire_request = \<lparr>q_Id = 0, q_Method = ''hello'', q_Encoding = 1, q_Metadata = Some Map.empty,
     q_Body = Some (hello_any [1, 5, 6, 9])\<rparr>"

definition demo_env :: "(string \<times> bytes) pb_env" where
  "demo_env = \<lparr>pe_streams = framing, pe_proto = table_proto [demo_wire_request]
     [hello_response 0 [1, 7, 8, 9],
      empty_response\<lparr>p_Status := 400, p_ErrorMessage := ''no'', p_Encoding := 1\<rparr>,
      empty_response\<lparr>p_Status := 500, p_Encoding := 1\<rparr>]\<rparr>"

definition demo_server ::
  "(string \<times> bytes \<Rightarrow> (string \<times> bytes, unit) pb_value response) \<Rightarrow>
   (pb_world, (string \<times> bytes, unit) pb_value, unit, unit) server" where
  "demo_server f = Register ''hello'' (Some (unary_handler ''*test.Hello'' f 5)) (NewServer ''s'' 4 [])"

lemma demo_env_ok: "pb_env_ok demo_env" "lawful_messages (pe_proto demo_env)"
  by (simp_all add: pb_env_ok_def demo_env_def framing_lawful table_lawful table_messages)

lemma demo_codec: "codec_of demo_client None = (NewRPCClientCodecWithConn ContentEncoding_BROTLI :: unit rpc_codec)"
  by (simp add: codec_of_def demo_client_def pb_NewClient_def NewRPCClientCodec_def)

lemma demo_pool: "pool_ok (cc_manager (codec_of demo_client (None :: unit rpc_codec option)))"
  by (simp add: demo_codec NewRPCClientCodecWithConn_def pool_ok_new)

lemma demo_encoding: "call_encoding [WithEncoding ContentEncoding_GZIP] = 1"
  by (simp add: call_encoding_def WithEncoding_def ContentEncoding_GZIP_def)

lemma demo_marshal: "px_MarshalMsg (pe_proto demo_env) demo_args = Inr [5, 6]"
    "px_MarshalMsg (pe_proto demo_env) demo_reply = Inr [7, 8]"
  by (simp_all add: demo_env_def table_proto_def demo_args_def demo_reply_def)

lemma demo_types: "px_TypeOf (pe_proto demo_env) demo_args = ''*test.Hello''"
    "px_TypeOf (pe_proto demo_env) demo_reply = ''*test.Hello''"
  by (simp_all add: demo_env_def table_proto_def demo_args_def demo_reply_def)

lemma demo_request:
  "call_request (\<lambda>x kv. kv) (pe_proto demo_env) () 1 ''hello'' demo_args [5, 6] None =
   demo_wire_request\<lparr>q_Body := Some (hello_any [5, 6])\<rparr>"
  by (simp add: call_request_def demo_types request_metadata_def demo_wire_request_def hello_any_def)

lemma demo_written:
  "px_MarshalRequest (pe_proto demo_env) demo_wire_request = Inr [0]" "pe_streams demo_env = framing"
  by (simp_all add: demo_env_def table_proto_def write_place_def)

lemma demo_body:
  "q_Encoding (demo_wire_request\<lparr>q_Body := b\<rparr>) = 1"
  "demo_wire_request\<lparr>q_Body := Some ((hello_any [5, 6])\<lparr>Value := Some [1, 5, 6, 9]\<rparr>)\<rparr> = demo_wire_request"
  by (simp_all add: demo_wire_request_def hello_any_def)

lemma demo_sent:
  "client_Marshal (pe_streams demo_env) (pe_proto demo_env) None None
     (call_request (\<lambda>x kv. kv) (pe_proto demo_env) () (call_encoding [WithEncoding ContentEncoding_GZIP])
        ''hello'' demo_args [5, 6] (q_Metadata (cc_request (codec_of demo_client (None :: unit rpc_codec option)))))
     (cc_manager (codec_of demo_client (None :: unit rpc_codec option))) =
   (framing_manager [1, 5, 6, 9, 0, 0, 0], Inr [0])"
proof -
  have "q_Metadata (cc_request (codec_of demo_client (None :: unit rpc_codec option))) = None"
    and "cc_manager (codec_of demo_client (None :: unit rpc_codec option)) = NewCompressorManager"
    by (simp_all add: demo_codec NewRPCClientCodecWithConn_def empty_request_def)
  then show ?thesis
    by (simp add: demo_encoding demo_request demo_written demo_body client_Marshal_def hello_compress
        client_encode_def hello_views del: read_slice.simps)
qed

lemma demo_topic: "plain_segment ''1''" "word_free (topic_levels (pc_topicPrefix demo_client) ''d'')"
  by (simp add: plain_segment_def)
    (simp add: demo_client_def pb_NewClient_def topic_levels_def topic_buf_def join_step_def
      is_rooted_def clean_segments_def clean_step_def word_free_def request_word_def
      sublist_Cons_right)

lemma demo_admits: "admits (demo_server f) True None"
  by (simp add: admits_def demo_server_def Register_def NewServer_def default_options_def Let_def)

lemma demo_handler: "handlerMap (demo_server f) ''hello'' = Some (Some (unary_handler ''*test.Hello'' f 5))"
  by (simp add: demo_server_def Register_def)

definition demo_greeting :: "string \<times> bytes \<Rightarrow> (string \<times> bytes, unit) pb_value response" where
  "demo_greeting a = ok_response (Some (ProtoMessage demo_reply))"

theorem pb_call_end_to_end_witness:
  "\<exists>w1 child n st fx ans.
      pb_receive demo_env (\<lambda>kv. ()) () (fst (conn_Write (pb_request_topic demo_client ''d'' ''1'') DefaultQoS [0]))
        hello_world = (w1, Some child)
    \<and> call_run (demo_server demo_greeting) child 0
        (replicate n WorkerStep @ [MainStep])
        (call_start (demo_server demo_greeting) child True None w1) = Some st
    \<and> pc st = Returned fx \<and> w_published (world (sh st)) = [ans]
    \<and> m_Topic ans = pb_response_topic demo_client ''d'' ''1''
    \<and> snd (snd (pb_Call demo_env (\<lambda>x kv. kv) (\<lambda>x kv. x) (None, None, None) demo_client () ''d'' ''1'' ''hello''
                 demo_args (GoType True ''*test.Hello'') [WithEncoding ContentEncoding_GZIP] None
                 (Answered (m_Payload ans)))) = (None, Some demo_reply)"
proof -
  have answer: "serialises demo_env (empty_response\<lparr>p_Status := 200,
      p_Encoding := call_encoding [WithEncoding ContentEncoding_GZIP],
      p_Body := Some \<lparr>TypeUrl = px_TypeOf (pe_proto demo_env) demo_reply, Value = Some [7, 8]\<rparr>\<rparr>)"
    unfolding serialises_def demo_encoding demo_types
    by (simp add: body_value_def hello_convert framing_value demo_written)
      (simp add: demo_env_def table_proto_def write_place_def hello_response_def hello_any_def empty_response_def)
  have handler: "handlerMap (demo_server demo_greeting) ''hello'' =
      Some (Some (unary_handler (px_TypeOf (pe_proto demo_env) demo_args) demo_greeting 5))"
    by (simp add: demo_types demo_handler)
  have greeting: "demo_greeting demo_args = ok_response (Some (ProtoMessage demo_reply))"
    by (simp add: demo_greeting_def)
  show ?thesis
    using pb_call_end_to_end [OF demo_env_ok demo_pool hello_world_ok demo_marshal(1) demo_sent demo_topic
        demo_admits handler greeting demo_marshal(2) _ answer]
    by (simp add: demo_types hello_world_def)
qed

definition demo_refusal :: "string \<times> bytes \<Rightarrow> (string \<times> bytes, unit) pb_value response" where
  "demo_refusal a = error_response 400 (Some (Errorf ''no''))"

theorem pb_error_end_to_end_witness:
  "\<exists>w1 child n st fx ans.
      pb_receive demo_env (\<lambda>kv. ()) () (fst (conn_Write (pb_request_topic demo_client ''d'' ''1'') DefaultQoS [0]))
        hello_world = (w1, Some child)
    \<and> call_run (demo_server demo_refusal) child 0
        (replicate n WorkerStep @ [MainStep])
        (call_start (demo_server demo_refusal) child True None w1) = Some st
    \<and> pc st = Returned fx \<and> w_published (world (sh st)) = [ans]
    \<and> m_Topic ans = pb_response_topic demo_client ''d'' ''1''
    \<and> snd (snd (pb_Call demo_env (\<lambda>x kv. kv) (\<lambda>x kv. x) (None, None, None) demo_client () ''d'' ''1'' ''hello''
                 demo_args (GoType True ''*test.Hello'') [WithEncoding ContentEncoding_GZIP] None
                 (Answered (m_Payload ans)))) = (Some (ServerError ''no''), None)"
proof -
  have answer: "serialises demo_env (empty_response\<lparr>p_Status := word_of_int 400,
      p_ErrorMessage := error_text (Errorf ''no''), p_Encoding := call_encoding [WithEncoding ContentEncoding_GZIP]\<rparr>)"
    unfolding serialises_def demo_encoding
    by (simp add: body_value_def empty_response_def)
      (simp add: demo_env_def table_proto_def write_place_def hello_response_def empty_response_def)
  have handler: "handlerMap (demo_server demo_refusal) ''hello'' =
      Some (Some (unary_handler (px_TypeOf (pe_proto demo_env) demo_args) demo_refusal 5))"
    by (simp add: demo_types demo_handler)
  have refusal: "demo_refusal demo_args = error_response 400 (Some (Errorf ''no''))"
    by (simp add: demo_refusal_def)
  show ?thesis
    using pb_error_end_to_end [OF demo_env_ok demo_pool hello_world_ok demo_marshal(1) demo_sent demo_topic
        demo_admits handler refusal _ answer]
    by (simp add: hello_world_def)
qed

theorem pb_answers_meet_client_iff_witness:
  "GetReplyTopic \<lparr>rd_Topic = pb_request_topic demo_client ''d'' ''1'', rd_Request = demo_wire_request\<rparr>
     = pb_response_topic demo_client ''d'' ''1''"
  using pb_answers_meet_client_iff [OF demo_topic(1), of _ demo_client "''d''"] demo_topic(2) by simp

lemma pb_subscription_covers_requests_witness:
  "\<exists>levels. split_on CHR ''/'' (pb_request_topic demo_client ''d'' ''1'') = levels @ [''request'', ''1'']"
  using pb_subscription_covers_requests [OF demo_topic(1) demo_topic(1)] by blast

lemma demo_decodes:
  "decodes_to demo_env None [1] (empty_response\<lparr>p_Status := 400, p_ErrorMessage := ''no'', p_Encoding := 1\<rparr>)"
  "decodes_to demo_env None [2] (empty_response\<lparr>p_Status := 500, p_Encoding := 1\<rparr>)"
  by (simp_all add: decodes_to_def client_Unmarshal_def demo_env_def table_proto_def at_place_def
      norm_response_def empty_response_def norm_metadata_def norm_body_def)


lemma error_status_without_text_is_success_witness:
  "snd (snd (pb_Call demo_env (\<lambda>x kv. kv) (\<lambda>x kv. x) (None, None, None) demo_client () ''d'' ''1'' ''hello''
       demo_args (GoType True ''*test.Hello'') [WithEncoding ContentEncoding_GZIP] None (Answered [2])))
   = (None, None)"
  by (rule error_status_without_text_is_success [OF demo_marshal(1) demo_sent demo_decodes(2)]) simp_all

theorem pooled_codec_irrelevant_witness:
  "snd (pb_Call demo_env (\<lambda>x kv. kv) (\<lambda>x kv. x) (None, None, None) (fst (pb_NewClient ''a'' ContentEncoding_GZIP))
       () ''d'' ''1'' ''hello'' demo_args (GoType True ''*test.Hello'') [] None (CtxDone ErrTimeout))
   = snd (pb_Call demo_env (\<lambda>x kv. kv) (\<lambda>x kv. x) (None, None, None) demo_client
       () ''d'' ''1'' ''hello'' demo_args (GoType True ''*test.Hello'') [] None (CtxDone ErrTimeout))"
  by (rule pooled_codec_irrelevant)
    (simp_all add: demo_client_def pb_NewClient_def codec_of_def NewRPCClientCodec_def
      NewRPCClientCodecWithConn_def)

end
