(* ===== verification/Codec_Pool.thy ===== *)
theory Codec_Pool
  imports Pb_Client
begin

text \<open>
  The pool of codecs of the protobuf client (\<open>mqttpb/client.go\<close>, lines 91 to 111 and
  \<open>Call\<close>), step by step.  One codec is followed through the calls that the pool gives it to.
  Each call has a caller, a connection of its own and a reading goroutine that net/rpc starts
  with it; the codec, with its connection field and the response that it parses into, is shared
  by the goroutines of all these calls.

  The connections are those of \<open>Rpc_Conn\<close>; here several readers can be at one connection, so
  every reader keeps its own place in \<open>io.ReadAll\<close>.
\<close>

section \<open>States and steps\<close>

record ('x, 'p) call_args =
  ca_ctx :: 'x
  ca_opts :: "call_option list"
  ca_method :: string
  ca_args :: 'p
  ca_target :: go_type

text \<open>What does not change: the runtime, the client, and the arguments of each call.\<close>

record ('x, 'p) pool_par =
  pp_env :: "'p pb_env"
  pp_inject :: "'x \<Rightarrow> (string \<rightharpoonup> string) \<Rightarrow> (string \<rightharpoonup> string)"
  pp_extract :: "'x \<Rightarrow> (string \<rightharpoonup> string) \<Rightarrow> 'x"
  pp_client :: pb_client
  pp_call :: "nat \<Rightarrow> ('x, 'p) call_args"

text \<open>
  The caller: not started, with its client made, waiting, returned, and then through the three
  effects of the deferred \<open>close\<close>.
\<close>

datatype 'p caller =
    CIdle | CMade | CWaiting
  | CReturned "'p call_result" | CShut "'p call_result" | CLeft "'p call_result" | CEnded "'p call_result"

text \<open>
  The reading goroutine: not started, at the head of the loop, with the response reset, in
  \<open>io.ReadAll\<close> of a connection, with what it read, with the response parsed, with the header
  read out of it, or ended.
\<close>

datatype pool_reader =
    RNone | RHeader | RReset | RRead nat | RGot bytes | RParsed | RHeaded rpc_response | REnded

record 'p pool_call =
  pk_caller :: "'p caller"
  pk_done :: "'p call_result option"
  pk_reader :: pool_reader
  pk_place :: reader

record ('x, 'p) pool_state =
  ps_codec :: "'x rpc_codec"
  ps_holder :: "nat option"
  ps_pooled :: bool
  ps_conns :: "nat \<Rightarrow> conn"
  ps_calls :: "nat \<Rightarrow> 'p pool_call"
  ps_sent :: "(nat \<times> bytes) list"

datatype pool_event =
    TakeCodec nat
  | GoCall nat "nat option" "nat option"
  | BrokerStep nat conn_event
  | ResetResponse nat
  | OpenConn nat
  | ReadStep nat conn_event
  | ParseResponse nat "nat option"
  | ReadFields nat
  | HandleResponse nat
  | ReturnDone nat
  | ReturnCtx nat gerror
  | CloseStep nat
  | UnsubscribeStep nat
  | PutCodec nat

definition pool_call_start :: "'p pool_call" where
  "pool_call_start = \<lparr>pk_caller = CIdle, pk_done = None, pk_reader = RNone, pk_place = RIdle\<rparr>"

definition pool_start :: "pb_client \<Rightarrow> ('x, 'p) pool_state" where
  "pool_start cl =
     \<lparr>ps_codec = NewRPCClientCodec (pc_new_encoding cl), ps_holder = None, ps_pooled = True,
      ps_conns = (\<lambda>_. conn_start), ps_calls = (\<lambda>_. pool_call_start), ps_sent = []\<rparr>"

definition set_call :: "nat \<Rightarrow> 'p pool_call \<Rightarrow> ('x, 'p) pool_state \<Rightarrow> ('x, 'p) pool_state" where
  "set_call k c s = s\<lparr>ps_calls := (ps_calls s)(k := c)\<rparr>"

text \<open>
  \<open>createRPCClient\<close>: the codec comes out of the pool, gets the connection, the encoding and the
  context of the call, and a client is made whose reading goroutine starts.
\<close>

definition take_codec :: "('x, 'p) pool_par \<Rightarrow> nat \<Rightarrow> ('x, 'p) pool_state \<Rightarrow> ('x, 'p) pool_state option" where
  "take_codec par k s =
     (let a = pp_call par k; c = ps_calls s k
      in if ps_pooled s \<and> pk_caller c = CIdle then
           Some (set_call k (c\<lparr>pk_caller := CMade, pk_reader := RHeader\<rparr>)
             (s\<lparr>ps_codec := pb_createRPCClient (pp_client par) (ca_ctx a) (call_encoding (ca_opts a)) (Some (ps_codec s)),
                ps_holder := Some k, ps_pooled := False\<rparr>))
         else None)"

text \<open>
  \<open>rpcClient.Go\<close>: a client whose reader has ended refuses the call; otherwise the request is
  written on the connection of the codec.
\<close>

definition go_call ::
  "('x, 'p) pool_par \<Rightarrow> nat \<Rightarrow> nat option \<Rightarrow> nat option \<Rightarrow> ('x, 'p) pool_state \<Rightarrow> ('x, 'p) pool_state option" where
  "go_call par k pw pb s =
     (let a = pp_call par k; c = ps_calls s k
      in case ps_holder s of
           None \<Rightarrow> None
         | Some j \<Rightarrow>
             if pk_caller c \<noteq> CMade then None
             else if pk_reader c = REnded then
               Some (set_call k (c\<lparr>pk_caller := CWaiting, pk_done := Some (Some ErrShutdown, None)\<rparr>) s)
             else (case pb_WriteRequest (pp_env par) (pp_inject par) pw pb 0 (ca_method a)
                         (ProtoMessage (ca_args a) :: ('p, unit) pb_value) (ps_codec s) of
                     (d, Inl e) \<Rightarrow>
                       Some (set_call k (c\<lparr>pk_caller := CWaiting, pk_done := Some (Some e, None)\<rparr>) (s\<lparr>ps_codec := d\<rparr>))
                   | (d, Inr out) \<Rightarrow>
                       Some (set_call k (c\<lparr>pk_caller := CWaiting\<rparr>)
                         (s\<lparr>ps_codec := d, ps_sent := ps_sent s @ [(j, out)]\<rparr>))))"

text \<open>A step of reader \<open>k\<close> at connection \<open>j\<close>, which has its own place in \<open>io.ReadAll\<close>.\<close>

definition read_step :: "nat \<Rightarrow> nat \<Rightarrow> conn_event \<Rightarrow> ('x, 'p) pool_state \<Rightarrow> ('x, 'p) pool_state option" where
  "read_step k j e s =
     (let c = ps_calls s k
      in map_option
           (\<lambda>cn. set_call k (c\<lparr>pk_reader := (case cn_reader cn of RDone bs \<Rightarrow> RGot bs | _ \<Rightarrow> RRead j),
                               pk_place := cn_reader cn\<rparr>)
                   (s\<lparr>ps_conns := (ps_conns s)(j := cn)\<rparr>))
           (conn_step e ((ps_conns s j)\<lparr>cn_reader := pk_place c\<rparr>)))"

text \<open>
  The end of the reading goroutine: the pending call ends with the error.  A client that is being
  closed makes \<open>ErrShutdown\<close> of the end of the file.
\<close>

definition pending :: "'p pool_call \<Rightarrow> bool" where
  "pending c \<longleftrightarrow> pk_done c = None \<and> pk_caller c \<notin> {CIdle, CMade}"

definition closing :: "'p pool_call \<Rightarrow> bool" where
  "closing c \<longleftrightarrow> (case pk_caller c of CShut r \<Rightarrow> True | CLeft r \<Rightarrow> True | CEnded r \<Rightarrow> True | _ \<Rightarrow> False)"

definition end_reader :: "gerror \<Rightarrow> 'p pool_call \<Rightarrow> 'p pool_call" where
  "end_reader e c =
     c\<lparr>pk_reader := REnded,
       pk_done := (if pending c
                   then Some (Some (if e = ErrEOF \<and> closing c then ErrShutdown else rpc_terminate e), None)
                   else pk_done c)\<rparr>"

text \<open>\<open>ReadResponseHeader\<close> from where everything is read: parsing into the shared response.\<close>

definition parse_response ::
  "('x, 'p) pool_par \<Rightarrow> nat \<Rightarrow> nat option \<Rightarrow> ('x, 'p) pool_state \<Rightarrow> ('x, 'p) pool_state option" where
  "parse_response par k pick s =
     (let c = ps_calls s k; d = ps_codec s
      in case pk_reader c of
           RGot bs \<Rightarrow>
             if bs = [] then Some (set_call k (end_reader ErrEOF c) s)
             else (case client_Unmarshal (pe_streams (pp_env par)) (pe_proto (pp_env par)) pick bs (cc_manager d) of
                     (m', rsp, Some e) \<Rightarrow>
                       Some (set_call k (end_reader e c) (s\<lparr>ps_codec := d\<lparr>cc_manager := m', cc_response := rsp\<rparr>\<rparr>))
                   | (m', rsp, None) \<Rightarrow>
                       Some (set_call k (c\<lparr>pk_reader := RParsed\<rparr>)
                         (s\<lparr>ps_codec := d\<lparr>cc_manager := m', cc_response := rsp\<rparr>\<rparr>)))
         | _ \<Rightarrow> None)"

text \<open>The rest of \<open>ReadResponseHeader\<close>: the header is read out of the shared response.\<close>

definition read_fields :: "('x, 'p) pool_par \<Rightarrow> nat \<Rightarrow> ('x, 'p) pool_state \<Rightarrow> ('x, 'p) pool_state option" where
  "read_fields par k s =
     (let c = ps_calls s k; d = ps_codec s; rsp = cc_response d
      in if pk_reader c = RParsed then
           Some (set_call k
             (c\<lparr>pk_reader := RHeaded
                  \<lparr>rr_ServiceMethod = (case cc_pending d (p_Id rsp) of None \<Rightarrow> [] | Some m \<Rightarrow> m),
                   rr_Seq = p_Id rsp, rr_Error = p_ErrorMessage rsp\<rparr>\<rparr>)
             (s\<lparr>ps_codec := d\<lparr>cc_ctx := (case (cc_ctx d, p_Metadata rsp) of
                                (Some x, Some kv) \<Rightarrow> Some (pp_extract par x kv) | _ \<Rightarrow> cc_ctx d),
                              cc_pending := (cc_pending d)(p_Id rsp := None)\<rparr>\<rparr>))
         else None)"

text \<open>
  The body of the loop of \<open>rpc.Client.input\<close>: a response that belongs to no pending call is
  dropped, an error ends the call, and otherwise the body is read, again out of the shared
  response.
\<close>

definition handle_call ::
  "('x, 'p) pool_par \<Rightarrow> nat \<Rightarrow> 'x rpc_codec \<Rightarrow> rpc_response \<Rightarrow> 'p pool_call \<Rightarrow> 'p pool_call" where
  "handle_call par k d r c =
     (if rr_Seq r \<noteq> 0 \<or> \<not> pending c then c\<lparr>pk_reader := RHeader\<rparr>
      else if rr_Error r \<noteq> [] then c\<lparr>pk_reader := RHeader, pk_done := Some (Some (ServerError (rr_Error r)), None)\<rparr>
      else (case pb_ReadResponseBody (pe_proto (pp_env par)) (Some (ca_target (pp_call par k))) d of
              Inl e \<Rightarrow> c\<lparr>pk_reader := REnded, pk_done := Some (Some (Errorf (''reading body '' @ error_text e)), None)\<rparr>
            | Inr stored \<Rightarrow> c\<lparr>pk_reader := RHeader, pk_done := Some (None, stored)\<rparr>))"

definition handle_response :: "('x, 'p) pool_par \<Rightarrow> nat \<Rightarrow> ('x, 'p) pool_state \<Rightarrow> ('x, 'p) pool_state option" where
  "handle_response par k s =
     (case pk_reader (ps_calls s k) of
        RHeaded r \<Rightarrow> Some (set_call k (handle_call par k (ps_codec s) r (ps_calls s k)) s)
      | _ \<Rightarrow> None)"

text \<open>The caller: \<open>select\<close>, and then the deferred \<open>close\<close> in its three effects.\<close>

definition return_with :: "nat \<Rightarrow> 'p call_result option \<Rightarrow> ('x, 'p) pool_state \<Rightarrow> ('x, 'p) pool_state option" where
  "return_with k r s =
     (let c = ps_calls s k
      in case r of
           None \<Rightarrow> None
         | Some r \<Rightarrow> if pk_caller c = CWaiting then Some (set_call k (c\<lparr>pk_caller := CReturned r\<rparr>) s) else None)"

text \<open>\<open>Close\<close> of the codec closes the connection that the codec has.\<close>

definition close_conn :: "nat \<Rightarrow> ('x, 'p) pool_state \<Rightarrow> ('x, 'p) pool_state option" where
  "close_conn k s =
     (let c = ps_calls s k
      in case (pk_caller c, ps_holder s) of
           (CReturned r, Some j) \<Rightarrow>
             map_option (\<lambda>cn. set_call k (c\<lparr>pk_caller := CShut r\<rparr>) (s\<lparr>ps_conns := (ps_conns s)(j := cn)\<rparr>))
               (conn_step CloseChannel (ps_conns s j))
         | _ \<Rightarrow> None)"

definition unsubscribe_conn :: "nat \<Rightarrow> ('x, 'p) pool_state \<Rightarrow> ('x, 'p) pool_state option" where
  "unsubscribe_conn k s =
     (let c = ps_calls s k
      in case (pk_caller c, ps_holder s) of
           (CShut r, Some j) \<Rightarrow>
             map_option (\<lambda>cn. set_call k (c\<lparr>pk_caller := CLeft r\<rparr>) (s\<lparr>ps_conns := (ps_conns s)(j := cn)\<rparr>))
               (conn_step Unsubscribe (ps_conns s j))
         | _ \<Rightarrow> None)"

definition put_codec :: "nat \<Rightarrow> ('x, 'p) pool_state \<Rightarrow> ('x, 'p) pool_state option" where
  "put_codec k s =
     (let c = ps_calls s k
      in case pk_caller c of
           CLeft r \<Rightarrow> Some (set_call k (c\<lparr>pk_caller := CEnded r\<rparr>) (s\<lparr>ps_pooled := True\<rparr>))
         | _ \<Rightarrow> None)"

definition share_step :: "('x, 'p) pool_par \<Rightarrow> pool_event \<Rightarrow> ('x, 'p) pool_state \<Rightarrow> ('x, 'p) pool_state option" where
  "share_step par e s =
     (case e of
        TakeCodec k \<Rightarrow> take_codec par k s
      | GoCall k pw pb \<Rightarrow> go_call par k pw pb s
      | BrokerStep j ce \<Rightarrow>
          (case ce of
             Deliver p \<Rightarrow> map_option (\<lambda>cn. s\<lparr>ps_conns := (ps_conns s)(j := cn)\<rparr>) (conn_step ce (ps_conns s j))
           | SendClosed \<Rightarrow> map_option (\<lambda>cn. s\<lparr>ps_conns := (ps_conns s)(j := cn)\<rparr>) (conn_step ce (ps_conns s j))
           | _ \<Rightarrow> None)
      | ResetResponse k \<Rightarrow>
          if pk_reader (ps_calls s k) = RHeader
          then Some (set_call k ((ps_calls s k)\<lparr>pk_reader := RReset\<rparr>)
                 (s\<lparr>ps_codec := (ps_codec s)\<lparr>cc_response := empty_response\<rparr>\<rparr>))
          else None
      | OpenConn k \<Rightarrow>
          (case (pk_reader (ps_calls s k), ps_holder s) of
             (RReset, Some j) \<Rightarrow> read_step k j ReadAll s
           | _ \<Rightarrow> None)
      | ReadStep k ce \<Rightarrow>
          (case (pk_reader (ps_calls s k), ce) of
             (RRead j, ReadChunk n) \<Rightarrow> read_step k j ce s
           | (RRead j, Receive n) \<Rightarrow> read_step k j ce s
           | _ \<Rightarrow> None)
      | ParseResponse k pick \<Rightarrow> parse_response par k pick s
      | ReadFields k \<Rightarrow> read_fields par k s
      | HandleResponse k \<Rightarrow> handle_response par k s
      | ReturnDone k \<Rightarrow> return_with k (pk_done (ps_calls s k)) s
      | ReturnCtx k e \<Rightarrow> return_with k (Some (Some e, None)) s
      | CloseStep k \<Rightarrow> close_conn k s
      | UnsubscribeStep k \<Rightarrow> unsubscribe_conn k s
      | PutCodec k \<Rightarrow> put_codec k s)"

fun share_run :: "('x, 'p) pool_par \<Rightarrow> pool_event list \<Rightarrow> ('x, 'p) pool_state \<Rightarrow> ('x, 'p) pool_state option" where
  "share_run par [] s = Some s"
| "share_run par (e # es) s =
     (case share_step par e s of None \<Rightarrow> None | Some s' \<Rightarrow> share_run par es s')"


section \<open>Runs\<close>

lemma share_run_append:
  "share_run par (as @ bs) s = (case share_run par as s of None \<Rightarrow> None | Some s' \<Rightarrow> share_run par bs s')"
  by (induction "as" arbitrary: s) (auto split: option.splits)

lemma share_run_trans:
  "share_run par as s = Some s' \<Longrightarrow> share_run par bs s' = Some s'' \<Longrightarrow> share_run par (as @ bs) s = Some s''"
  by (simp add: share_run_append)

lemma share_run_snoc:
  "share_run par (es @ [e]) s0 = Some s \<longleftrightarrow> (\<exists>s1. share_run par es s0 = Some s1 \<and> share_step par e s1 = Some s)"
  by (auto simp: share_run_append split: option.splits)

lemma set_call_simps [simp]:
  "ps_codec (set_call k c s) = ps_codec s"
  "ps_holder (set_call k c s) = ps_holder s"
  "ps_pooled (set_call k c s) = ps_pooled s"
  "ps_conns (set_call k c s) = ps_conns s"
  "ps_sent (set_call k c s) = ps_sent s"
  "ps_calls (set_call k c s) = (ps_calls s)(k := c)"
  by (simp_all add: set_call_def)

text \<open>The events at the connection of call \<open>j\<close>, when only its own reader reads there.\<close>

fun conn_trace :: "nat \<Rightarrow> pool_event list \<Rightarrow> conn_event list" where
  "conn_trace j [] = []"
| "conn_trace j (e # es) =
     (case e of
        BrokerStep k ce \<Rightarrow> if k = j then [ce] else []
      | OpenConn k \<Rightarrow> if k = j then [ReadAll] else []
      | ReadStep k ce \<Rightarrow> if k = j then [ce] else []
      | CloseStep k \<Rightarrow> if k = j then [CloseChannel] else []
      | UnsubscribeStep k \<Rightarrow> if k = j then [Unsubscribe] else []
      | _ \<Rightarrow> []) @ conn_trace j es"

lemma conn_trace_append [simp]: "conn_trace j (as @ bs) = conn_trace j as @ conn_trace j bs"
  by (induction "as") auto

text \<open>The messages that arrived for call \<open>j\<close>.\<close>

fun arrived :: "nat \<Rightarrow> pool_event list \<Rightarrow> bytes list" where
  "arrived j [] = []"
| "arrived j (e # es) =
     (case e of BrokerStep k (Deliver p) \<Rightarrow> if k = j then [p] else [] | _ \<Rightarrow> []) @ arrived j es"

lemma arrived_append [simp]: "arrived j (as @ bs) = arrived j as @ arrived j bs"
  by (induction "as") auto

section \<open>Calls that share the codec\<close>

text \<open>The request of a call can be written, whatever earlier calls left in the codec.\<close>

definition writable :: "('x, 'p) pool_par \<Rightarrow> nat \<Rightarrow> bool" where
  "writable par k \<longleftrightarrow>
     (\<forall>d. cc_encoding d = call_encoding (ca_opts (pp_call par k)) \<longrightarrow>
        (\<exists>d' out. pb_WriteRequest (pp_env par) (pp_inject par) None None 0 (ca_method (pp_call par k))
           (ProtoMessage (ca_args (pp_call par k)) :: ('p, unit) pb_value) d = (d', Inr out)))"
  for par :: "('x, 'p) pool_par"

definition decodes_as :: "('x, 'p) pool_par \<Rightarrow> bytes \<Rightarrow> pb_response \<Rightarrow> bool" where
  "decodes_as par bs rsp \<longleftrightarrow> bs \<noteq> [] \<and> (\<forall>pick. decodes_to (pp_env par) pick bs rsp)"

definition read_conn :: "bytes \<Rightarrow> conn" where
  "read_conn bs = conn_start\<lparr>cn_ready := True, cn_reader := RDone bs\<rparr>"

definition ask :: "nat \<Rightarrow> pool_event list" where
  "ask k = [TakeCodec k, GoCall k None None]"

definition receive_at :: "nat \<Rightarrow> nat \<Rightarrow> bytes \<Rightarrow> pool_event list" where
  "receive_at k j bs =
     [ResetResponse k, OpenConn k, ReadStep k (ReadChunk 1), BrokerStep j (Deliver bs),
      ReadStep k (Receive (length bs)), ReadStep k (ReadChunk 1)]"

definition leave :: "nat \<Rightarrow> pool_event list" where
  "leave k = [CloseStep k, UnsubscribeStep k, PutCodec k]"

text \<open>What the parts of a schedule do to the fields that matter.\<close>

lemma ask_run:
  fixes par :: "('x, 'p) pool_par" and s :: "('x, 'p) pool_state"
  assumes "writable par k" and "ps_pooled s" and "ps_calls s k = pool_call_start"
  shows "\<exists>s'. share_run par (ask k) s = Some s'
    \<and> ps_holder s' = Some k
    \<and> ps_conns s' = ps_conns s
    \<and> ps_calls s' = (ps_calls s)(k := pool_call_start\<lparr>pk_caller := CWaiting, pk_reader := RHeader\<rparr>)"
proof -
  let ?d = "pb_createRPCClient (pp_client par) (ca_ctx (pp_call par k)) (call_encoding (ca_opts (pp_call par k))) (Some (ps_codec s))"
  obtain d out where "pb_WriteRequest (pp_env par) (pp_inject par) None None 0 (ca_method (pp_call par k))
      (ProtoMessage (ca_args (pp_call par k)) :: ('p, unit) pb_value) ?d = (d, Inr out)"
    using assms(1) [unfolded writable_def, rule_format, OF createRPCClient_fields(3)] by blast
  with assms(2,3) show ?thesis
    by (simp add: ask_def share_step_def take_codec_def go_call_def pool_call_start_def Let_def)
qed

lemma receive_run:
  assumes "ps_holder s = Some j" and "ps_conns s j = conn_start" and "bs \<noteq> []"
    and "ps_calls s k = c" and "pk_reader c = RHeader" and "pk_place c = RIdle \<or> (\<exists>r. pk_place c = RDone r)"
  shows "\<exists>s'. share_run par (receive_at k j bs) s = Some s'
    \<and> ps_holder s' = Some j
    \<and> ps_pooled s' = ps_pooled s
    \<and> ps_conns s' = (ps_conns s)(j := read_conn bs)
    \<and> ps_calls s' = (ps_calls s)(k := c\<lparr>pk_reader := RGot bs, pk_place := RDone bs\<rparr>)"
  using assms
  by (auto simp: receive_at_def share_step_def read_step_def conn_step.simps read_chunk_def conn_start_def
      NewConn_def read_conn_def Let_def)

lemma leave_run:
  assumes "ps_holder s = Some k" and "ps_calls s k = c" and "pk_caller c = CReturned r"
    and "\<not> cn_crashed (ps_conns s k)" and "\<not> cn_closed (ps_conns s k)"
  shows "\<exists>s' cn. share_run par (leave k) s = Some s'
    \<and> ps_holder s' = Some k
    \<and> ps_pooled s'
    \<and> ps_conns s' = (ps_conns s)(k := cn)
    \<and> ps_calls s' = (ps_calls s)(k := c\<lparr>pk_caller := CEnded r\<rparr>)"
  using assms
  by (auto simp: leave_def share_step_def close_conn_def unsubscribe_conn_def put_codec_def conn_step.simps Let_def)

lemma parse_run:
  assumes "decodes_as par bs rsp" and "ps_calls s k = c" and "pk_reader c = RGot bs"
  shows "\<exists>s'. share_run par [ParseResponse k None] s = Some s'
    \<and> cc_response (ps_codec s') = rsp
    \<and> ps_holder s' = ps_holder s
    \<and> ps_pooled s' = ps_pooled s
    \<and> ps_conns s' = ps_conns s
    \<and> ps_calls s' = (ps_calls s)(k := c\<lparr>pk_reader := RParsed\<rparr>)"
proof -
  obtain m' where "client_Unmarshal (pe_streams (pp_env par)) (pe_proto (pp_env par)) None bs (cc_manager (ps_codec s)) = (m', rsp, None)"
    using assms(1) by (auto simp: decodes_as_def decodes_to_def)
  with assms show ?thesis
    by (auto simp: share_step_def parse_response_def Let_def decodes_as_def)
qed

lemma return_run:
  assumes "ps_calls s k = c" and "pk_caller c = CWaiting"
    and "e = ReturnCtx k x \<and> r = (Some x, None) \<or> e = ReturnDone k \<and> pk_done c = Some r"
  shows "\<exists>s'. share_run par [e] s = Some s'
    \<and> ps_holder s' = ps_holder s
    \<and> ps_pooled s' = ps_pooled s
    \<and> ps_conns s' = ps_conns s
    \<and> ps_calls s' = (ps_calls s)(k := c\<lparr>pk_caller := CReturned r\<rparr>)"
  using assms by (auto simp: share_step_def return_with_def Let_def)

text \<open>The header and then the body are read out of what the shared response is at that moment.\<close>

definition handled :: "('x, 'p) pool_par \<Rightarrow> nat \<Rightarrow> pb_response \<Rightarrow> 'p pool_call \<Rightarrow> 'p pool_call" where
  "handled par k rsp c =
     (if p_Id rsp \<noteq> 0 \<or> \<not> pending c then c\<lparr>pk_reader := RHeader\<rparr>
      else let r = answer_result (pe_proto (pp_env par)) (ca_target (pp_call par k)) rsp
           in c\<lparr>pk_reader := (if p_ErrorMessage rsp = [] \<and> fst r \<noteq> None then REnded else RHeader),
                pk_done := Some r\<rparr>)"

lemma handle_call_eq:
  assumes "rr_Seq r = p_Id (cc_response d)" and "rr_Error r = p_ErrorMessage (cc_response d)"
  shows "handle_call par k d r c = handled par k (cc_response d) c"
  using assms
  by (auto simp: handle_call_def handled_def Let_def answer_result_def pb_ReadResponseBody_def
      split: option.splits sum.splits)

lemma handle_run:
  assumes "ps_calls s k = c" and "pk_reader c = RParsed"
  shows "\<exists>s'. share_run par [ReadFields k, HandleResponse k] s = Some s'
    \<and> ps_holder s' = ps_holder s
    \<and> ps_pooled s' = ps_pooled s
    \<and> ps_conns s' = ps_conns s
    \<and> ps_calls s' = (ps_calls s)(k := handled par k (cc_response (ps_codec s)) c)"
proof -
  obtain d h where step: "read_fields par k s = Some (set_call k (c\<lparr>pk_reader := RHeaded h\<rparr>) (s\<lparr>ps_codec := d\<rparr>))"
    and h: "rr_Seq h = p_Id (cc_response (ps_codec s))" "rr_Error h = p_ErrorMessage (cc_response (ps_codec s))"
    and d: "cc_response d = cc_response (ps_codec s)"
    using assms by (auto simp: read_fields_def Let_def)
  let ?s = "set_call k (c\<lparr>pk_reader := RHeaded h\<rparr>) (s\<lparr>ps_codec := d\<rparr>)"
  have "handle_response par k ?s = Some (set_call k (handled par k (cc_response d) (c\<lparr>pk_reader := RHeaded h\<rparr>)) ?s)"
    by (simp add: handle_response_def handle_call_eq h d)
  moreover have "handled par k (cc_response d) (c\<lparr>pk_reader := RHeaded h\<rparr>) = handled par k (cc_response (ps_codec s)) c"
    by (simp add: handled_def d Let_def pending_def)
  ultimately show ?thesis
    by (simp add: share_step_def step)
qed

section \<open>An answer that reaches another call\<close>

text \<open>
  Call \<open>k\<close> has its answer read but not parsed when its context ends; the codec goes back and
  the pool gives it to call \<open>k'\<close>.
\<close>

definition stale_schedule :: "nat \<Rightarrow> nat \<Rightarrow> bytes \<Rightarrow> bytes \<Rightarrow> gerror \<Rightarrow> pool_event list" where
  "stale_schedule k k' bs bs' e =
     (ask k @ receive_at k k bs @ [ReturnCtx k e] @ leave k) @
     (ask k' @ receive_at k' k' bs' @ [ParseResponse k' None, ParseResponse k None]) @
     [ReadFields k', HandleResponse k'] @ [ReturnDone k']"

lemma pool_start_simps [simp]:
  "ps_pooled (pool_start cl)" "ps_calls (pool_start cl) = (\<lambda>_. pool_call_start)"
  "ps_conns (pool_start cl) = (\<lambda>_. conn_start)"
  by (simp_all add: pool_start_def)

lemma start_conn_simps [simp]: "\<not> cn_crashed (read_conn bs)" "\<not> cn_closed (read_conn bs)"
  by (simp_all add: read_conn_def conn_start_def NewConn_def)

lemma asked_run:
  assumes "writable par k" and "ps_pooled s" and "ps_calls s k = pool_call_start" and "ps_conns s k = conn_start" and "bs \<noteq> []"
  shows "\<exists>s'. share_run par (ask k @ receive_at k k bs) s = Some s' \<and> ps_holder s' = Some k
    \<and> ps_conns s' = (ps_conns s)(k := read_conn bs)
    \<and> ps_calls s' = (ps_calls s)(k := \<lparr>pk_caller = CWaiting, pk_done = None, pk_reader = RGot bs, pk_place = RDone bs\<rparr>)"
proof -
  from ask_run [OF assms(1-3)] obtain s1 where 1: "share_run par (ask k) s = Some s1" "ps_holder s1 = Some k"
    "ps_conns s1 = ps_conns s"
    "ps_calls s1 = (ps_calls s)(k := pool_call_start\<lparr>pk_caller := CWaiting, pk_reader := RHeader\<rparr>)"
    by blast
  from receive_run [OF 1(2) _ assms(5), of k "ps_calls s1 k" par] 1(3,4) assms(4)
  obtain s2 where "share_run par (receive_at k k bs) s1 = Some s2" "ps_holder s2 = Some k"
    "ps_conns s2 = (ps_conns s)(k := read_conn bs)"
    "ps_calls s2 = (ps_calls s)(k := \<lparr>pk_caller = CWaiting, pk_done = None, pk_reader = RGot bs, pk_place = RDone bs\<rparr>)"
    by (auto simp: pool_call_start_def)
  with share_run_trans [OF 1(1)] show ?thesis by blast
qed

lemma return_leave_run:
  assumes "ps_holder s = Some k" and "ps_calls s k = c" and "pk_caller c = CWaiting" and "ps_conns s k = read_conn bs"
    and "e = ReturnCtx k x \<and> r = (Some x, None) \<or> e = ReturnDone k \<and> pk_done c = Some r"
  shows "\<exists>s' cn. share_run par (e # leave k) s = Some s' \<and> ps_holder s' = Some k \<and> ps_pooled s' \<and> ps_conns s' = (ps_conns s)(k := cn)
    \<and> ps_calls s' = (ps_calls s)(k := c\<lparr>pk_caller := CEnded r\<rparr>)"
proof -
  from return_run [OF assms(2,3,5), of par] obtain s1 where 1: "share_run par [e] s = Some s1"
    "ps_holder s1 = Some k" "ps_conns s1 = ps_conns s" "ps_calls s1 = (ps_calls s)(k := c\<lparr>pk_caller := CReturned r\<rparr>)"
    using assms(1) by auto
  from leave_run [OF 1(2) HOL.refl, of r par] 1(3,4) assms(4)
  obtain s2 cn where "share_run par (leave k) s1 = Some s2" "ps_holder s2 = Some k" "ps_pooled s2" "ps_conns s2 = (ps_conns s)(k := cn)"
    "ps_calls s2 = (ps_calls s)(k := c\<lparr>pk_caller := CEnded r\<rparr>)"
    by auto
  with share_run_trans [OF 1(1)] show ?thesis by fastforce
qed

lemma abandoned_run:
  assumes "writable par k" and "bs \<noteq> []"
  shows "\<exists>s cn. share_run par (ask k @ receive_at k k bs @ [ReturnCtx k e] @ leave k) (pool_start (pp_client par)) = Some s
    \<and> ps_pooled s \<and> ps_conns s = (\<lambda>_. conn_start)(k := cn)
    \<and> ps_calls s = (\<lambda>_. pool_call_start)(k := \<lparr>pk_caller = CEnded (Some e, None), pk_done = None, pk_reader = RGot bs, pk_place = RDone bs\<rparr>)"
proof -
  from asked_run [OF assms(1) _ _ _ assms(2), of "pool_start (pp_client par)"]
  obtain s1 where 1: "share_run par (ask k @ receive_at k k bs) (pool_start (pp_client par)) = Some s1"
    "ps_holder s1 = Some k" "ps_conns s1 = (\<lambda>_. conn_start)(k := read_conn bs)"
    "ps_calls s1 = (\<lambda>_. pool_call_start)(k := \<lparr>pk_caller = CWaiting, pk_done = None, pk_reader = RGot bs, pk_place = RDone bs\<rparr>)"
    by auto
  from return_leave_run [OF 1(2) HOL.refl, of bs "ReturnCtx k e" e "(Some e, None)" par] 1(3,4)
  obtain s2 cn where "share_run par (ReturnCtx k e # leave k) s1 = Some s2" "ps_pooled s2"
    "ps_conns s2 = (\<lambda>_. conn_start)(k := cn)"
    "ps_calls s2 = (\<lambda>_. pool_call_start)(k := \<lparr>pk_caller = CEnded (Some e, None), pk_done = None, pk_reader = RGot bs, pk_place = RDone bs\<rparr>)"
    by auto
  with share_run_trans [OF 1(1)] show ?thesis by (metis append_Cons append_Nil append_assoc)
qed

lemma stale_run:
  assumes "writable par k" and "writable par k'" and "k \<noteq> k'"
    and "decodes_as par bs rsp" and "decodes_as par bs' rsp'" and "p_Id rsp = 0"
  shows "\<exists>s. share_run par (stale_schedule k k' bs bs' e) (pool_start (pp_client par)) = Some s
    \<and> pk_caller (ps_calls s k) = CEnded (Some e, None)
    \<and> pk_caller (ps_calls s k') = CReturned (answer_result (pe_proto (pp_env par)) (ca_target (pp_call par k')) rsp)"
proof -
  have ne: "bs \<noteq> []" "bs' \<noteq> []" using assms(4,5) by (simp_all add: decodes_as_def)
  let ?a = "\<lparr>pk_caller = CEnded (Some e, None), pk_done = None, pk_reader = RGot bs, pk_place = RDone bs\<rparr>"
  let ?b = "\<lparr>pk_caller = CWaiting, pk_done = None, pk_reader = RGot bs', pk_place = RDone bs'\<rparr>"
  from abandoned_run [OF assms(1) ne(1), of e] obtain s1 cn where
    1: "share_run par (ask k @ receive_at k k bs @ [ReturnCtx k e] @ leave k) (pool_start (pp_client par)) = Some s1"
      "ps_pooled s1" "ps_conns s1 = (\<lambda>_. conn_start)(k := cn)" "ps_calls s1 = (\<lambda>_. pool_call_start)(k := ?a)"
    by blast
  from asked_run [OF assms(2) 1(2) _ _ ne(2)] 1(3,4) assms(3) obtain s2 where
    2: "share_run par (ask k' @ receive_at k' k' bs') s1 = Some s2" "ps_calls s2 k' = ?b" "ps_calls s2 k = ?a"
    by auto
  from parse_run [OF assms(5) 2(2)] 2(3) assms(3) obtain s3 where
    3: "share_run par [ParseResponse k' None] s2 = Some s3" "ps_calls s3 k = ?a"
      "ps_calls s3 k' = ?b\<lparr>pk_reader := RParsed\<rparr>"
    by auto
  from parse_run [OF assms(4) 3(2)] 3(3) assms(3) obtain s4 where
    4: "share_run par [ParseResponse k None] s3 = Some s4" "cc_response (ps_codec s4) = rsp"
      "ps_calls s4 k' = ?b\<lparr>pk_reader := RParsed\<rparr>" "pk_caller (ps_calls s4 k) = CEnded (Some e, None)"
    by auto
  from handle_run [OF 4(3), of par] 4(2,4) assms(3,6) obtain s5 where
    5: "share_run par [ReadFields k', HandleResponse k'] s4 = Some s5"
      "pk_done (ps_calls s5 k') = Some (answer_result (pe_proto (pp_env par)) (ca_target (pp_call par k')) rsp)"
      "pk_caller (ps_calls s5 k') = CWaiting" "pk_caller (ps_calls s5 k) = CEnded (Some e, None)"
    by (auto simp: handled_def pending_def Let_def)
  from return_run [OF HOL.refl 5(3), of "ReturnDone k'" _ _ par] 5(2,4) assms(3) obtain s6 where
    6: "share_run par [ReturnDone k'] s5 = Some s6" "pk_caller (ps_calls s6 k) = CEnded (Some e, None)"
      "pk_caller (ps_calls s6 k') = CReturned (answer_result (pe_proto (pp_env par)) (ca_target (pp_call par k')) rsp)"
    by auto
  have "share_run par (stale_schedule k k' bs bs' e) (pool_start (pp_client par)) = Some s6"
    using share_run_trans [OF 1(1) share_run_trans [OF 2(1) share_run_trans [OF 3(1)
      share_run_trans [OF 4(1) share_run_trans [OF 5(1) 6(1)]]]]]
    by (simp add: stale_schedule_def)
  with 6 show ?thesis by blast
qed

text \<open>
  Call \<open>k\<close> returns with its answer; its reading goroutine goes round its loop once more only
  after call \<open>k'\<close> got the codec, and so reads at the connection of that call.
\<close>

definition steal_schedule :: "nat \<Rightarrow> nat \<Rightarrow> bytes \<Rightarrow> bytes \<Rightarrow> pool_event list" where
  "steal_schedule k k' bs bs' =
     ((ask k @ receive_at k k bs) @ [ParseResponse k None] @ [ReadFields k, HandleResponse k]) @
     (ReturnDone k # leave k) @
     ask k' @ receive_at k k' bs' @ [ParseResponse k None] @ [ReadFields k, HandleResponse k] @
     [ResetResponse k', OpenConn k', ReadStep k' (ReadChunk 1), ParseResponse k' None] @ [ReturnDone k']"

lemma answered_run:
  assumes "writable par k" and "decodes_as par bs rsp" and "p_Id rsp = 0"
    and "answer_result (pe_proto (pp_env par)) (ca_target (pp_call par k)) rsp = (None, reply)"
    and "ps_pooled s" and "ps_calls s k = pool_call_start" and "ps_conns s k = conn_start"
  shows "\<exists>s'. share_run par ((ask k @ receive_at k k bs) @ [ParseResponse k None] @ [ReadFields k, HandleResponse k]) s = Some s'
    \<and> ps_holder s' = Some k \<and> ps_conns s' = (ps_conns s)(k := read_conn bs)
    \<and> ps_calls s' = (ps_calls s)(k := \<lparr>pk_caller = CWaiting, pk_done = Some (None, reply), pk_reader = RHeader, pk_place = RDone bs\<rparr>)"
proof -
  have ne: "bs \<noteq> []" using assms(2) by (simp add: decodes_as_def)
  let ?c = "\<lparr>pk_caller = CWaiting, pk_done = None, pk_reader = RGot bs, pk_place = RDone bs\<rparr>"
  from asked_run [OF assms(1,5-7) ne]
  obtain s1 where 1: "share_run par (ask k @ receive_at k k bs) s = Some s1"
    "ps_holder s1 = Some k" "ps_conns s1 = (ps_conns s)(k := read_conn bs)" "ps_calls s1 = (ps_calls s)(k := ?c)"
    by auto
  from parse_run [OF assms(2), of s1 k ?c] 1 obtain s2 where
    2: "share_run par [ParseResponse k None] s1 = Some s2" "cc_response (ps_codec s2) = rsp" "ps_holder s2 = Some k"
      "ps_conns s2 = (ps_conns s)(k := read_conn bs)"
      "ps_calls s2 = (ps_calls s)(k := ?c\<lparr>pk_reader := RParsed\<rparr>)"
    by auto
  from handle_run [of s2 k "?c\<lparr>pk_reader := RParsed\<rparr>" par] 2 assms(3,4) obtain s3 where
    3: "share_run par [ReadFields k, HandleResponse k] s2 = Some s3" "ps_holder s3 = Some k"
      "ps_conns s3 = (ps_conns s)(k := read_conn bs)"
      "ps_calls s3 = (ps_calls s)(k := \<lparr>pk_caller = CWaiting, pk_done = Some (None, reply), pk_reader = RHeader, pk_place = RDone bs\<rparr>)"
    by (auto simp: handled_def pending_def)
  with share_run_trans [OF 1(1) share_run_trans [OF 2(1) 3(1)]] show ?thesis by blast
qed

lemma read_again_empty:
  assumes "ps_holder s = Some k" and "ps_conns s k = read_conn bs" and "ps_calls s k = c"
    and "pk_reader c = RHeader" and "pk_place c = RIdle \<or> pk_place c = RDone bs"
  shows "\<exists>s'. share_run par [ResetResponse k, OpenConn k, ReadStep k (ReadChunk 1), ParseResponse k None] s = Some s'
    \<and> ps_holder s' = Some k \<and> ps_pooled s' = ps_pooled s \<and> ps_conns s' = (ps_conns s)(k := read_conn [])
    \<and> ps_calls s' = (ps_calls s)(k := end_reader ErrEOF (c\<lparr>pk_reader := RGot [], pk_place := RDone []\<rparr>))"
  using assms
  by (auto simp: share_step_def read_step_def parse_response_def conn_step.simps read_chunk_def read_conn_def
      conn_start_def NewConn_def Let_def)

lemma steal_run:
  assumes "writable par k" and "writable par k'" and "k \<noteq> k'"
    and "decodes_as par bs rsp" and "decodes_as par bs' rsp'" and "p_Id rsp = 0"
    and "answer_result (pe_proto (pp_env par)) (ca_target (pp_call par k)) rsp = (None, reply)"
  shows "\<exists>s. share_run par (steal_schedule k k' bs bs') (pool_start (pp_client par)) = Some s
    \<and> pk_caller (ps_calls s k) = CEnded (None, reply)
    \<and> pk_caller (ps_calls s k') = CReturned (Some ErrUnexpectedEOF, None)"
proof -
  have ne: "bs' \<noteq> []" using assms(5) by (simp add: decodes_as_def)
  let ?a = "\<lparr>pk_caller = CEnded (None, reply), pk_done = Some (None, reply), pk_reader = RHeader, pk_place = RDone bs\<rparr>"
  let ?b = "\<lparr>pk_caller = CWaiting, pk_done = None, pk_reader = RHeader, pk_place = RIdle\<rparr>"
  from answered_run [OF assms(1,4,6,7), of "pool_start (pp_client par)"] obtain s0 where
    0: "share_run par ((ask k @ receive_at k k bs) @ [ParseResponse k None] @ [ReadFields k, HandleResponse k])
          (pool_start (pp_client par)) = Some s0"
      "ps_holder s0 = Some k" "ps_conns s0 = (\<lambda>_. conn_start)(k := read_conn bs)"
      "ps_calls s0 = (\<lambda>_. pool_call_start)(k := ?a\<lparr>pk_caller := CWaiting\<rparr>)"
    by auto
  from return_leave_run [OF 0(2) HOL.refl, of bs "ReturnDone k" _ "(None, reply)" par] 0(3,4) obtain s1 cn where
    1: "share_run par (ReturnDone k # leave k) s0 = Some s1" "ps_pooled s1" "ps_conns s1 = (\<lambda>_. conn_start)(k := cn)"
      "ps_calls s1 = (\<lambda>_. pool_call_start)(k := ?a)"
    by auto
  from ask_run [OF assms(2) 1(2)] 1(3,4) assms(3) obtain s2 where
    2: "share_run par (ask k') s1 = Some s2" "ps_holder s2 = Some k'" "ps_conns s2 k' = conn_start"
      "ps_calls s2 k = ?a" "ps_calls s2 k' = ?b"
    by (auto simp: pool_call_start_def)
  from receive_run [OF 2(2,3) ne 2(4), of par] 2(5) assms(3) obtain s3 where
    3: "share_run par (receive_at k k' bs') s2 = Some s3" "ps_holder s3 = Some k'" "ps_conns s3 k' = read_conn bs'"
      "ps_calls s3 k = ?a\<lparr>pk_reader := RGot bs', pk_place := RDone bs'\<rparr>" "ps_calls s3 k' = ?b"
    by auto
  from parse_run [OF assms(5) 3(4)] 3 assms(3) obtain s4 where
    4: "share_run par [ParseResponse k None] s3 = Some s4" "ps_holder s4 = Some k'" "ps_conns s4 k' = read_conn bs'"
      "ps_calls s4 k = ?a\<lparr>pk_reader := RParsed, pk_place := RDone bs'\<rparr>" "ps_calls s4 k' = ?b"
    by auto
  from handle_run [OF 4(4), of par] 4 assms(3) obtain s5 where
    5: "share_run par [ReadFields k, HandleResponse k] s4 = Some s5" "ps_holder s5 = Some k'"
      "ps_conns s5 k' = read_conn bs'" "pk_caller (ps_calls s5 k) = CEnded (None, reply)" "ps_calls s5 k' = ?b"
    by (auto simp: handled_def pending_def)
  from read_again_empty [OF 5(2,3,5), of par] 5(4) assms(3) obtain s6 where
    6: "share_run par [ResetResponse k', OpenConn k', ReadStep k' (ReadChunk 1), ParseResponse k' None] s5 = Some s6"
      "pk_caller (ps_calls s6 k) = CEnded (None, reply)"
      "ps_calls s6 k' = \<lparr>pk_caller = CWaiting, pk_done = Some (Some ErrUnexpectedEOF, None), pk_reader = REnded, pk_place = RDone []\<rparr>"
    by (auto simp: end_reader_def pending_def closing_def rpc_terminate_def)
  from return_run [OF 6(3), of "ReturnDone k'" _ "(Some ErrUnexpectedEOF, None)" par] 6(2) assms(3) obtain s7 where
    7: "share_run par [ReturnDone k'] s6 = Some s7" "pk_caller (ps_calls s7 k) = CEnded (None, reply)"
      "pk_caller (ps_calls s7 k') = CReturned (Some ErrUnexpectedEOF, None)"
    by auto
  have "share_run par (steal_schedule k k' bs bs') (pool_start (pp_client par)) = Some s7"
    using share_run_trans [OF 0(1) share_run_trans [OF 1(1) share_run_trans [OF 2(1) share_run_trans [OF 3(1)
      share_run_trans [OF 4(1) share_run_trans [OF 5(1) share_run_trans [OF 6(1) 7(1)]]]]]]]
    by (simp add: steal_schedule_def)
  with 7 show ?thesis by blast
qed

text \<open>
  C13. A call can return the answer of another.  Call \<open>k\<close> gives up when its answer was read but
  not parsed; \<open>createRPCClient\<close> puts its codec back, and call \<open>k'\<close> takes it.  If the first
  reading goroutine parses after the second, into the response that both share, then call
  \<open>k'\<close>, for which only \<open>bs'\<close> arrived, returns what the response in \<open>bs\<close> says.
\<close>

theorem stale_answer_crosses_calls:
  assumes "writable par k" and "writable par k'" and "k \<noteq> k'"
    and "decodes_as par bs rsp" and "decodes_as par bs' rsp'" and "p_Id rsp = 0"
  shows "\<exists>es s. share_run par es (pool_start (pp_client par)) = Some s
    \<and> arrived k es = [bs] \<and> arrived k' es = [bs']
    \<and> pk_caller (ps_calls s k) = CEnded (Some e, None)
    \<and> pk_caller (ps_calls s k') = CReturned (answer_result (pe_proto (pp_env par)) (ca_target (pp_call par k')) rsp)"
proof -
  have "arrived k (stale_schedule k k' bs bs' e) = [bs]" "arrived k' (stale_schedule k k' bs bs' e) = [bs']"
    using assms(3) by (simp_all add: stale_schedule_def ask_def receive_at_def leave_def)
  with stale_run [OF assms, of e] show ?thesis by blast
qed

text \<open>
  C33. A call can lose its answer to the call before it.  Call \<open>k\<close> returned with its answer, but
  its reading goroutine still has to go round its loop once more; if the next call \<open>k'\<close> has
  taken the codec by then, that goroutine reads at the connection of call \<open>k'\<close> and drops what it
  reads, and call \<open>k'\<close> ends with an unexpected end of the file although its answer arrived.
\<close>

theorem stale_reader_takes_answer:
  assumes "writable par k" and "writable par k'" and "k \<noteq> k'"
    and "decodes_as par bs rsp" and "decodes_as par bs' rsp'" and "p_Id rsp = 0"
    and "answer_result (pe_proto (pp_env par)) (ca_target (pp_call par k)) rsp = (None, reply)"
  shows "\<exists>es s. share_run par es (pool_start (pp_client par)) = Some s
    \<and> arrived k es = [bs] \<and> arrived k' es = [bs']
    \<and> pk_caller (ps_calls s k) = CEnded (None, reply)
    \<and> pk_caller (ps_calls s k') = CReturned (Some ErrUnexpectedEOF, None)"
proof -
  have "arrived k (steal_schedule k k' bs bs') = [bs]" "arrived k' (steal_schedule k k' bs bs') = [bs']"
    using assms(3) by (simp_all add: steal_schedule_def ask_def receive_at_def leave_def)
  with steal_run [OF assms] show ?thesis by blast
qed

section \<open>Concrete calls\<close>

text \<open>Two calls of \<open>hello\<close>, with different answers, over a runtime that writes any request.\<close>

definition answer_a :: pb_response where
  "answer_a = empty_response\<lparr>p_Status := 200, p_Body := Some (hello_any [7, 8])\<rparr>"
definition answer_b :: pb_response where
  "answer_b = empty_response\<lparr>p_Status := 200, p_Body := Some (hello_any [3, 4])\<rparr>"

definition two_calls :: "(unit, string \<times> bytes) pool_par" where
  "two_calls =
     \<lparr>pp_env = \<lparr>pe_streams = framing,
                pe_proto = (table_proto [] [answer_a, answer_b])\<lparr>px_MarshalRequest := \<lambda>q. Inr [0]\<rparr>\<rparr>,
      pp_inject = \<lambda>x kv. kv, pp_extract = \<lambda>x kv. x, pp_client = demo_client,
      pp_call = \<lambda>k. \<lparr>ca_ctx = (), ca_opts = [], ca_method = ''hello'', ca_args = demo_args,
                      ca_target = GoType True ''*test.Hello''\<rparr>\<rparr>"

lemma two_calls_writable: "writable two_calls k"
  by (simp add: writable_def two_calls_def call_encoding_def pb_WriteRequest_def Let_def table_proto_def
      demo_args_def client_Marshal_def compress_body_def convertEncoding_def pb_encoding_defs Compress_def
      encoding_defs client_encode_def)

lemma two_calls_decode: "decodes_as two_calls [0] answer_a" "decodes_as two_calls [1] answer_b"
  by (simp_all add: decodes_as_def decodes_to_def two_calls_def client_Unmarshal_def table_proto_def at_place_def
      answer_a_def answer_b_def norm_response_def empty_response_def norm_metadata_def norm_body_def
      convertEncoding_def pb_encoding_defs Decompress_def encoding_defs hello_any_def)

lemma two_calls_results:
  "answer_result (pe_proto (pp_env two_calls)) (ca_target (pp_call two_calls k)) answer_a =
     (None, Some (''*test.Hello'', [7, 8]))"
  "answer_result (pe_proto (pp_env two_calls)) (ca_target (pp_call two_calls k)) answer_b =
     (None, Some (''*test.Hello'', [3, 4]))"
  by (simp_all add: answer_result_def answer_a_def answer_b_def two_calls_def empty_response_def hello_any_def table_proto_def)

lemma two_calls_simps: "p_Id answer_a = 0" "p_Id answer_b = 0" "pp_client two_calls = demo_client"
  by (simp_all add: answer_a_def answer_b_def empty_response_def two_calls_def)

theorem stale_answer_crosses_calls_witness:
  "\<exists>es s. share_run two_calls es (pool_start demo_client) = Some s \<and> arrived 1 es = [[1]]
    \<and> pk_caller (ps_calls s 1) = CReturned (None, Some (''*test.Hello'', [7, 8]))"
  using stale_answer_crosses_calls [OF two_calls_writable two_calls_writable _ two_calls_decode, of 0 1 ErrTimeout]
  by (auto simp: two_calls_results two_calls_simps)

theorem stale_reader_takes_answer_witness:
  "\<exists>es s. share_run two_calls es (pool_start demo_client) = Some s \<and> arrived 1 es = [[1]]
    \<and> pk_caller (ps_calls s 1) = CReturned (Some ErrUnexpectedEOF, None)"
  using stale_reader_takes_answer [OF two_calls_writable two_calls_writable _ two_calls_decode two_calls_simps(1)
      two_calls_results(1), of 0 1]
  by (auto simp: two_calls_simps)

end
