(* ===== verification/Codec_Exclusive.thy ===== *)
theory Codec_Exclusive
  imports Codec_Pool
begin

text \<open>
  When the shared codec of the protobuf client is safe: if a call takes it only after the reading
  goroutine of the call before has ended, the connection of every call goes through a run of the
  connection's own machine, and every call gets its own answer.
\<close>

section \<open>Calls that do not overlap\<close>

text \<open>
  The codec is taken only when the reading goroutine of the call that had it before has ended.
  Nothing in the code waits for that; this is what the code relies on.
\<close>

definition quiet :: "('x, 'p) pool_state \<Rightarrow> bool" where
  "quiet s = (case ps_holder s of None \<Rightarrow> True | Some j \<Rightarrow> pk_reader (ps_calls s j) = REnded)"

fun exclusive :: "('x, 'p) pool_par \<Rightarrow> pool_event list \<Rightarrow> ('x, 'p) pool_state \<Rightarrow> bool" where
  "exclusive par [] s = True"
| "exclusive par (e # es) s =
     ((case e of TakeCodec k \<Rightarrow> quiet s | _ \<Rightarrow> True)
      \<and> (case share_step par e s of None \<Rightarrow> True | Some s' \<Rightarrow> exclusive par es s'))"

lemma exclusive_snoc:
  assumes "share_run par es s0 = Some s1" and "exclusive par (es @ [e]) s0"
  shows "exclusive par es s0" and "\<And>k. e = TakeCodec k \<Longrightarrow> quiet s1"
  using assms by (induction es arbitrary: s0) (auto split: option.splits pool_event.splits)

text \<open>The readers of all calls but the last are not running, and every reader reads its own connection.\<close>

definition idle_or_ended :: "'p pool_call \<Rightarrow> bool" where
  "idle_or_ended c \<longleftrightarrow>
     (case pk_caller c of CIdle \<Rightarrow> c = pool_call_start | CEnded r \<Rightarrow> pk_reader c = REnded | _ \<Rightarrow> False)"

definition holder_ok :: "'p pool_call \<Rightarrow> nat \<Rightarrow> bool \<Rightarrow> bool" where
  "holder_ok c k pooled \<longleftrightarrow>
     pk_caller c \<noteq> CIdle \<and> (pooled \<longleftrightarrow> (\<exists>r. pk_caller c = CEnded r))
   \<and> (\<forall>j. pk_reader c = RRead j \<longrightarrow> j = k) \<and> pk_reader c \<noteq> RNone
   \<and> (\<forall>bs. pk_reader c = RGot bs \<longrightarrow> pk_place c = RDone bs)"

definition share_inv :: "('x, 'p) pool_state \<Rightarrow> bool" where
  "share_inv s \<longleftrightarrow>
     (\<forall>k. ps_holder s \<noteq> Some k \<longrightarrow> idle_or_ended (ps_calls s k))
   \<and> (\<forall>k. ps_holder s = Some k \<longrightarrow> holder_ok (ps_calls s k) k (ps_pooled s))"

lemmas share_step_defs = share_step_def take_codec_def go_call_def read_step_def parse_response_def
  read_fields_def handle_response_def return_with_def close_conn_def unsubscribe_conn_def put_codec_def

text \<open>The steps, one case for each way they can go.\<close>

lemma share_step_cases [consumes 1, case_names Take GoRefused GoFailed GoWritten Broker Reset Read
    Ended Parsed Fields Handled Returned Closed Unsubscribed Put]:
  fixes par :: "('x, 'p) pool_par" and s s' :: "('x, 'p) pool_state"
  assumes step: "share_step par e s = Some s'"
  obtains
    k where "e = TakeCodec k" "ps_pooled s" "pk_caller (ps_calls s k) = CIdle"
      "s' = set_call k ((ps_calls s k)\<lparr>pk_caller := CMade, pk_reader := RHeader\<rparr>)
        (s\<lparr>ps_codec := pb_createRPCClient (pp_client par) (ca_ctx (pp_call par k))
              (call_encoding (ca_opts (pp_call par k))) (Some (ps_codec s)),
           ps_holder := Some k, ps_pooled := False\<rparr>)"
  | k pw pb where "e = GoCall k pw pb" "pk_caller (ps_calls s k) = CMade" "pk_reader (ps_calls s k) = REnded"
      "s' = set_call k ((ps_calls s k)\<lparr>pk_caller := CWaiting, pk_done := Some (Some ErrShutdown, None)\<rparr>) s"
  | k pw pb d err where "e = GoCall k pw pb" "pk_caller (ps_calls s k) = CMade"
      "pb_WriteRequest (pp_env par) (pp_inject par) pw pb 0 (ca_method (pp_call par k))
         (ProtoMessage (ca_args (pp_call par k)) :: ('p, unit) pb_value) (ps_codec s) = (d, Inl err)"
      "s' = set_call k ((ps_calls s k)\<lparr>pk_caller := CWaiting, pk_done := Some (Some err, None)\<rparr>) (s\<lparr>ps_codec := d\<rparr>)"
  | k pw pb d out sent where "e = GoCall k pw pb" "pk_caller (ps_calls s k) = CMade"
      "pb_WriteRequest (pp_env par) (pp_inject par) pw pb 0 (ca_method (pp_call par k))
         (ProtoMessage (ca_args (pp_call par k)) :: ('p, unit) pb_value) (ps_codec s) = (d, Inr out)"
      "s' = set_call k ((ps_calls s k)\<lparr>pk_caller := CWaiting\<rparr>) (s\<lparr>ps_codec := d, ps_sent := sent\<rparr>)"
  | j ce cn where "e = BrokerStep j ce" "ce = SendClosed \<or> (\<exists>p. ce = Deliver p)"
      "conn_step ce (ps_conns s j) = Some cn" "s' = s\<lparr>ps_conns := (ps_conns s)(j := cn)\<rparr>"
  | k where "e = ResetResponse k" "pk_reader (ps_calls s k) = RHeader"
      "s' = set_call k ((ps_calls s k)\<lparr>pk_reader := RReset\<rparr>)
         (s\<lparr>ps_codec := (ps_codec s)\<lparr>cc_response := empty_response\<rparr>\<rparr>)"
  | k j ce cn where
      "e = OpenConn k \<and> ce = ReadAll \<and> pk_reader (ps_calls s k) = RReset \<and> ps_holder s = Some j \<or>
       e = ReadStep k ce \<and> (\<exists>n. ce = ReadChunk n \<or> ce = Receive n) \<and> pk_reader (ps_calls s k) = RRead j"
      "conn_step ce ((ps_conns s j)\<lparr>cn_reader := pk_place (ps_calls s k)\<rparr>) = Some cn"
      "s' = set_call k ((ps_calls s k)\<lparr>pk_reader := (case cn_reader cn of RDone bs \<Rightarrow> RGot bs | _ \<Rightarrow> RRead j),
           pk_place := cn_reader cn\<rparr>) (s\<lparr>ps_conns := (ps_conns s)(j := cn)\<rparr>)"
  | k pick bs d err where "e = ParseResponse k pick" "pk_reader (ps_calls s k) = RGot bs"
      "bs = [] \<and> err = ErrEOF \<or> bs \<noteq> [] \<and> (\<exists>m rsp. client_Unmarshal (pe_streams (pp_env par)) (pe_proto (pp_env par)) pick bs
         (cc_manager (ps_codec s)) = (m, rsp, Some err))"
      "s' = set_call k (end_reader err (ps_calls s k)) (s\<lparr>ps_codec := d\<rparr>)"
  | k pick bs m rsp where "e = ParseResponse k pick" "pk_reader (ps_calls s k) = RGot bs" "bs \<noteq> []"
      "client_Unmarshal (pe_streams (pp_env par)) (pe_proto (pp_env par)) pick bs (cc_manager (ps_codec s)) = (m, rsp, None)"
      "s' = set_call k ((ps_calls s k)\<lparr>pk_reader := RParsed\<rparr>)
         (s\<lparr>ps_codec := (ps_codec s)\<lparr>cc_manager := m, cc_response := rsp\<rparr>\<rparr>)"
  | k h d where "e = ReadFields k" "pk_reader (ps_calls s k) = RParsed"
      "rr_Seq h = p_Id (cc_response d)" "rr_Error h = p_ErrorMessage (cc_response d)"
      "cc_response d = cc_response (ps_codec s)"
      "s' = set_call k ((ps_calls s k)\<lparr>pk_reader := RHeaded h\<rparr>) (s\<lparr>ps_codec := d\<rparr>)"
  | k h where "e = HandleResponse k" "pk_reader (ps_calls s k) = RHeaded h"
      "s' = set_call k (handle_call par k (ps_codec s) h (ps_calls s k)) s"
  | k r where "e = ReturnDone k \<and> pk_done (ps_calls s k) = Some r \<or> (\<exists>x. e = ReturnCtx k x \<and> r = (Some x, None))"
      "pk_caller (ps_calls s k) = CWaiting" "s' = set_call k ((ps_calls s k)\<lparr>pk_caller := CReturned r\<rparr>) s"
  | k r j cn where "e = CloseStep k" "pk_caller (ps_calls s k) = CReturned r" "ps_holder s = Some j"
      "conn_step CloseChannel (ps_conns s j) = Some cn"
      "s' = set_call k ((ps_calls s k)\<lparr>pk_caller := CShut r\<rparr>) (s\<lparr>ps_conns := (ps_conns s)(j := cn)\<rparr>)"
  | k r j cn where "e = UnsubscribeStep k" "pk_caller (ps_calls s k) = CShut r" "ps_holder s = Some j"
      "conn_step Unsubscribe (ps_conns s j) = Some cn"
      "s' = set_call k ((ps_calls s k)\<lparr>pk_caller := CLeft r\<rparr>) (s\<lparr>ps_conns := (ps_conns s)(j := cn)\<rparr>)"
  | k r where "e = PutCodec k" "pk_caller (ps_calls s k) = CLeft r"
      "s' = set_call k ((ps_calls s k)\<lparr>pk_caller := CEnded r\<rparr>) (s\<lparr>ps_pooled := True\<rparr>)"
proof (cases e)
  case (TakeCodec k)
  with step show ?thesis by (intro that(1) [of k]) (auto simp: share_step_defs Let_def split: if_splits)
next
  case (GoCall k pw pb)
  let ?w = "pb_WriteRequest (pp_env par) (pp_inject par) pw pb 0 (ca_method (pp_call par k))
         (ProtoMessage (ca_args (pp_call par k)) :: ('p, unit) pb_value) (ps_codec s)"
  obtain d r where w: "?w = (d, r)" by (metis surj_pair)
  show ?thesis
  proof (cases "pk_reader (ps_calls s k) = REnded")
    case True
    with step GoCall show ?thesis
      by (intro that(2) [of k pw pb]) (auto simp: share_step_defs Let_def split: if_splits option.splits)
  next
    case False
    show ?thesis
    proof (cases r)
      case (Inl err)
      with False step GoCall w show ?thesis
        by (intro that(3) [of k pw pb d err]) (auto simp: share_step_defs Let_def split: if_splits option.splits)
    next
      case (Inr out)
      with False step GoCall w show ?thesis
        by (intro that(4) [of k pw pb d out "ps_sent s'"]) (auto simp: share_step_defs Let_def split: if_splits option.splits)
    qed
  qed
next
  case (BrokerStep j ce)
  with step show ?thesis
    by (cases ce) (auto simp: share_step_def intro: that(5))
next
  case (ResetResponse k)
  with step show ?thesis by (intro that(6) [of k]) (auto simp: share_step_def split: if_splits)
next
  case (OpenConn k)
  with step show ?thesis
    by (auto simp: share_step_def read_step_def Let_def intro: that(7) split: pool_reader.splits option.splits)
next
  case (ReadStep k ce)
  with step show ?thesis
    by (cases ce) (auto simp: share_step_def read_step_def Let_def intro: that(7) split: pool_reader.splits option.splits)
next
  case (ParseResponse k pick)
  with step obtain bs where bs: "pk_reader (ps_calls s k) = RGot bs"
    by (auto simp: share_step_def parse_response_def Let_def split: pool_reader.splits)
  obtain m rsp err where u: "client_Unmarshal (pe_streams (pp_env par)) (pe_proto (pp_env par)) pick bs
      (cc_manager (ps_codec s)) = (m, rsp, err)"
    by (metis surj_pair)
  show ?thesis
  proof (cases "bs = [] \<or> err \<noteq> None")
    case True
    with step ParseResponse bs u show ?thesis
      by (intro that(8) [of k pick bs "case err of None \<Rightarrow> ErrEOF | Some e \<Rightarrow> if bs = [] then ErrEOF else e" "ps_codec s'"])
        (auto simp: share_step_def parse_response_def Let_def split: if_splits option.splits)
  next
    case False
    with step ParseResponse bs u show ?thesis
      by (intro that(9) [of k pick bs m rsp])
        (auto simp: share_step_def parse_response_def Let_def)
  qed
next
  case (ReadFields k)
  let ?d = "ps_codec s"
  let ?h = "\<lparr>rr_ServiceMethod = (case cc_pending ?d (p_Id (cc_response ?d)) of None \<Rightarrow> [] | Some m \<Rightarrow> m),
              rr_Seq = p_Id (cc_response ?d), rr_Error = p_ErrorMessage (cc_response ?d)\<rparr>"
  from ReadFields step show ?thesis
    by (intro that(10) [of k ?h "ps_codec s'"]) (auto simp: share_step_def read_fields_def Let_def split: if_splits)
next
  case (HandleResponse k)
  with step show ?thesis
    by (auto simp: share_step_def handle_response_def intro!: that(11) [of k] split: pool_reader.splits)
next
  case (ReturnDone k)
  with step show ?thesis
    by (auto simp: share_step_def return_with_def Let_def intro!: that(12) [of k] split: option.splits if_splits)
next
  case (ReturnCtx k x)
  with step show ?thesis
    by (auto simp: share_step_def return_with_def Let_def intro!: that(12) [of k] split: option.splits if_splits)
next
  case (CloseStep k)
  with step show ?thesis
    by (auto simp: share_step_def close_conn_def Let_def intro!: that(13) [of k] split: option.splits caller.splits)
next
  case (UnsubscribeStep k)
  with step show ?thesis
    by (auto simp: share_step_def unsubscribe_conn_def Let_def intro!: that(14) [of k] split: option.splits caller.splits)
next
  case (PutCodec k)
  with step show ?thesis
    by (auto simp: share_step_def put_codec_def Let_def intro!: that(15) [of k] split: caller.splits)
qed

text \<open>
  Without overlap, only the call that holds the codec runs: the readers of all others are not
  started or have ended, and it reads at its own connection.
\<close>

lemma idle_or_ended_simps:
  "idle_or_ended c \<Longrightarrow> pk_reader c = RNone \<or> pk_reader c = REnded"
  "idle_or_ended c \<Longrightarrow> pk_caller c = CIdle \<or> (\<exists>r. pk_caller c = CEnded r)"
  by (auto simp: idle_or_ended_def pool_call_start_def split: caller.splits)

lemma not_idle_holds:
  assumes "share_inv s"
    and "pk_reader (ps_calls s k) \<noteq> RNone \<and> pk_reader (ps_calls s k) \<noteq> REnded
       \<or> pk_caller (ps_calls s k) \<noteq> CIdle \<and> (\<nexists>r. pk_caller (ps_calls s k) = CEnded r)"
  shows "ps_holder s = Some k"
  using assms idle_or_ended_simps [of "ps_calls s k"] by (auto simp: share_inv_def)

lemma holder_update:
  assumes "share_inv s" and "ps_holder s = Some k" and "holder_ok c k (ps_pooled s')"
    and "ps_holder s' = ps_holder s" and "ps_calls s' = (ps_calls s)(k := c)"
  shows "share_inv s'"
  using assms by (auto simp: share_inv_def)

lemma share_inv_step:
  assumes "share_inv s" and "share_step par e s = Some s'" and "\<And>k. e = TakeCodec k \<Longrightarrow> quiet s"
  shows "share_inv s'"
proof -
  have hold: "holder_ok (ps_calls s k) k (ps_pooled s)" if "ps_holder s = Some k" for k
    using assms(1) that by (simp add: share_inv_def)
  note live = not_idle_holds [OF assms(1)]
  note upd = holder_update [OF assms(1)]
  show ?thesis using assms(2)
  proof (cases rule: share_step_cases)
    case (Take k)
    have "idle_or_ended (ps_calls s j)" for j
      using assms(1) assms(3) [OF Take(1)] Take(2)
      by (cases "ps_holder s = Some j") (auto simp: share_inv_def quiet_def holder_ok_def idle_or_ended_def)
    with Take show ?thesis by (auto simp: share_inv_def holder_ok_def)
  next
    case (GoRefused k pw pb)
    with live [of k] hold [of k] show ?thesis by (intro upd [where k = k and c = "ps_calls s' k"]) (auto simp: holder_ok_def)
  next
    case (GoFailed k pw pb d err)
    with live [of k] hold [of k] show ?thesis by (intro upd [where k = k and c = "ps_calls s' k"]) (auto simp: holder_ok_def)
  next
    case (GoWritten k pw pb d out)
    with live [of k] hold [of k] show ?thesis by (intro upd [where k = k and c = "ps_calls s' k"]) (auto simp: holder_ok_def)
  next
    case (Broker j ce cn)
    with assms(1) show ?thesis by (simp add: share_inv_def)
  next
    case (Reset k)
    with live [of k] hold [of k] show ?thesis by (intro upd [where k = k and c = "ps_calls s' k"]) (auto simp: holder_ok_def)
  next
    case (Read k j ce cn)
    with live [of k] have "ps_holder s = Some k" by auto
    with Read hold [of k] show ?thesis
      by (intro upd [where k = k and c = "ps_calls s' k"]) (auto simp: holder_ok_def split: reader.splits)
  next
    case (Ended k pick bs d err)
    with live [of k] hold [of k] show ?thesis by (intro upd [where k = k and c = "ps_calls s' k"]) (auto simp: holder_ok_def end_reader_def)
  next
    case (Parsed k pick bs m rsp)
    with live [of k] hold [of k] show ?thesis by (intro upd [where k = k and c = "ps_calls s' k"]) (auto simp: holder_ok_def)
  next
    case (Fields k h d)
    with live [of k] hold [of k] show ?thesis by (intro upd [where k = k and c = "ps_calls s' k"]) (auto simp: holder_ok_def)
  next
    case (Handled k h)
    with live [of k] hold [of k] show ?thesis
      by (intro upd [where k = k and c = "ps_calls s' k"]) (auto simp: holder_ok_def handle_call_def split: sum.split)
  next
    case (Returned k r)
    with live [of k] hold [of k] show ?thesis by (intro upd [where k = k and c = "ps_calls s' k"]) (auto simp: holder_ok_def)
  next
    case (Closed k r j cn)
    with live [of k] hold [of k] show ?thesis by (intro upd [where k = k and c = "ps_calls s' k"]) (auto simp: holder_ok_def)
  next
    case (Unsubscribed k r j cn)
    with live [of k] hold [of k] show ?thesis by (intro upd [where k = k and c = "ps_calls s' k"]) (auto simp: holder_ok_def)
  next
    case (Put k r)
    with live [of k] hold [of k] show ?thesis by (intro upd [where k = k and c = "ps_calls s' k"]) (auto simp: holder_ok_def)
  qed
qed

lemma share_inv_run:
  assumes "share_run par es (pool_start cl) = Some s" and "exclusive par es (pool_start cl)"
  shows "share_inv s"
  using assms
proof (induction es arbitrary: s rule: rev_induct)
  case Nil
  then show ?case by (auto simp: share_inv_def idle_or_ended_def pool_start_def pool_call_start_def)
next
  case (snoc e es)
  then obtain s1 where s1: "share_run par es (pool_start cl) = Some s1" "share_step par e s1 = Some s"
    by (auto simp: share_run_snoc)
  with exclusive_snoc [OF s1(1) snoc.prems(2)] snoc.IH share_inv_step show ?case by blast
qed

text \<open>
  What happens at the connection of each call is then a run of the connection's own machine, with
  the reader of that call as its reader.
\<close>

definition conn_of :: "('x, 'p) pool_state \<Rightarrow> nat \<Rightarrow> conn" where
  "conn_of s k = (ps_conns s k)\<lparr>cn_reader := pk_place (ps_calls s k)\<rparr>"

lemma conn_step_other:
  assumes "ce = SendClosed \<or> (\<exists>p. ce = Deliver p) \<or> ce = CloseChannel \<or> ce = Unsubscribe"
    and "conn_step ce c = Some c'"
  shows "conn_step ce (c\<lparr>cn_reader := r\<rparr>) = Some (c'\<lparr>cn_reader := r\<rparr>)"
  using assms by (auto simp: conn_step.simps split: if_splits)

lemma conn_step_same_reader:
  assumes "conn_step ce (c\<lparr>cn_reader := r\<rparr>) = Some c'"
  shows "conn_step ce (c\<lparr>cn_reader := r\<rparr>) = Some (c'\<lparr>cn_reader := cn_reader c'\<rparr>)"
  using assms by simp

lemma conn_of_step:
  assumes "share_inv s" and "share_step par e s = Some s'"
  shows "conn_run (conn_trace k [e]) (conn_of s k) = Some (conn_of s' k)"
proof -
  have hold: "holder_ok (ps_calls s j) j (ps_pooled s)" if "ps_holder s = Some j" for j
    using assms(1) that by (simp add: share_inv_def)
  note live = not_idle_holds [OF assms(1)]
  note place = conn_of_def end_reader_def handle_call_def
  show ?thesis using assms(2)
  proof (cases rule: share_step_cases)
    case (Broker j ce cn)
    with conn_step_other [OF _ Broker(3), of "pk_place (ps_calls s k)"] show ?thesis by (auto simp: place)
  next
    case (Read k' j ce cn)
    with live [of k'] have h: "ps_holder s = Some k'" by auto
    with Read hold [OF h] have "j = k'" by (auto simp: holder_ok_def)
    with Read show ?thesis by (auto simp: place)
  next
    case (Closed k' r j cn)
    with live [of k'] have "ps_holder s = Some k'" by auto
    with Closed conn_step_other [OF _ Closed(4), of "pk_place (ps_calls s k)"] show ?thesis by (auto simp: place)
  next
    case (Unsubscribed k' r j cn)
    with live [of k'] have "ps_holder s = Some k'" by auto
    with Unsubscribed conn_step_other [OF _ Unsubscribed(4), of "pk_place (ps_calls s k)"] show ?thesis by (auto simp: place)
  qed (auto simp: place split: sum.split)
qed

lemma pool_run_induct [consumes 2, case_names start step]:
  assumes "share_run par es (pool_start cl) = Some s" and "exclusive par es (pool_start cl)"
    and "P [] (pool_start cl)"
    and "\<And>es e s s'. share_run par es (pool_start cl) = Some s \<Longrightarrow> exclusive par es (pool_start cl) \<Longrightarrow>
       share_inv s \<Longrightarrow> share_step par e s = Some s' \<Longrightarrow> share_inv s' \<Longrightarrow> P es s \<Longrightarrow> P (es @ [e]) s'"
  shows "P es s"
  using assms(1,2)
proof (induction es arbitrary: s rule: rev_induct)
  case Nil
  then show ?case using assms(3) by simp
next
  case (snoc e es)
  then obtain s1 where s1: "share_run par es (pool_start cl) = Some s1" "share_step par e s1 = Some s"
    by (auto simp: share_run_snoc)
  note ex = exclusive_snoc(1) [OF s1(1) snoc.prems(2)]
  show ?case
    by (rule assms(4) [OF s1(1) ex share_inv_run [OF s1(1) ex] s1(2) share_inv_run [OF snoc.prems] snoc.IH [OF s1(1) ex]])
qed

lemma pool_conn_run:
  assumes "share_run par es (pool_start cl) = Some s" and "exclusive par es (pool_start cl)"
  shows "conn_run (conn_trace k es) conn_start = Some (conn_of s k)"
  using assms
proof (induction rule: pool_run_induct)
  case start
  then show ?case by (simp add: conn_of_def pool_call_start_def conn_start_def NewConn_def)
next
  case (step es e s s')
  then show ?case
    using conn_of_step [OF step.hyps(3,4), of k] by (simp add: conn_run_append)
qed

lemma arrived_delivered:
  assumes "share_run par es (pool_start cl) = Some s" and "exclusive par es (pool_start cl)"
  shows "delivered (conn_trace k es) = arrived k es"
  using assms
proof (induction rule: pool_run_induct)
  case (step es e s s')
  have "delivered (conn_trace k [e]) = arrived k [e]"
    using step.hyps(4) by (cases rule: share_step_cases) auto
  with step.IH show ?case by simp
qed simp

text \<open>What a call may return: what its own answer makes of it, or an error of its own.\<close>

definition own_result ::
  "('x, 'p) pool_par \<Rightarrow> pool_event list \<Rightarrow> nat \<Rightarrow> pb_response \<Rightarrow> 'p call_result \<Rightarrow> bool" where
  "own_result par es k rsp r \<longleftrightarrow>
     arrived k es \<noteq> [] \<and> r = answer_result (pe_proto (pp_env par)) (ca_target (pp_call par k)) rsp
   \<or> (\<exists>e. r = (Some e, None) \<and>
        (ReturnCtx k e \<in> set es \<or> e = ErrShutdown \<or> e = ErrUnexpectedEOF
         \<or> (\<exists>pw pb d. snd (pb_WriteRequest (pp_env par) (pp_inject par) pw pb 0 (ca_method (pp_call par k))
               (ProtoMessage (ca_args (pp_call par k)) :: ('p, unit) pb_value) d) = Inl e)))"
  for par :: "('x, 'p) pool_par"

fun caller_result :: "'p caller \<Rightarrow> 'p call_result option" where
  "caller_result (CReturned r) = Some r"
| "caller_result (CShut r) = Some r"
| "caller_result (CLeft r) = Some r"
| "caller_result (CEnded r) = Some r"
| "caller_result _ = None"

lemma own_result_mono: "own_result par es k rsp r \<Longrightarrow> own_result par (es @ es') k rsp r"
  by (auto simp: own_result_def)

text \<open>
  A message read to its end is the call's message, while the connection is open; reading again
  gives nothing.
\<close>

lemma got_own:
  assumes "share_run par es (pool_start cl) = Some s" and "exclusive par es (pool_start cl)"
    and "share_inv s" and "pk_reader (ps_calls s k) = RGot bs"
    and "\<not> cn_closed (ps_conns s k)" and "length (arrived k es) \<le> 1"
  shows "bs = [] \<or> arrived k es = [bs]"
proof -
  have h: "ps_holder s = Some k" using assms(3,4) by (intro not_idle_holds) auto
  with assms(3,4) have "pk_place (ps_calls s k) = RDone bs" by (auto simp: share_inv_def holder_ok_def)
  moreover note run = pool_conn_run [OF assms(1,2), of k]
  moreover note eq = arrived_delivered [OF assms(1,2), of k]
  ultimately have "bs = [] \<or> bs = concat (arrived k es)" and "arrived k es \<noteq> []"
    using conn_read_inv_run [OF run] assms(5,6)
    by (auto simp: conn_read_inv_def conn_of_def le_Suc_eq numeral_eq_Suc)
  with assms(6) show ?thesis by (cases "arrived k es") auto
qed

text \<open>
  The state of a call, with what may be returned (\<open>Q\<close>) and whether its message arrived:
  until its connection is closed, a response that its reader has parsed is the call's own, and so
  is the result that net/rpc gives it.
\<close>

definition answer_ok ::
  "('p call_result \<Rightarrow> bool) \<Rightarrow> bool \<Rightarrow> pb_response \<Rightarrow> bool \<Rightarrow> pb_response \<Rightarrow> 'p pool_call \<Rightarrow> bool" where
  "answer_ok Q arr rsp closed cur c \<longleftrightarrow>
     (closed \<longrightarrow> caller_result (pk_caller c) \<noteq> None)
   \<and> (\<not> closed \<longrightarrow>
        (pk_reader c = RParsed \<longrightarrow> arr \<and> cur = rsp)
      \<and> (\<forall>h. pk_reader c = RHeaded h \<longrightarrow>
           arr \<and> cur = rsp \<and> rr_Seq h = p_Id rsp \<and> rr_Error h = p_ErrorMessage rsp)
      \<and> (\<forall>r. pk_done c = Some r \<longrightarrow> Q r))
   \<and> (\<forall>r. caller_result (pk_caller c) = Some r \<longrightarrow> Q r)"

definition answer_of :: "('p call_result \<Rightarrow> bool) \<Rightarrow> bool \<Rightarrow> pb_response \<Rightarrow> nat \<Rightarrow> ('x, 'p) pool_state \<Rightarrow> bool" where
  "answer_of Q arr rsp k s \<longleftrightarrow>
     answer_ok Q arr rsp (cn_closed (ps_conns s k)) (cc_response (ps_codec s)) (ps_calls s k)"

lemma answer_ok_mono:
  "answer_ok Q arr rsp closed cur c \<Longrightarrow> (\<And>r. Q r \<Longrightarrow> Q' r) \<Longrightarrow> (arr \<Longrightarrow> arr') \<Longrightarrow> answer_ok Q' arr' rsp closed cur c"
  unfolding answer_ok_def by blast

text \<open>What the steps of other calls change does not matter to a call whose reader is not running.\<close>

lemma answer_ok_still:
  assumes "answer_ok Q arr rsp closed cur c" and "pk_reader c = RNone \<or> pk_reader c = REnded"
  shows "answer_ok Q arr rsp closed cur' c"
  using assms unfolding answer_ok_def by auto

lemma conn_step_closed:
  "conn_step ce c = Some c' \<Longrightarrow> cn_closed c' \<longleftrightarrow> cn_closed c \<or> ce = CloseChannel"
  by (cases ce) (auto simp: conn_step.simps read_chunk_def split: if_splits reader.splits)

lemma WriteRequest_response:
  "cc_response (fst (pb_WriteRequest env inject pw pb seq meth param c)) = cc_response c"
  by (simp add: pb_WriteRequest_def Let_def split: pb_value.splits sum.splits prod.splits)

text \<open>A step while another call holds the codec.\<close>

lemma answer_step_other:
  assumes "answer_of Q arr rsp k s" and "share_inv s" and "ps_holder s \<noteq> Some k" and "share_step par e s = Some s'"
  shows "answer_of Q arr rsp k s'"
proof -
  have idle: "idle_or_ended (ps_calls s k)" using assms(2,3) by (simp add: share_inv_def)
  note ends = idle_or_ended_simps(1) [OF idle]
  note live = not_idle_holds [OF assms(2)]
  have frame: ?thesis if "ps_calls s' k = ps_calls s k" "cn_closed (ps_conns s' k) = cn_closed (ps_conns s k)"
    using answer_ok_still [OF assms(1) [unfolded answer_of_def] ends] that by (simp add: answer_of_def)
  show ?thesis using assms(4)
  proof (cases rule: share_step_cases)
    case (Take j)
    show ?thesis
    proof (cases "j = k")
      case True
      with Take(3) idle have "ps_calls s k = pool_call_start" by (simp add: idle_or_ended_def)
      with True Take assms(1) show ?thesis by (simp add: answer_of_def answer_ok_def pool_call_start_def)
    next
      case False
      with Take show ?thesis by (intro frame) simp_all
    qed
  next
    case (Broker j ce cn)
    then have "cn_closed cn = cn_closed (ps_conns s j)" using conn_step_closed [OF Broker(3)] by blast
    with Broker(4) show ?thesis by (intro frame) simp_all
  next
    case (Read j j' ce cn)
    with live [of j] have h: "ps_holder s = Some j" by auto
    then have "holder_ok (ps_calls s j) j (ps_pooled s)" using assms(2) by (simp add: share_inv_def)
    with Read(1) h have "j' = j" by (auto simp: holder_ok_def)
    with Read(3) h assms(3) show ?thesis by (intro frame) simp_all
  next
    case (GoRefused j pw pb)
    with live [of j] assms(3) have "j \<noteq> k" by auto
    with GoRefused show ?thesis by (intro frame) simp_all
  next
    case (GoFailed j pw pb d err)
    with live [of j] assms(3) have "j \<noteq> k" by auto
    with GoFailed show ?thesis by (intro frame) simp_all
  next
    case (GoWritten j pw pb d out sent)
    with live [of j] assms(3) have "j \<noteq> k" by auto
    with GoWritten show ?thesis by (intro frame) simp_all
  next
    case (Reset j)
    with live [of j] assms(3) have "j \<noteq> k" by auto
    with Reset show ?thesis by (intro frame) simp_all
  next
    case (Ended j pick bs d err)
    with live [of j] assms(3) have "j \<noteq> k" by auto
    with Ended show ?thesis by (intro frame) simp_all
  next
    case (Parsed j pick bs m rsp')
    with live [of j] assms(3) have "j \<noteq> k" by auto
    with Parsed show ?thesis by (intro frame) simp_all
  next
    case (Fields j h d)
    with live [of j] assms(3) have "j \<noteq> k" by auto
    with Fields show ?thesis by (intro frame) simp_all
  next
    case (Handled j h)
    with live [of j] assms(3) have "j \<noteq> k" by auto
    with Handled show ?thesis by (intro frame) simp_all
  next
    case (Returned j r)
    with live [of j] assms(3) have "j \<noteq> k" by auto
    with Returned show ?thesis by (intro frame) simp_all
  next
    case (Put j r)
    with live [of j] assms(3) have "j \<noteq> k" by auto
    with Put show ?thesis by (intro frame) simp_all
  next
    case (Closed j r j' cn)
    with live [of j] assms(3) have "j \<noteq> k" "j' \<noteq> k" by auto
    with Closed show ?thesis by (intro frame) simp_all
  next
    case (Unsubscribed j r j' cn)
    with live [of j] assms(3) have "j \<noteq> k" "j' \<noteq> k" by auto
    with Unsubscribed show ?thesis by (intro frame) simp_all
  qed
qed

text \<open>A step of the call itself.\<close>

lemma decodes_asD:
  assumes "decodes_as par bs rsp"
    and "client_Unmarshal (pe_streams (pp_env par)) (pe_proto (pp_env par)) pick bs m = (m', rsp', err)"
  shows "rsp' = rsp \<and> err = None"
  using assms unfolding decodes_as_def decodes_to_def by (metis prod.inject)

lemma handled_ok:
  assumes "answer_ok Q arr rsp closed cur c" and "pk_reader c = RHeaded h" and "cc_response d = cur"
    and "arr \<Longrightarrow> Q (answer_result (pe_proto (pp_env par)) (ca_target (pp_call par k)) rsp)"
  shows "answer_ok Q arr rsp closed cur (handle_call par k d h c)"
proof (cases closed)
  case True
  have "pk_caller (handle_call par k d h c) = pk_caller c" by (simp add: handle_call_def split: sum.split)
  with True assms(1) show ?thesis by (simp add: answer_ok_def)
next
  case False
  with assms(1-3) have "arr" "handle_call par k d h c = handled par k rsp c"
    by (auto simp: answer_ok_def intro: handle_call_eq [THEN trans])
  with False assms(1,4) show ?thesis
    by (auto simp: answer_ok_def handled_def Let_def)
qed

lemma answer_step_self:
  fixes par :: "('x, 'p) pool_par" and s s' :: "('x, 'p) pool_state"
  assumes inv: "answer_of Q arr rsp k s" and si: "share_inv s" "share_inv s'"
    and holds: "ps_holder s = Some k" and step: "share_step par e s = Some s'"
    and got: "\<And>bs. pk_reader (ps_calls s k) = RGot bs \<Longrightarrow> \<not> cn_closed (ps_conns s k) \<Longrightarrow>
       bs = [] \<or> arr \<and> decodes_as par bs rsp"
    and Qctx: "\<And>x. e = ReturnCtx k x \<Longrightarrow> Q (Some x, None)"
    and Qend: "Q (Some ErrUnexpectedEOF, None)" "Q (Some ErrShutdown, None)"
    and Qwrite: "\<And>pw pb d err. snd (pb_WriteRequest (pp_env par) (pp_inject par) pw pb 0 (ca_method (pp_call par k))
         (ProtoMessage (ca_args (pp_call par k)) :: ('p, unit) pb_value) d) = Inl err \<Longrightarrow> Q (Some err, None)"
    and Qown: "arr \<Longrightarrow> Q (answer_result (pe_proto (pp_env par)) (ca_target (pp_call par k)) rsp)"
  shows "answer_of Q arr rsp k s'"
proof -
  have live: "j = k" if "pk_reader (ps_calls s j) \<noteq> RNone \<and> pk_reader (ps_calls s j) \<noteq> REnded
       \<or> pk_caller (ps_calls s j) \<noteq> CIdle \<and> (\<nexists>r. pk_caller (ps_calls s j) = CEnded r)" for j
    using not_idle_holds [OF si(1) that] holds by simp
  have ok: "holder_ok (ps_calls s k) k (ps_pooled s)" using si(1) holds by (simp add: share_inv_def)
  note inv' = inv [unfolded answer_of_def]
  note simps = answer_of_def answer_ok_def
  show ?thesis using step
  proof (cases rule: share_step_cases)
    case (Take j)
    with ok have "j \<noteq> k" by (auto simp: holder_ok_def)
    with Take si(2) have "idle_or_ended (ps_calls s k)" by (auto simp: share_inv_def)
    with answer_ok_still [OF inv' idle_or_ended_simps(1)] Take \<open>j \<noteq> k\<close> show ?thesis by (simp add: answer_of_def)
  next
    case (GoRefused j pw pb)
    with live [of j] inv' Qend show ?thesis by (simp add: simps)
  next
    case (GoFailed j pw pb d err)
    with live [of j] have "j = k" by simp
    with GoFailed(3) have "Q (Some err, None)" "cc_response d = cc_response (ps_codec s)"
      using Qwrite WriteRequest_response by (metis snd_conv, metis fst_conv)
    with GoFailed \<open>j = k\<close> inv' show ?thesis by (simp add: simps)
  next
    case (GoWritten j pw pb d out sent)
    with live [of j] have "j = k" by simp
    from GoWritten(3) have "cc_response d = cc_response (ps_codec s)"
      using WriteRequest_response by (metis fst_conv)
    with GoWritten \<open>j = k\<close> inv' show ?thesis by (simp add: simps)
  next
    case (Broker j ce cn)
    then have "cn_closed cn = cn_closed (ps_conns s j)" using conn_step_closed [OF Broker(3)] by blast
    with Broker(4) inv' show ?thesis by (cases "j = k") (simp_all add: simps)
  next
    case (Reset j)
    with live [of j] inv' show ?thesis by (simp add: simps)
  next
    case (Read j j' ce cn)
    with live [of j] have "j = k" by auto
    with Read ok holds have "j' = k" by (auto simp: holder_ok_def)
    moreover have "cn_closed cn = cn_closed (ps_conns s k)"
      using conn_step_closed [OF Read(2)] Read(1) \<open>j' = k\<close> by auto
    ultimately show ?thesis using Read \<open>j = k\<close> inv' by (auto simp: simps split: reader.split simp del: split_paired_All)
  next
    case (Ended j pick bs d err)
    with live [of j] have "j = k" by auto
    have "rpc_terminate err = ErrUnexpectedEOF" if "\<not> cn_closed (ps_conns s k)"
      using Ended(2,3) got [of bs] that \<open>j = k\<close> by (auto simp: rpc_terminate_def dest: decodes_asD)
    with Ended \<open>j = k\<close> inv' Qend show ?thesis by (auto simp: simps end_reader_def simp del: split_paired_All)
  next
    case (Parsed j pick bs m rsp')
    with live [of j] have "j = k" by auto
    have "arr \<and> rsp' = rsp" if "\<not> cn_closed (ps_conns s k)"
      using Parsed(2-4) got [of bs] that \<open>j = k\<close> by (auto dest: decodes_asD)
    with Parsed \<open>j = k\<close> inv' show ?thesis by (simp add: simps)
  next
    case (Fields j h d)
    with live [of j] inv' show ?thesis by (simp add: simps)
  next
    case (Handled j h)
    with live [of j] have "j = k" by simp
    with Handled handled_ok [OF inv' _ HOL.refl Qown, where h = h] show ?thesis by (simp add: answer_of_def)
  next
    case (Returned j r)
    with live [of j] have "j = k" by simp
    with Returned inv' Qctx show ?thesis by (auto simp: simps simp del: split_paired_All)
  next
    case (Closed j r j' cn)
    with live [of j] conn_step_closed [OF Closed(4)] inv' holds show ?thesis by (simp add: simps del: split_paired_All)
  next
    case (Unsubscribed j r j' cn)
    with live [of j] conn_step_closed [OF Unsubscribed(4)] inv' holds show ?thesis by (simp add: simps del: split_paired_All)
  next
    case (Put j r)
    with live [of j] inv' show ?thesis by (simp add: simps del: split_paired_All)
  qed
qed


text \<open>
  C11. As long as the pool gives a codec away only when the goroutine that read for the call before
  has ended, no call gets anything of another: with at most one message for it, which is a
  response, whatever a call returns is what that response makes of it, or an error of its own (its
  context, its request, or the end of its connection), for any number of calls and any
  interleaving of their steps with the broker's.
\<close>

theorem exclusive_calls_get_own_answers:
  assumes "share_run par es (pool_start cl) = Some s" and "exclusive par es (pool_start cl)"
    and "length (arrived k es) \<le> 1" and "\<forall>bs\<in>set (arrived k es). decodes_as par bs rsp"
    and "caller_result (pk_caller (ps_calls s k)) = Some r"
  shows "own_result par es k rsp r"
proof -
  have "length (arrived k es) \<le> 1 \<and> (\<forall>bs\<in>set (arrived k es). decodes_as par bs rsp) \<longrightarrow>
      answer_of (own_result par es k rsp) (arrived k es \<noteq> []) rsp k s"
    using assms(1,2)
  proof (induction rule: pool_run_induct)
    case start
    then show ?case
      by (simp add: answer_of_def answer_ok_def pool_call_start_def conn_start_def NewConn_def)
  next
    case (step es e s s')
    let ?Q = "own_result par (es @ [e]) k rsp" and ?arr = "arrived k (es @ [e]) \<noteq> []"
    show ?case
    proof
      assume small: "length (arrived k (es @ [e])) \<le> 1 \<and> (\<forall>bs\<in>set (arrived k (es @ [e])). decodes_as par bs rsp)"
      with step.IH have "answer_of (own_result par es k rsp) (arrived k es \<noteq> []) rsp k s" by simp
      then have inv: "answer_of ?Q ?arr rsp k s"
        unfolding answer_of_def by (rule answer_ok_mono) (simp_all add: own_result_mono)
      show "answer_of ?Q ?arr rsp k s'"
      proof (cases "ps_holder s = Some k")
        case False
        with answer_step_other [OF inv step.hyps(3) _ step.hyps(4)] show ?thesis by simp
      next
        case True
        show ?thesis
        proof (rule answer_step_self [OF inv step.hyps(3,5) True step.hyps(4)])
          fix bs
          assume "pk_reader (ps_calls s k) = RGot bs" "\<not> cn_closed (ps_conns s k)"
          with got_own [OF step.hyps(1-3)] small show "bs = [] \<or> ?arr \<and> decodes_as par bs rsp" by fastforce
        qed (auto simp: own_result_def)
      qed
    qed
  qed
  with assms(3-5) show ?thesis by (simp add: answer_of_def answer_ok_def)
qed

section \<open>Concrete calls\<close>

text \<open>One call whose reading goroutine ends before its caller leaves.\<close>

definition calm_call :: "nat \<Rightarrow> bytes \<Rightarrow> pool_event list" where
  "calm_call k bs =
     ((ask k @ receive_at k k bs) @ [ParseResponse k None] @ [ReadFields k, HandleResponse k]) @
     [ResetResponse k, OpenConn k, ReadStep k (ReadChunk 1), ParseResponse k None] @ (ReturnDone k # leave k)"

lemma calm_call_run:
  assumes "writable par k" and "decodes_as par bs rsp" and "p_Id rsp = 0"
    and "answer_result (pe_proto (pp_env par)) (ca_target (pp_call par k)) rsp = (None, reply)"
    and "ps_pooled s" and "ps_calls s k = pool_call_start" and "ps_conns s k = conn_start"
  shows "\<exists>s' cn. share_run par (calm_call k bs) s = Some s' \<and> ps_holder s' = Some k \<and> ps_pooled s'
    \<and> ps_conns s' = (ps_conns s)(k := cn)
    \<and> ps_calls s' = (ps_calls s)(k := \<lparr>pk_caller = CEnded (None, reply), pk_done = Some (None, reply),
         pk_reader = REnded, pk_place = RDone []\<rparr>)"
proof -
  let ?c = "\<lparr>pk_caller = CWaiting, pk_done = Some (None, reply), pk_reader = RHeader, pk_place = RDone bs\<rparr>"
  from answered_run [OF assms] obtain s1 where
    1: "share_run par ((ask k @ receive_at k k bs) @ [ParseResponse k None] @ [ReadFields k, HandleResponse k]) s = Some s1"
      "ps_holder s1 = Some k" "ps_conns s1 = (ps_conns s)(k := read_conn bs)" "ps_calls s1 = (ps_calls s)(k := ?c)"
    by blast
  from read_again_empty [OF 1(2), of bs ?c par] 1(3,4) obtain s2 where
    2: "share_run par [ResetResponse k, OpenConn k, ReadStep k (ReadChunk 1), ParseResponse k None] s1 = Some s2"
      "ps_holder s2 = Some k" "ps_conns s2 = (ps_conns s)(k := read_conn [])"
      "ps_calls s2 = (ps_calls s)(k := ?c\<lparr>pk_reader := REnded, pk_place := RDone []\<rparr>)"
    by (auto simp: end_reader_def pending_def)
  from return_leave_run [OF 2(2) HOL.refl, of "[]" "ReturnDone k" _ "(None, reply)" par] 2(3,4) obtain s3 cn where
    3: "share_run par (ReturnDone k # leave k) s2 = Some s3" "ps_holder s3 = Some k" "ps_pooled s3" "ps_conns s3 = (ps_conns s)(k := cn)"
      "ps_calls s3 = (ps_calls s)(k := ?c\<lparr>pk_caller := CEnded (None, reply), pk_reader := REnded, pk_place := RDone []\<rparr>)"
    by auto
  with share_run_trans [OF 1(1) share_run_trans [OF 2(1) 3(1)]] show ?thesis
    by (intro exI [of _ s3] exI [of _ cn]) (simp add: calm_call_def)
qed

lemma exclusive_append:
  assumes "share_run par as s = Some s'"
  shows "exclusive par (as @ bs) s \<longleftrightarrow> exclusive par as s \<and> exclusive par bs s'"
  using assms by (induction "as" arbitrary: s) (auto split: option.splits)

lemma exclusive_one_call: "quiet s \<Longrightarrow> exclusive par (calm_call k bs) s"
  by (auto simp: calm_call_def ask_def receive_at_def leave_def split: option.split)

theorem exclusive_calls_get_own_answers_witness:
  "\<exists>s r. share_run two_calls (calm_call 0 [0] @ calm_call 1 [1]) (pool_start demo_client) = Some s
    \<and> pk_caller (ps_calls s 1) = CEnded r
    \<and> own_result two_calls (calm_call 0 [0] @ calm_call 1 [1]) 1 answer_b r"
proof -
  let ?es = "calm_call 0 [0] @ calm_call 1 [1]"
  from calm_call_run [OF two_calls_writable two_calls_decode(1) two_calls_simps(1) two_calls_results(1),
      of "pool_start demo_client" 0]
  obtain s1 cn where 1: "share_run two_calls (calm_call 0 [0]) (pool_start demo_client) = Some s1"
    "ps_holder s1 = Some 0" "ps_pooled s1" "ps_conns s1 1 = conn_start" "ps_calls s1 1 = pool_call_start"
    "pk_reader (ps_calls s1 0) = REnded"
    by auto
  from calm_call_run [OF two_calls_writable two_calls_decode(2) two_calls_simps(2) two_calls_results(2) 1(3,5,4)]
  obtain s2 r where 2: "share_run two_calls (calm_call 1 [1]) s1 = Some s2" "pk_caller (ps_calls s2 1) = CEnded r"
    by auto
  have "quiet s1" "quiet (pool_start demo_client :: (unit, string \<times> bytes) pool_state)"
    using 1 by (simp_all add: quiet_def pool_start_def)
  then have ex: "exclusive two_calls ?es (pool_start demo_client)"
    by (simp add: exclusive_append [OF 1(1)] exclusive_one_call)
  have arr: "arrived 1 ?es = [[1]]" by (simp add: calm_call_def ask_def receive_at_def leave_def)
  have "own_result two_calls ?es 1 answer_b r"
    by (rule exclusive_calls_get_own_answers [OF share_run_trans [OF 1(1) 2(1)] ex], unfold arr 2(2))
      (simp_all add: two_calls_decode)
  with share_run_trans [OF 1(1) 2(1)] 2(2) show ?thesis by blast
qed

end
