(* ===== verification/Json_Codec.thy ===== *)
theory Json_Codec
  imports Go_Std "HOL-Library.List_Lexorder" "HOL-Library.Char_ord"
begin

text \<open>
  The messages of the JSON transport (\<open>mqttjson/common.go\<close>) and what \<open>encoding/json\<close>
  makes of them: structures to JSON objects with the names of their tags, and objects to structures
  member by member.

  A JSON text is kept as the tree it denotes.  A \<open>json.RawMessage\<close>, which holds the text of a
  value, is the tree of that text, or \<open>None\<close> when it is nil; this is enough because every raw
  message of the program comes from \<open>json.Marshal\<close> or from parsing.  Writing and reading the
  text of a tree, and the values of the callers, are left to the environment.
\<close>

datatype json =
    JNull
  | JBool bool
  | JNumber string
  | JString string
  | JArray "json list"
  | JObject "(string \<times> json) list"

type_synonym json_metadata = "(string \<rightharpoonup> string) option"

record json_request =
  jq_ID :: "64 word"
  jq_Method :: string
  jq_Metadata :: json_metadata
  jq_Params :: "json option"

record json_response =
  jr_ID :: "64 word"
  jr_Method :: string
  jr_Status :: int
  jr_Metadata :: json_metadata
  jr_Data :: "json option"

definition zero_request :: json_request where
  "zero_request = \<lparr>jq_ID = 0, jq_Method = [], jq_Metadata = None, jq_Params = None\<rparr>"

definition zero_response :: json_response where
  "zero_response = \<lparr>jr_ID = 0, jr_Method = [], jr_Status = 0, jr_Metadata = None, jr_Data = None\<rparr>"

section \<open>Numbers\<close>

text \<open>
  The literal of a number read into an unsigned or a signed integer of 64 bits, as
  \<open>strconv.ParseUint\<close> and \<open>strconv.ParseInt\<close> do.
\<close>

definition is_digit :: "char \<Rightarrow> bool" where
  "is_digit c \<longleftrightarrow> 48 \<le> (of_char c :: nat) \<and> (of_char c :: nat) \<le> 57"

definition ParseUint :: "string \<Rightarrow> nat option" where
  "ParseUint l = (if l \<noteq> [] \<and> list_all is_digit l \<and> parse_uint l < 2 ^ 64 then Some (parse_uint l) else None)"

definition ParseInt :: "string \<Rightarrow> int option" where
  "ParseInt l =
     (let (neg, d) = (case l of c # r \<Rightarrow> if c = CHR ''-'' then (True, r) else (False, l) | [] \<Rightarrow> (False, []))
      in if d \<noteq> [] \<and> list_all is_digit d \<and> parse_uint d < (if neg then 2 ^ 63 + 1 else 2 ^ 63)
         then Some (if neg then - int (parse_uint d) else int (parse_uint d)) else None)"

lemma is_digit_digit: "d < 10 \<Longrightarrow> is_digit (digit d)"
  by (simp add: is_digit_def of_char_digit)

lemma format_uint_digits: "list_all is_digit (format_uint n)"
proof (induction n rule: format_uint.induct)
  case (1 n)
  then show ?case by (simp add: format_uint.simps [of n] is_digit_digit)
qed

lemma ParseUint_format: "n < 2 ^ 64 \<Longrightarrow> ParseUint (format_uint n) = Some n"
  by (simp add: ParseUint_def format_uint_neq_Nil format_uint_digits parse_format_uint)

lemma format_uint_not_minus: "format_uint n = c # r \<Longrightarrow> c \<noteq> CHR ''-''"
  using format_uint_digits [of n] by (auto simp: is_digit_def)

lemma ParseInt_format:
  assumes "- (2 ^ 63) \<le> i" and "i < 2 ^ 63"
  shows "ParseInt (format_int i) = Some i"
proof (cases "i < 0")
  case True
  with assms show ?thesis
    by (simp add: ParseInt_def format_int_def format_uint_neq_Nil format_uint_digits parse_format_uint)
next
  case False
  then obtain c r where "format_uint (nat i) = c # r" "c \<noteq> CHR ''-''"
    using format_uint_neq_Nil [of "nat i"] format_uint_not_minus [of "nat i"]
    by (cases "format_uint (nat i)") auto
  with False assms parse_format_uint [of "nat i"] format_uint_digits [of "nat i"] show ?thesis
    by (simp add: ParseInt_def format_int_def)
qed

section \<open>Writing\<close>

text \<open>A map with the members in the order of their keys; it is left out when it is empty.\<close>

definition encode_metadata :: "json_metadata \<Rightarrow> (string \<times> json) list" where
  "encode_metadata md =
     (case md of
        None \<Rightarrow> []
      | Some kv \<Rightarrow>
          if dom kv = {} then []
          else [(''metadata'',
                 JObject (map (\<lambda>k. (k, JString (the (kv k)))) (sorted_list_of_set (dom kv))))])"

definition encode_raw :: "json option \<Rightarrow> json" where
  "encode_raw r = (case r of None \<Rightarrow> JNull | Some j \<Rightarrow> j)"

definition encode_request :: "json_request \<Rightarrow> json" where
  "encode_request r =
     JObject ([(''id'', JNumber (format_uint (unat (jq_ID r)))), (''method'', JString (jq_Method r))]
       @ encode_metadata (jq_Metadata r) @ [(''params'', encode_raw (jq_Params r))])"

definition encode_response :: "json_response \<Rightarrow> json" where
  "encode_response r =
     JObject ([(''id'', JNumber (format_uint (unat (jr_ID r)))), (''method'', JString (jr_Method r)),
       (''status'', JNumber (format_int (jr_Status r)))]
       @ encode_metadata (jr_Metadata r) @ [(''data'', encode_raw (jr_Data r))])"

section \<open>Reading\<close>

text \<open>
  A value that does not fit its field leaves the field alone and decoding goes on; the first such
  error is returned in the end.  The text of the error, given the kind of the value and the field,
  is the first argument.  Null leaves a field alone too, but for a map, which becomes nil, and a
  raw message, which takes it like any other value.
\<close>

fun kind_of :: "json \<Rightarrow> string" where
  "kind_of JNull = ''null''"
| "kind_of (JBool b) = ''bool''"
| "kind_of (JNumber l) = ''number''"
| "kind_of (JString s) = ''string''"
| "kind_of (JArray js) = ''array''"
| "kind_of (JObject ms) = ''object''"

type_synonym mismatch = "string \<Rightarrow> string \<Rightarrow> gerror"

fun decode_uint :: "mismatch \<Rightarrow> string \<Rightarrow> json \<Rightarrow> 64 word \<Rightarrow> 64 word \<times> gerror option" where
  "decode_uint mm field JNull old = (old, None)"
| "decode_uint mm field (JNumber l) old =
     (case ParseUint l of
        Some n \<Rightarrow> (of_nat n, None)
      | None \<Rightarrow> (old, Some (mm (''number '' @ l) field)))"
| "decode_uint mm field j old = (old, Some (mm (kind_of j) field))"

fun decode_int :: "mismatch \<Rightarrow> string \<Rightarrow> json \<Rightarrow> int \<Rightarrow> int \<times> gerror option" where
  "decode_int mm field JNull old = (old, None)"
| "decode_int mm field (JNumber l) old =
     (case ParseInt l of
        Some i \<Rightarrow> (i, None)
      | None \<Rightarrow> (old, Some (mm (''number '' @ l) field)))"
| "decode_int mm field j old = (old, Some (mm (kind_of j) field))"

fun decode_string :: "mismatch \<Rightarrow> string \<Rightarrow> json \<Rightarrow> string \<Rightarrow> string \<times> gerror option" where
  "decode_string mm field JNull old = (old, None)"
| "decode_string mm field (JString s) old = (s, None)"
| "decode_string mm field j old = (old, Some (mm (kind_of j) field))"

definition first_error :: "gerror option \<Rightarrow> gerror option \<Rightarrow> gerror option" where
  "first_error e e2 = (if e = None then e2 else e)"

text \<open>The members of a map are added to those it has.\<close>

definition decode_member ::
  "mismatch \<Rightarrow> string \<Rightarrow> string \<times> json \<Rightarrow> (string \<rightharpoonup> string) \<times> gerror option \<Rightarrow>
   (string \<rightharpoonup> string) \<times> gerror option" where
  "decode_member mm field m acc =
     (case decode_string mm field (snd m) [] of
        (s, e) \<Rightarrow> ((fst acc)(fst m \<mapsto> s), first_error (snd acc) e))"

fun decode_metadata :: "mismatch \<Rightarrow> string \<Rightarrow> json \<Rightarrow> json_metadata \<Rightarrow> json_metadata \<times> gerror option" where
  "decode_metadata mm field JNull old = (None, None)"
| "decode_metadata mm field (JObject ms) old =
     (case fold (decode_member mm field) ms (case old of None \<Rightarrow> Map.empty | Some kv \<Rightarrow> kv, None) of
        (kv, e) \<Rightarrow> (Some kv, e))"
| "decode_metadata mm field j old = (old, Some (mm (kind_of j) field))"

text \<open>Names are matched without regard to the case of letters; other members are skipped.\<close>

definition lower :: "char \<Rightarrow> char" where
  "lower c = (if 65 \<le> (of_char c :: nat) \<and> (of_char c :: nat) \<le> 90 then char_of (of_char c + 32 :: nat) else c)"

definition fold_name :: "string \<Rightarrow> string" where
  "fold_name s = map lower s"

definition decode_request_member ::
  "mismatch \<Rightarrow> string \<times> json \<Rightarrow> json_request \<times> gerror option \<Rightarrow> json_request \<times> gerror option" where
  "decode_request_member mm m acc =
     (let r = fst acc; e = snd acc; name = fold_name (fst m); j = snd m in
      if name = ''id'' then
        (case decode_uint mm ''id'' j (jq_ID r) of (x, e2) \<Rightarrow> (r\<lparr>jq_ID := x\<rparr>, first_error e e2))
      else if name = ''method'' then
        (case decode_string mm ''method'' j (jq_Method r) of (x, e2) \<Rightarrow> (r\<lparr>jq_Method := x\<rparr>, first_error e e2))
      else if name = ''metadata'' then
        (case decode_metadata mm ''metadata'' j (jq_Metadata r) of (x, e2) \<Rightarrow>
           (r\<lparr>jq_Metadata := x\<rparr>, first_error e e2))
      else if name = ''params'' then (r\<lparr>jq_Params := Some j\<rparr>, e)
      else acc)"

definition decode_response_member ::
  "mismatch \<Rightarrow> string \<times> json \<Rightarrow> json_response \<times> gerror option \<Rightarrow> json_response \<times> gerror option" where
  "decode_response_member mm m acc =
     (let r = fst acc; e = snd acc; name = fold_name (fst m); j = snd m in
      if name = ''id'' then
        (case decode_uint mm ''id'' j (jr_ID r) of (x, e2) \<Rightarrow> (r\<lparr>jr_ID := x\<rparr>, first_error e e2))
      else if name = ''method'' then
        (case decode_string mm ''method'' j (jr_Method r) of (x, e2) \<Rightarrow> (r\<lparr>jr_Method := x\<rparr>, first_error e e2))
      else if name = ''status'' then
        (case decode_int mm ''status'' j (jr_Status r) of (x, e2) \<Rightarrow> (r\<lparr>jr_Status := x\<rparr>, first_error e e2))
      else if name = ''metadata'' then
        (case decode_metadata mm ''metadata'' j (jr_Metadata r) of (x, e2) \<Rightarrow>
           (r\<lparr>jr_Metadata := x\<rparr>, first_error e e2))
      else if name = ''data'' then (r\<lparr>jr_Data := Some j\<rparr>, e)
      else acc)"

fun decode_request :: "mismatch \<Rightarrow> json \<Rightarrow> json_request \<Rightarrow> json_request \<times> gerror option" where
  "decode_request mm (JObject ms) r = fold (decode_request_member mm) ms (r, None)"
| "decode_request mm JNull r = (r, None)"
| "decode_request mm j r = (r, Some (mm (kind_of j) []))"

fun decode_response :: "mismatch \<Rightarrow> json \<Rightarrow> json_response \<Rightarrow> json_response \<times> gerror option" where
  "decode_response mm (JObject ms) r = fold (decode_response_member mm) ms (r, None)"
| "decode_response mm JNull r = (r, None)"
| "decode_response mm j r = (r, Some (mm (kind_of j) []))"

section \<open>Round trips\<close>

lemma fold_names [simp]:
  "fold_name ''id'' = ''id''" "fold_name ''method'' = ''method''" "fold_name ''status'' = ''status''"
  "fold_name ''metadata'' = ''metadata''" "fold_name ''params'' = ''params''" "fold_name ''data'' = ''data''"
  by (simp_all add: fold_name_def lower_def)

lemma first_error_simps [simp]: "first_error None e = e" "first_error (Some e') e = Some e'"
  by (simp_all add: first_error_def)

lemma decode_uint_format:
  "decode_uint mm field (JNumber (format_uint (unat w))) old = (w, None)"
proof -
  have "unat w < 2 ^ 64" using unsigned_less [of w, where 'a = nat] by simp
  then show ?thesis by (simp add: ParseUint_format)
qed

lemma fold_decode_members:
  "fold (decode_member mm field) (map (\<lambda>k. (k, JString (the (kv k)))) ks) (m0, None) =
     (\<lambda>k. if k \<in> set ks then Some (the (kv k)) else m0 k, None)"
  by (induction ks arbitrary: m0) (auto simp: decode_member_def fun_eq_iff)

lemma decode_encode_map:
  assumes "finite (dom kv)"
  shows "decode_metadata mm field
      (JObject (map (\<lambda>k. (k, JString (the (kv k)))) (sorted_list_of_set (dom kv)))) None = (Some kv, None)"
proof -
  have "(\<lambda>k. if k \<in> dom kv then Some (the (kv k)) else None) = kv"
    by (auto simp: fun_eq_iff dom_def)
  with assms show ?thesis by (simp add: fold_decode_members)
qed

text \<open>Reading makes nil of the empty map that writing left out.\<close>

definition norm_md :: "json_metadata \<Rightarrow> json_metadata" where
  "norm_md md = (case md of None \<Rightarrow> None | Some kv \<Rightarrow> if dom kv = {} then None else Some kv)"

definition finite_md :: "json_metadata \<Rightarrow> bool" where
  "finite_md md = (case md of None \<Rightarrow> True | Some kv \<Rightarrow> finite (dom kv))"

lemma encode_metadata_cases:
  assumes "finite_md md"
  obtains "encode_metadata md = []" "norm_md md = None"
  | kv where "encode_metadata md = [(''metadata'',
       JObject (map (\<lambda>k. (k, JString (the (kv k)))) (sorted_list_of_set (dom kv))))]"
     "norm_md md = Some kv" "finite (dom kv)"
proof (cases md)
  case None
  then show ?thesis using that(1) by (simp add: encode_metadata_def norm_md_def)
next
  case (Some kv)
  with assms that show ?thesis
    by (cases "dom kv = {}") (simp_all add: encode_metadata_def norm_md_def finite_md_def del: dom_eq_empty_conv)
qed

lemmas message_simps [codec_simps] = encode_request_def encode_response_def decode_request_member_def
  decode_response_member_def decode_uint_format decode_encode_map zero_request_def zero_response_def

lemma json_request_decode_encode:
  assumes "finite_md (jq_Metadata r)"
  shows "decode_request mm (encode_request r) zero_request =
    (r\<lparr>jq_Metadata := norm_md (jq_Metadata r), jq_Params := Some (encode_raw (jq_Params r))\<rparr>, None)"
  by (rule encode_metadata_cases [OF assms]; cases r)
    (simp_all add: codec_simps del: decode_uint.simps decode_metadata.simps)

lemma json_response_decode_encode:
  assumes "finite_md (jr_Metadata r)" and "- (2 ^ 63) \<le> jr_Status r" and "jr_Status r < 2 ^ 63"
  shows "decode_response mm (encode_response r) zero_response =
    (r\<lparr>jr_Metadata := norm_md (jr_Metadata r), jr_Data := Some (encode_raw (jr_Data r))\<rparr>, None)"
proof -
  have status: "decode_int mm ''status'' (JNumber (format_int (jr_Status r))) old = (jr_Status r, None)" for old
    using ParseInt_format [OF assms(2,3)] by simp
  show ?thesis
    by (rule encode_metadata_cases [OF assms(1)]; use status in \<open>cases r\<close>)
      (simp_all add: codec_simps del: decode_uint.simps decode_int.simps decode_metadata.simps)
qed

section \<open>What decoding can produce\<close>

text \<open>A response as a Go program can hold it: the status is a 64-bit integer and maps are finite.\<close>

definition json_response_ok :: "json_response \<Rightarrow> bool" where
  "json_response_ok r \<longleftrightarrow> - (2 ^ 63) \<le> jr_Status r \<and> jr_Status r < 2 ^ 63 \<and> finite_md (jr_Metadata r)"

lemma ParseInt_range: "ParseInt l = Some i \<Longrightarrow> - (2 ^ 63) \<le> i \<and> i < 2 ^ 63"
  by (auto simp: ParseInt_def Let_def split: list.splits if_splits)

lemma decode_int_range:
  assumes "decode_int mm field j old = (i, e)" and "- (2 ^ 63) \<le> old" and "old < 2 ^ 63"
  shows "- (2 ^ 63) \<le> i \<and> i < 2 ^ 63"
proof (cases j)
  case (JNumber l)
  with assms show ?thesis by (cases "ParseInt l") (auto dest: ParseInt_range)
qed (use assms in auto)

lemma finite_members:
  "finite (dom (fst acc)) \<Longrightarrow> finite (dom (fst (fold (decode_member mm field) ms acc)))"
  by (induction ms arbitrary: acc) (simp_all add: decode_member_def split: prod.split)

lemma decode_metadata_finite:
  assumes "decode_metadata mm field j old = (md, e)" and "finite_md old"
  shows "finite_md md"
proof (cases j)
  case (JObject ms)
  let ?start = "case old of None \<Rightarrow> Map.empty | Some kv \<Rightarrow> kv"
  have "finite (dom ?start)" using assms(2) by (auto simp: finite_md_def split: option.splits)
  then have "finite (dom (fst (fold (decode_member mm field) ms (?start, None))))"
    by (intro finite_members) simp
  with assms(1) JObject show ?thesis
    by (auto simp: finite_md_def split: prod.splits)
qed (use assms in \<open>auto simp: finite_md_def\<close>)

lemma decode_member_ok:
  assumes "json_response_ok (fst acc)"
  shows "json_response_ok (fst (decode_response_member mm m acc))"
proof -
  obtain r e where acc: "acc = (r, e)" by (cases acc)
  obtain i e1 where i: "decode_int mm ''status'' (snd m) (jr_Status r) = (i, e1)"
    by (metis surj_pair)
  obtain md e2 where md: "decode_metadata mm ''metadata'' (snd m) (jr_Metadata r) = (md, e2)"
    by (metis surj_pair)
  have "- (2 ^ 63) \<le> i \<and> i < 2 ^ 63" "finite_md md"
    using decode_int_range [OF i] decode_metadata_finite [OF md] assms acc
    by (simp_all add: json_response_ok_def)
  with assms show ?thesis
    by (auto simp: acc decode_response_member_def Let_def i md json_response_ok_def split: prod.split)
qed

lemma decode_response_preserves_ok:
  assumes "json_response_ok r"
  shows "json_response_ok (fst (decode_response mm j r))"
proof (cases j)
  case (JObject ms)
  have "json_response_ok (fst (fold (decode_response_member mm) ms acc))"
    if "json_response_ok (fst acc)" for acc
    using that by (induction ms arbitrary: acc) (simp_all add: decode_member_ok)
  from this [of "(r, None)"] assms JObject show ?thesis by simp
qed (use assms in auto)



end
