(* ===== verification/Json_Server.thy ===== *)
theory Json_Server
  imports Server_Core Topics Broker Json_Codec
begin

text \<open>
  The JSON server (\<open>mqttjson/server.go\<close>, \<open>mqttjson/context.go\<close>): how a message of the
  request topic becomes a call of the embedded server, and how a response becomes a message.
  \<open>MQTTContext\<close> is the \<open>ChildContext\<close> of this transport; its contract is the locale of
  the request context, interpreted here.
\<close>

section \<open>The environment\<close>

text \<open>
  Writing a tree as text, reading a text that must be one value, and the values of a stream of
  texts with the error that reading it ends with; marshalling a value of a caller and unmarshalling
  into one; the texts of the errors of decoding, and of \<open>%s\<close> for values that are not strings;
  and the validator, which is not part of the repository.
\<close>

record 'v json_env =
  je_print :: "json \<Rightarrow> bytes"
  je_parse :: "bytes \<Rightarrow> gerror + json"
  je_stream :: "bytes \<Rightarrow> json list \<times> gerror"
  je_Marshal :: "'v \<Rightarrow> gerror + json"
  je_Unmarshal :: "json \<Rightarrow> 'v \<Rightarrow> 'v \<times> gerror option"
  je_zero :: "string \<Rightarrow> 'v"
  je_mismatch :: mismatch
  je_Sprintf :: "json \<Rightarrow> string"
  je_Struct :: "'v \<Rightarrow> gerror option"

definition empty_input :: gerror where
  "empty_input = Errorf ''unexpected end of JSON input''"

section \<open>Requests and responses\<close>

record json_request_data =
  jd_Topic :: string
  jd_Request :: json_request

record json_response_data =
  js_Topic :: string
  js_Response :: json_response

definition ReplyTopic :: "json_request_data \<Rightarrow> string" where
  "ReplyTopic r = strings_ReplaceAll request_word response_word (jd_Topic r)"

definition json_GetResponse :: "json_request_data \<Rightarrow> json_response_data" where
  "json_GetResponse r =
     \<lparr>js_Topic = ReplyTopic r,
      js_Response = zero_response\<lparr>jr_ID := jq_ID (jd_Request r), jr_Method := jq_Method (jd_Request r)\<rparr>\<rparr>"

text \<open>
  The error of marshalling the result is dropped: the data is nil then.  A nil result is marshalled
  to null.
\<close>

definition json_MakeOKResponse :: "'v json_env \<Rightarrow> json_request_data \<Rightarrow> 'v option \<Rightarrow> json_response_data" where
  "json_MakeOKResponse env r x =
     (let rsp = json_GetResponse r;
          data = (case x of
                    None \<Rightarrow> Some JNull
                  | Some v \<Rightarrow> (case je_Marshal env v of Inl e \<Rightarrow> None | Inr j \<Rightarrow> Some j))
      in rsp\<lparr>js_Response := (js_Response rsp)\<lparr>jr_Status := RPCStatusOK, jr_Data := data\<rparr>\<rparr>)"

definition json_MakeErrResponse :: "json_request_data \<Rightarrow> int \<Rightarrow> gerror \<Rightarrow> json_response_data" where
  "json_MakeErrResponse r status err =
     (let rsp = json_GetResponse r
      in rsp\<lparr>js_Response := (js_Response rsp)
           \<lparr>jr_Status := status, jr_Data := Some (JObject [(''message'', JString (error_text err))])\<rparr>\<rparr>)"

section \<open>The server\<close>

record ('w, 'v, 'x, 'u) json_server =
  jsv_Server :: "('w, 'v, 'x, 'u) server"
  jsv_subscribeTopic :: string
  jsv_qos :: byte

definition json_NewServer ::
  "string \<Rightarrow> int \<Rightarrow> string \<Rightarrow> string \<Rightarrow> server_option list \<Rightarrow>
   ('w, 'v, 'x, 'u) json_server \<times> adapter_call list" where
  "json_NewServer uuid numCPU pfx deviceId opts =
     (let topic = path_Join [pfx, deviceId, ''request/+'']
      in (\<lparr>jsv_Server = NewServer uuid numCPU opts, jsv_subscribeTopic = topic, jsv_qos = 0\<rparr>,
          [CallEnsureConnected, CallOnConnect topic 0]))"

definition json_Close :: "adapter_call list \<times> gerror option" where
  "json_Close = ([CallDisconnect], None)"

definition json_initReceive :: "('w, 'v, 'x, 'u) json_server \<Rightarrow> adapter_call list \<times> gerror option" where
  "json_initReceive s = ([CallSubscribe (jsv_subscribeTopic s) (jsv_qos s)], None)"

text \<open>\<open>reply\<close> publishes the text of the response; a response always marshals.\<close>

type_synonym json_world = "message list"

definition json_reply ::
  "'v json_env \<Rightarrow> json_response_data \<Rightarrow> json_world \<Rightarrow> json_world \<times> gerror option" where
  "json_reply env rs w =
     (w @ [\<lparr>m_Topic = js_Topic rs, m_QoS = 0, m_Retained = False,
            m_Payload = je_print env (encode_response (js_Response rs))\<rparr>], None)"

section \<open>The context of a request\<close>

definition json_NewMQTTContext_ctx ::
  "((string \<rightharpoonup> string) \<Rightarrow> 'x) \<Rightarrow> 'x \<Rightarrow> json_metadata \<Rightarrow> 'x" where
  "json_NewMQTTContext_ctx extract background md =
     (case md of None \<Rightarrow> background | Some kv \<Rightarrow> extract kv)"

text \<open>
  \<open>Bind\<close> unmarshals the parameters into a zero value of the target's type, and validates what
  it got.
\<close>

definition json_Bind :: "'v json_env \<Rightarrow> json_request_data \<Rightarrow> go_type \<Rightarrow> (gerror + 'v) outcome" where
  "json_Bind env r target =
     Ret (case jq_Params (jd_Request r) of
            None \<Rightarrow> Inl empty_input
          | Some j \<Rightarrow>
              (case je_Unmarshal env j (je_zero env (type_string target)) of
                 (v, Some e) \<Rightarrow> Inl e
               | (v, None) \<Rightarrow> (case je_Struct env v of Some e \<Rightarrow> Inl e | None \<Rightarrow> Inr v)))"

definition json_response_for :: "'v json_env \<Rightarrow> json_request_data \<Rightarrow> 'v response \<Rightarrow> json_response_data" where
  "json_response_for env r x =
     (case r_error x of
        Some e \<Rightarrow> json_MakeErrResponse r (r_status x) e
      | None \<Rightarrow> json_MakeOKResponse env r (r_result x))"

definition json_Reply ::
  "'v json_env \<Rightarrow> json_request_data \<Rightarrow> json_world \<Rightarrow> 'v response option \<Rightarrow> json_world \<times> bool outcome" where
  "json_Reply env r w rsp =
     (case rsp of
        None \<Rightarrow> (w, Panic nil_deref)
      | Some x \<Rightarrow> (fst (json_reply env (json_response_for env r x) w), Ret True))"

definition json_child ::
  "'v json_env \<Rightarrow> 'x \<Rightarrow> json_request_data \<Rightarrow> (json_world, 'v, 'x) child" where
  "json_child env ctx r =
     \<lparr>c_ID = \<lparr>id_Num = jq_ID (jd_Request r), id_Str = []\<rparr>,
      c_Method = jq_Method (jd_Request r),
      c_Ctx = Some ctx,
      c_Reply = json_Reply env r,
      c_ReplyDesc = ReplyTopic r,
      c_Bind = json_Bind env r\<rparr>"

section \<open>Receiving\<close>

text \<open>
  The callback of the subscription.  A text that is not JSON leaves the request empty; one that is,
  but does not fit the structure, has filled the fields that do fit when it is answered.
\<close>

definition json_receive ::
  "'v json_env \<Rightarrow> ((string \<rightharpoonup> string) \<Rightarrow> 'x) \<Rightarrow> 'x \<Rightarrow> message \<Rightarrow> json_world \<Rightarrow>
   json_world \<times> (json_world, 'v, 'x) child option" where
  "json_receive env extract background m w =
     (let r0 = \<lparr>jd_Topic = m_Topic m, jd_Request = zero_request\<rparr>
      in if m_Retained m
         then (fst (json_reply env (json_MakeErrResponse r0 400 ErrRetailedMessage) w), None)
         else (case je_parse env (m_Payload m) of
                 Inl e \<Rightarrow> (fst (json_reply env (json_MakeErrResponse r0 400 e) w), None)
               | Inr j \<Rightarrow>
                   (case decode_request (je_mismatch env) j zero_request of
                      (req, err) \<Rightarrow>
                        (let r = r0\<lparr>jd_Request := req\<rparr>
                         in case err of
                              Some e \<Rightarrow> (fst (json_reply env (json_MakeErrResponse r 400 e) w), None)
                            | None \<Rightarrow>
                                (w, Some (json_child env
                                       (json_NewMQTTContext_ctx extract background (jq_Metadata req)) r))))))"

section \<open>The contract of the transport\<close>

lemma json_response_topic:
  "js_Topic (json_response_for env r x) = ReplyTopic r"
  "js_Topic (json_MakeErrResponse r status e) = ReplyTopic r"
  by (simp_all add: json_response_for_def json_MakeErrResponse_def json_MakeOKResponse_def
    json_GetResponse_def Let_def split: option.split)

interpretation json_context: child_context "json_child env ctx r" "\<lambda>w. w" m_Topic for env ctx r
  by unfold_locales
    (auto simp: json_child_def json_Reply_def json_reply_def json_response_topic split: option.splits)

section \<open>What a request is answered\<close>

text \<open>What a stream says of one text is that text, and nothing follows.\<close>

definition carries :: "'v json_env \<Rightarrow> json \<Rightarrow> bool" where
  "carries env j \<longleftrightarrow>
     je_parse env (je_print env j @ [10]) = Inr j \<and> je_stream env (je_print env j) = ([j], ErrEOF)"

text \<open>
  A message that is retained, is not JSON or does not fit a request never starts a call.  It is
  answered at once with one message on the reply topic of its topic, which carries status 400, the
  error's text, and the identifier and method if they were read before the error.
\<close>

lemma json_bad_request_answered_400:
  assumes "json_receive env extract background m w = (w', None)"
  shows "\<exists>req e. w' = w @ [\<lparr>m_Topic = strings_ReplaceAll request_word response_word (m_Topic m), m_QoS = 0,
        m_Retained = False, m_Payload = je_print env (encode_response
          \<lparr>jr_ID = jq_ID req, jr_Method = jq_Method req, jr_Status = 400, jr_Metadata = None,
           jr_Data = Some (JObject [(''message'', JString (error_text e))])\<rparr>)\<rparr>]
    \<and> (if m_Retained m then req = zero_request \<and> e = ErrRetailedMessage
       else case je_parse env (m_Payload m) of
              Inl e' \<Rightarrow> req = zero_request \<and> e = e'
            | Inr j \<Rightarrow> decode_request (je_mismatch env) j zero_request = (req, Some e))"
  using assms
  by (auto simp: json_receive_def Let_def json_reply_def json_MakeErrResponse_def json_GetResponse_def
      ReplyTopic_def zero_response_def zero_request_def split: if_splits sum.splits prod.splits option.splits)

text \<open>A call publishes at most one message, in every schedule.\<close>

lemma json_call_publishes_at_most_one:
  assumes "call_run srv (json_child env ctx r) elapsed sched
      (call_start srv (json_child env ctx r) allow wait w) = Some st"
  shows "world (sh st) = w \<or> (\<exists>msg. world (sh st) = w @ [msg] \<and> m_Topic msg = ReplyTopic r)"
  using json_context.call_publishes [OF assms] by (simp add: json_child_def)

text \<open>A request whose method is a number, with an identifier that is read before the error.\<close>

definition broken_env :: "unit json_env" where
  "broken_env =
     \<lparr>je_print = (\<lambda>j. [1]),
      je_parse = (\<lambda>bs. Inr (JObject [(''id'', JNumber ''7''), (''method'', JNumber ''1'')])),
      je_stream = (\<lambda>bs. ([], ErrEOF)), je_Marshal = (\<lambda>v. Inr JNull), je_Unmarshal = (\<lambda>j v. (v, None)),
      je_zero = (\<lambda>t. ()), je_mismatch = (\<lambda>k f. Errorf k), je_Sprintf = (\<lambda>j. []), je_Struct = (\<lambda>v. None)\<rparr>"

definition broken_message :: message where
  "broken_message = \<lparr>m_Topic = ''a/d/request/1'', m_QoS = 0, m_Retained = False, m_Payload = [0]\<rparr>"

lemma broken_request:
  "decode_request (je_mismatch broken_env) (JObject [(''id'', JNumber ''7''), (''method'', JNumber ''1'')]) zero_request
     = (zero_request\<lparr>jq_ID := 7\<rparr>, Some (Errorf ''number''))"
  by (simp add: decode_request_member_def ParseUint_def is_digit_def parse_uint_def broken_env_def
      zero_request_def)

lemma json_bad_request_answered_400_witness:
  "\<exists>msg. fst (json_receive broken_env (\<lambda>kv. ()) () broken_message []) = [msg] \<and> m_Payload msg = [1]"
proof -
  have parse: "je_parse broken_env (m_Payload broken_message)
      = Inr (JObject [(''id'', JNumber ''7''), (''method'', JNumber ''1'')])"
    by (simp add: broken_env_def)
  have "snd (json_receive broken_env (\<lambda>kv. ()) () broken_message []) = None"
    by (simp add: json_receive_def broken_message_def parse [unfolded broken_message_def, simplified]
        broken_request del: decode_request.simps)
  then obtain w' where "json_receive broken_env (\<lambda>kv. ()) () broken_message [] = (w', None)"
    by (metis prod.collapse)
  from json_bad_request_answered_400 [OF this] this show ?thesis
    by (auto simp: broken_env_def)
qed

end
