(* ===== verification/Json_Conn.thy ===== *)
theory Json_Conn
  imports Rpc_Conn
begin

text \<open>
  The connection of the JSON transport (\<open>mqttjson/conn.go\<close>), written as its methods: what one
  \<open>Read\<close> returns, what the callback does with a message, \<open>Write\<close> and the two parts of \<open>Close\<close>.
  They are the steps of \<open>Rpc_Conn\<close>, whose properties then hold here; and the decoder, which reads
  pieces of any size, sees the message.
\<close>

section \<open>Methods\<close>

definition newRPCConn :: "string \<Rightarrow> string \<Rightarrow> byte \<Rightarrow> conn \<times> adapter_call list" where
  "newRPCConn requestTopic responseTopic qos =
     (\<lparr>cn_ready = False, cn_bytesReader = [], cn_senders = 0, cn_closed = False,
       cn_unsubscribed = False, cn_reader = RIdle, cn_crashed = False\<rparr>,
      [CallOnConnect responseTopic qos])"

text \<open>A message is stored and the flag set; then the callback waits to send on the channel.\<close>

definition json_on_message :: "bytes \<Rightarrow> conn \<Rightarrow> conn" where
  "json_on_message p c = c\<lparr>cn_bytesReader := p, cn_ready := True, cn_senders := Suc (cn_senders c)\<rparr>"

text \<open>A read returns bytes or the end of the file, or waits on the channel.\<close>

datatype read_out = ReadBytes bytes | ReadEOF | ReadWaits

definition bytes_Read :: "nat \<Rightarrow> conn \<Rightarrow> conn \<times> read_out" where
  "bytes_Read n c =
     (if cn_bytesReader c = [] then (c, ReadEOF)
      else (c\<lparr>cn_bytesReader := drop n (cn_bytesReader c)\<rparr>, ReadBytes (take n (cn_bytesReader c))))"

definition json_conn_Read :: "nat \<Rightarrow> conn \<Rightarrow> conn \<times> read_out" where
  "json_conn_Read n c = (if cn_ready c then bytes_Read n c else (c, ReadWaits))"

text \<open>The rest of a read that has waited; \<open>ok\<close> is false when the channel was closed.\<close>

definition json_conn_Read_received :: "bool \<Rightarrow> nat \<Rightarrow> conn \<Rightarrow> conn \<times> read_out" where
  "json_conn_Read_received ok n c = (if \<not> ok then (c, ReadEOF) else bytes_Read n c)"

definition json_conn_Write :: "string \<Rightarrow> byte \<Rightarrow> bytes \<Rightarrow> message \<times> nat \<times> gerror option" where
  "json_conn_Write requestTopic qos data =
     (\<lparr>m_Topic = requestTopic, m_QoS = qos, m_Retained = False, m_Payload = data\<rparr>, length data, None)"

text \<open>Closing a closed channel panics.\<close>

definition json_close_channel :: "conn \<Rightarrow> conn" where
  "json_close_channel c = (if cn_closed c then c\<lparr>cn_crashed := True\<rparr> else c\<lparr>cn_closed := True\<rparr>)"

definition json_close_unsubscribe :: "conn \<Rightarrow> conn" where
  "json_close_unsubscribe c = c\<lparr>cn_unsubscribed := True\<rparr>"

definition json_conn_Close :: "conn \<Rightarrow> conn" where
  "json_conn_Close c =
     (let c1 = json_close_channel c in if cn_crashed c1 then c1 else json_close_unsubscribe c1)"

section \<open>The same state machine\<close>

text \<open>A reader that collects what it reads, as \<open>io.ReadAll\<close> does.\<close>

fun collect :: "bytes \<Rightarrow> conn \<times> read_out \<Rightarrow> conn" where
  "collect acc (c, ReadBytes bs) = c\<lparr>cn_reader := RReading (acc @ bs)\<rparr>"
| "collect acc (c, ReadEOF) = c\<lparr>cn_reader := RDone acc\<rparr>"
| "collect acc (c, ReadWaits) = c\<lparr>cn_reader := RWaiting acc\<rparr>"

lemma json_conn_same: "newRPCConn = NewConn" "json_conn_Write = conn_Write"
  by (simp_all add: fun_eq_iff newRPCConn_def NewConn_def json_conn_Write_def conn_Write_def)

lemma collect_bytes_Read: "collect acc (bytes_Read n c) = read_chunk n acc c"
  by (simp add: bytes_Read_def read_chunk_def)

lemma json_conn_steps:
  assumes "\<not> cn_crashed c"
  shows "\<not> cn_unsubscribed c \<Longrightarrow> conn_step (Deliver p) c = Some (json_on_message p c)"
    and "cn_reader c = RReading acc \<Longrightarrow> 0 < n \<Longrightarrow>
      conn_step (ReadChunk n) c = Some (collect acc (json_conn_Read n c))"
    and "cn_reader c = RWaiting acc \<Longrightarrow> 0 < n \<Longrightarrow> cn_closed c \<Longrightarrow>
      conn_step (ReadChunk n) c = Some (collect acc (json_conn_Read_received False n c))"
    and "cn_reader c = RWaiting acc \<Longrightarrow> 0 < n \<Longrightarrow> 0 < cn_senders c \<Longrightarrow> \<not> cn_closed c \<Longrightarrow>
      conn_step (Receive n) c =
        Some (collect acc (json_conn_Read_received True n (c\<lparr>cn_senders := cn_senders c - 1\<rparr>)))"
    and "conn_step CloseChannel c = Some (json_close_channel c)"
    and "cn_closed c \<Longrightarrow> conn_step Unsubscribe c = Some (json_close_unsubscribe c)"
  using assms
  by (simp_all add: conn_step.simps json_on_message_def json_conn_Read_def json_conn_Read_received_def
      collect_bytes_Read json_close_channel_def json_close_unsubscribe_def)

lemma json_conn_Close_steps:
  assumes "\<not> cn_crashed c"
  shows "conn_run (if cn_closed c then [CloseChannel] else [CloseChannel, Unsubscribe]) c = Some (json_conn_Close c)"
  using assms by (simp add: conn_step.simps json_conn_Close_def json_close_channel_def json_close_unsubscribe_def Let_def)

section \<open>What the decoder reads\<close>

text \<open>Reads of the given sizes, up to the end of the file; the bytes, and whether the end was seen.\<close>

fun decoder_reads :: "nat list \<Rightarrow> conn \<Rightarrow> bytes \<times> bool" where
  "decoder_reads [] c = ([], False)"
| "decoder_reads (n # ns) c =
     (case json_conn_Read n c of
        (c', ReadBytes bs) \<Rightarrow> (case decoder_reads ns c' of (rest, e) \<Rightarrow> (bs @ rest, e))
      | (c', out) \<Rightarrow> ([], True))"

lemma decoder_reads_message:
  assumes "cn_ready c" and "\<forall>n \<in> set ns. 0 < n"
  shows "fst (decoder_reads ns c) = take (sum_list ns) (cn_bytesReader c)"
    and "snd (decoder_reads ns c) \<longleftrightarrow> ns \<noteq> [] \<and> length (cn_bytesReader c) \<le> sum_list (butlast ns)"
proof -
  have "fst (decoder_reads ns c) = take (sum_list ns) (cn_bytesReader c)
    \<and> (snd (decoder_reads ns c) \<longleftrightarrow> ns \<noteq> [] \<and> length (cn_bytesReader c) \<le> sum_list (butlast ns))"
    using assms
  proof (induction ns arbitrary: c)
    case (Cons n ns)
    show ?case
    proof (cases "cn_bytesReader c = []")
      case False
      let ?c = "c\<lparr>cn_bytesReader := drop n (cn_bytesReader c)\<rparr>"
      obtain rest e where rest: "decoder_reads ns ?c = (rest, e)" by fastforce
      have "rest = take (sum_list ns) (drop n (cn_bytesReader c))"
        and "e \<longleftrightarrow> ns \<noteq> [] \<and> length (cn_bytesReader c) - n \<le> sum_list (butlast ns)"
        using Cons.IH [of ?c] Cons.prems rest by simp_all
      with Cons.prems False rest show ?thesis
        by (auto simp: json_conn_Read_def bytes_Read_def take_add)
    qed (use Cons.prems in \<open>simp add: json_conn_Read_def bytes_Read_def\<close>)
  qed simp
  then show "fst (decoder_reads ns c) = take (sum_list ns) (cn_bytesReader c)"
    "snd (decoder_reads ns c) \<longleftrightarrow> ns \<noteq> [] \<and> length (cn_bytesReader c) \<le> sum_list (butlast ns)"
    by blast+
qed

text \<open>A message that was stored reaches the decoder whole, whatever sizes it reads with.\<close>

lemma decoder_reads_stored:
  assumes "\<forall>n \<in> set ns. 0 < n" and "length p \<le> sum_list ns"
  shows "fst (decoder_reads ns (json_on_message p c)) = p"
  using assms by (simp add: decoder_reads_message json_on_message_def)

end
