(* ===== verification/Json_Client.thy ===== *)
theory Json_Client
  imports Json_Server Json_Conn
begin

text \<open>
  The JSON client (\<open>mqttjson/client.go\<close>, \<open>mqttjson/rpc_client.go\<close>): the codec that
  net/rpc drives, how it is driven for one call, and \<open>Client.Call\<close>, which makes a connection
  of fresh topics for each call.
\<close>

section \<open>The codec of net/rpc\<close>

record 'x json_codec =
  jc_ctx :: "'x option"
  jc_req :: json_request
  jc_resp :: json_response
  jc_pending :: "64 word \<rightharpoonup> string"

definition newClientCodec :: "'x json_codec" where
  "newClientCodec =
     \<lparr>jc_ctx = None, jc_req = zero_request, jc_resp = zero_response, jc_pending = Map.empty\<rparr>"

definition json_SetContext :: "'x option \<Rightarrow> 'x json_codec \<Rightarrow> 'x json_codec" where
  "json_SetContext x c = c\<lparr>jc_ctx := x\<rparr>"

text \<open>
  \<open>WriteRequest\<close>: what goes to the connection, or an error.  The encoder ends a text with a
  line feed and writes it at once.
\<close>

definition json_request_metadata ::
  "('x \<Rightarrow> (string \<rightharpoonup> string) \<Rightarrow> (string \<rightharpoonup> string)) \<Rightarrow> 'x option \<Rightarrow> json_metadata \<Rightarrow> json_metadata" where
  "json_request_metadata inject ctx md =
     (case ctx of
        None \<Rightarrow> md
      | Some x \<Rightarrow> Some (inject x (case md of None \<Rightarrow> Map.empty | Some kv \<Rightarrow> kv)))"

definition json_WriteRequest ::
  "'v json_env \<Rightarrow> ('x \<Rightarrow> (string \<rightharpoonup> string) \<Rightarrow> (string \<rightharpoonup> string)) \<Rightarrow> 64 word \<Rightarrow> string \<Rightarrow> 'v \<Rightarrow>
   'x json_codec \<Rightarrow> 'x json_codec \<times> (gerror + bytes)" where
  "json_WriteRequest env inject seq meth param c =
     (case je_Marshal env param of
        Inl e \<Rightarrow> (c, Inl e)
      | Inr paramsBytes \<Rightarrow>
          (let req = (jc_req c)\<lparr>jq_Method := meth, jq_Params := Some paramsBytes, jq_ID := seq,
                       jq_Metadata := json_request_metadata inject (jc_ctx c) (jq_Metadata (jc_req c))\<rparr>
           in (c\<lparr>jc_pending := (jc_pending c)(seq \<mapsto> meth), jc_req := req\<rparr>,
               Inr (je_print env (encode_request req) @ [10]))))"

text \<open>The text of a message of an error response, as \<open>%s\<close> formats it.\<close>

fun format_message :: "'v json_env \<Rightarrow> json option \<Rightarrow> string" where
  "format_message env (Some (JString s)) = s"
| "format_message env None = ''%!s(<nil>)''"
| "format_message env (Some JNull) = ''%!s(<nil>)''"
| "format_message env (Some j) = je_Sprintf env j"

text \<open>The data of a response unmarshalled into a map, or the error.\<close>

fun data_map :: "'v json_env \<Rightarrow> json option \<Rightarrow> gerror + (string \<rightharpoonup> json)" where
  "data_map env None = Inl empty_input"
| "data_map env (Some (JObject ms)) = Inr (map_of (rev ms))"
| "data_map env (Some JNull) = Inr Map.empty"
| "data_map env (Some j) = Inl (je_mismatch env (kind_of j) [])"

record json_rpc_response =
  jrr_ServiceMethod :: string
  jrr_Seq :: "64 word"
  jrr_Error :: string

text \<open>
  \<open>ReadResponseHeader\<close> on the next value of the stream, or on the error that ends it.  The
  response of the codec is read into again, not a new one.
\<close>

definition json_ReadResponseHeader ::
  "'v json_env \<Rightarrow> ('x \<Rightarrow> (string \<rightharpoonup> string) \<Rightarrow> 'x) \<Rightarrow> gerror + json \<Rightarrow> 'x json_codec \<Rightarrow>
   'x json_codec \<times> (gerror + json_rpc_response)" where
  "json_ReadResponseHeader env extract inp c =
     (case inp of
        Inl e \<Rightarrow> (c, Inl e)
      | Inr j \<Rightarrow>
          (case decode_response (je_mismatch env) j (jc_resp c) of
             (rsp, Some e) \<Rightarrow> (c\<lparr>jc_resp := rsp\<rparr>, Inl e)
           | (rsp, None) \<Rightarrow>
               (let c1 = c\<lparr>jc_resp := rsp,
                      jc_ctx := (case (jc_ctx c, jr_Metadata rsp) of
                                   (Some x, Some kv) \<Rightarrow> Some (extract x kv) | _ \<Rightarrow> jc_ctx c),
                      jc_pending := (jc_pending c)(jr_ID rsp := None)\<rparr>;
                    r = \<lparr>jrr_ServiceMethod = (case jc_pending c (jr_ID rsp) of None \<Rightarrow> [] | Some s \<Rightarrow> s),
                         jrr_Seq = jr_ID rsp,
                         jrr_Error = (if jr_Data rsp = None then ''unspecified error'' else [])\<rparr>
                in if jr_Status rsp \<noteq> RPCStatusOK then
                     (case data_map env (jr_Data rsp) of
                        Inl e \<Rightarrow> (c1, Inl e)
                      | Inr d \<Rightarrow> (c1, Inr (r\<lparr>jrr_Error := format_message env (d ''message'')\<rparr>)))
                   else (c1, Inr r))))"

text \<open>\<open>ReadResponseBody\<close> into a reply that has a value already, or into nothing.\<close>

definition json_ReadResponseBody ::
  "'v json_env \<Rightarrow> 'v option \<Rightarrow> 'x json_codec \<Rightarrow> 'v option \<times> gerror option" where
  "json_ReadResponseBody env x c =
     (case x of
        None \<Rightarrow> (None, None)
      | Some v \<Rightarrow>
          (case jr_Data (jc_resp c) of
             None \<Rightarrow> (Some v, Some empty_input)
           | Some j \<Rightarrow> (case je_Unmarshal env j v of (v', e) \<Rightarrow> (Some v', e))))"

section \<open>One call through net/rpc\<close>

text \<open>
  How a call ends: with an error or none, and with the reply.  The reading goroutine of net/rpc
  reads answers until the one of the only call, whose sequence number is 0; answers with other
  numbers are skipped.
\<close>

type_synonym 'v json_result = "gerror option \<times> 'v"

definition end_of_stream :: "gerror \<Rightarrow> gerror" where
  "end_of_stream e = (if e = ErrEOF then ErrUnexpectedEOF else e)"

fun json_input ::
  "'v json_env \<Rightarrow> ('x \<Rightarrow> (string \<rightharpoonup> string) \<Rightarrow> 'x) \<Rightarrow> 'v \<Rightarrow> json list \<Rightarrow> gerror \<Rightarrow> 'x json_codec \<Rightarrow>
   'x json_codec \<times> 'v json_result" where
  "json_input env extract reply [] last_error c = (c, (Some (end_of_stream last_error), reply))"
| "json_input env extract reply (j # js) last_error c =
     (case json_ReadResponseHeader env extract (Inr j) c of
        (c', Inl e) \<Rightarrow> (c', (Some (end_of_stream e), reply))
      | (c', Inr r) \<Rightarrow>
          if jrr_Seq r \<noteq> 0 then json_input env extract reply js last_error c'
          else if jrr_Error r \<noteq> [] then (c', (Some (ServerError (jrr_Error r)), reply))
          else (case json_ReadResponseBody env (Some reply) c' of
                  (Some v, Some e) \<Rightarrow> (c', (Some (Errorf (''reading body '' @ error_text e)), v))
                | (Some v, None) \<Rightarrow> (c', (None, v))
                | (None, e) \<Rightarrow> (c', (e, reply))))"

section \<open>The client\<close>

record json_client =
  jcl_topicPrefix :: string

definition json_NewClient :: "string \<Rightarrow> json_client \<times> adapter_call list" where
  "json_NewClient topicPrefix = (\<lparr>jcl_topicPrefix = topicPrefix\<rparr>, [CallEnsureConnected])"

definition json_request_topic :: "json_client \<Rightarrow> string \<Rightarrow> string \<Rightarrow> string" where
  "json_request_topic cl targetId rid = path_Join [jcl_topicPrefix cl, targetId, ''request'', rid]"

definition json_response_topic :: "json_client \<Rightarrow> string \<Rightarrow> string \<Rightarrow> string" where
  "json_response_topic cl targetId rid = path_Join [jcl_topicPrefix cl, targetId, ''response'', rid]"

text \<open>
  \<open>Dial\<close> puts a new codec on
  a new connection; the context of the codec is never set.
\<close>

definition Dial :: "string \<Rightarrow> string \<Rightarrow> byte \<Rightarrow> 'x json_codec \<times> conn \<times> adapter_call list" where
  "Dial reqTopic replyTopic qos = (newClientCodec, newRPCConn reqTopic replyTopic qos)"

definition json_createRPCClient ::
  "json_client \<Rightarrow> string \<Rightarrow> string \<Rightarrow> 'x json_codec \<times> conn \<times> adapter_call list" where
  "json_createRPCClient cl targetId rid =
     Dial (json_request_topic cl targetId rid) (json_response_topic cl targetId rid) DefaultQoS"

text \<open>What may happen once the request is out: the answer is read, or the context is done first.\<close>

datatype json_ending = JAnswered bytes | JCtxDone gerror

definition json_Call ::
  "'v json_env \<Rightarrow> ('x \<Rightarrow> (string \<rightharpoonup> string) \<Rightarrow> (string \<rightharpoonup> string)) \<Rightarrow> ('x \<Rightarrow> (string \<rightharpoonup> string) \<Rightarrow> 'x) \<Rightarrow>
   json_client \<Rightarrow> string \<Rightarrow> string \<Rightarrow> string \<Rightarrow> 'v \<Rightarrow> 'v \<Rightarrow> json_ending \<Rightarrow> message list \<times> 'v json_result" where
  "json_Call env inject extract cl targetId rid serviceMethod args reply ending =
     (case json_WriteRequest env inject 0 serviceMethod args
             (fst (json_createRPCClient cl targetId rid)) of
        (c1, Inl e) \<Rightarrow> ([], (Some e, reply))
      | (c1, Inr data) \<Rightarrow>
          (let msg = fst (json_conn_Write (json_request_topic cl targetId rid) DefaultQoS data)
           in case ending of
                JCtxDone e \<Rightarrow> ([msg], (Some e, reply))
              | JAnswered bs \<Rightarrow>
                  (case je_stream env bs of
                     (js, last_error) \<Rightarrow> ([msg], snd (json_input env extract reply js last_error c1)))))"

section \<open>Topics\<close>

lemma json_topics:
  assumes "plain_segment rid"
  shows "json_request_topic cl dev rid = topic_path (jcl_topicPrefix cl) dev [request_word, rid]"
    and "json_response_topic cl dev rid = topic_path (jcl_topicPrefix cl) dev [response_word, rid]"
  using Join_topic4 [OF _ assms, of request_word] Join_topic4 [OF _ assms, of response_word]
    request_word_facts(4,5)
  by (simp_all add: json_request_topic_def json_response_topic_def word_defs)

lemma json_reply_topic:
  assumes "plain_segment rid"
  shows "strings_ReplaceAll request_word response_word (json_request_topic cl dev rid) = json_response_topic cl dev rid
    \<longleftrightarrow> word_free (topic_levels (jcl_topicPrefix cl) dev) \<and> \<not> sublist request_word rid"
  using assms ReplaceAll_request_topic [of rid] by (simp add: json_topics plain_segment_def)

text \<open>
  C40. A JSON server answers on the topic that the client listens on exactly when the word "request"
  occurs neither in a level of the prefix or the device nor in the identifier of the call.
\<close>

theorem json_answers_meet_client_iff:
  assumes "plain_segment rid" and "jd_Topic r = json_request_topic cl dev rid"
  shows "ReplyTopic r = json_response_topic cl dev rid
    \<longleftrightarrow> word_free (topic_levels (jcl_topicPrefix cl) dev) \<and> \<not> sublist request_word rid"
  using json_reply_topic [OF assms(1)] assms(2) by (simp add: ReplyTopic_def)

section \<open>A call from end to end\<close>

text \<open>
  A handler of one request and one response: it binds the request to a value of its type, answers
  what \<open>bad\<close> makes of the error when that fails, and otherwise what \<open>f\<close> makes of the value.
\<close>

definition json_bind_handler ::
  "string \<Rightarrow> (gerror \<Rightarrow> 'v response) \<Rightarrow> ('v \<Rightarrow> 'v response) \<Rightarrow> int \<Rightarrow> (json_world, 'v, 'x) handler" where
  "json_bind_handler argtype bad f timeout =
     \<lparr>h_Method = (\<lambda>c. HBind (GoType False argtype) (\<lambda>b.
          case b of
            Inr a \<Rightarrow> HReply (Some (f a)) (\<lambda>_. HReturn)
          | Inl e \<Rightarrow> HReply (Some (bad e)) (\<lambda>_. HReturn))),
      h_Timeout = timeout\<rparr>"

definition json_unary_handler ::
  "string \<Rightarrow> ('v \<Rightarrow> 'v response) \<Rightarrow> int \<Rightarrow> (json_world, 'v, 'x) handler" where
  "json_unary_handler argtype =
     json_bind_handler argtype (\<lambda>e. error_response RPCStatusServerError (Some e))"

lemma json_bind_handler_run:
  assumes "c_Bind child (GoType False argtype) = Ret (Inr a)"
    and "c_Reply child w (Some (f a)) = (w', Ret b)"
  shows "job_result child (json_bind_handler argtype bad f timeout) (NewRequestContext w) =
    \<lparr>replyed = True, res = Some (f a), world = w', sent = [Some (f a)]\<rparr>"
  using assms
  by (simp add: job_result_def job_prog_def json_bind_handler_def reply_error_prog_def Reply_def
      NewRequestContext_def child_reply_def setResponse_def)

lemma json_bind_handler_no_nil: "no_nil_reply (h_Method (json_bind_handler argtype bad f timeout) c)"
  by (simp add: json_bind_handler_def split: sum.split)

text \<open>The request that a call writes, and the client's state after it.\<close>

definition json_call_request :: "string \<Rightarrow> json \<Rightarrow> json_request" where
  "json_call_request meth ja = \<lparr>jq_ID = 0, jq_Method = meth, jq_Metadata = None, jq_Params = Some ja\<rparr>"

definition json_written :: "string \<Rightarrow> json \<Rightarrow> 'x json_codec" where
  "json_written meth ja =
     \<lparr>jc_ctx = None, jc_req = json_call_request meth ja, jc_resp = zero_response, jc_pending = [0 \<mapsto> meth]\<rparr>"

lemma json_WriteRequest_call:
  assumes "je_Marshal env args = Inr ja"
  shows "json_WriteRequest env inject 0 meth args newClientCodec =
    (json_written meth ja, Inr (je_print env (encode_request (json_call_request meth ja)) @ [10]))"
  using assms
  by (simp add: json_WriteRequest_def newClientCodec_def json_written_def json_call_request_def
      zero_request_def json_request_metadata_def Let_def)

text \<open>How a response that answers the call ends it.\<close>

definition json_answer_result :: "'v json_env \<Rightarrow> 'v \<Rightarrow> json_response \<Rightarrow> 'v json_result" where
  "json_answer_result env reply rsp =
     (if jr_Status rsp \<noteq> RPCStatusOK then
        (case data_map env (jr_Data rsp) of
           Inl e \<Rightarrow> (Some (end_of_stream e), reply)
         | Inr d \<Rightarrow>
             if format_message env (d ''message'') \<noteq> []
             then (Some (ServerError (format_message env (d ''message''))), reply)
             else (case je_Unmarshal env (encode_raw (jr_Data rsp)) reply of
                     (v, Some e) \<Rightarrow> (Some (Errorf (''reading body '' @ error_text e)), v)
                   | (v, None) \<Rightarrow> (None, v)))
      else (case je_Unmarshal env (encode_raw (jr_Data rsp)) reply of
              (v, Some e) \<Rightarrow> (Some (Errorf (''reading body '' @ error_text e)), v)
            | (v, None) \<Rightarrow> (None, v)))"

lemma json_input_answer:
  assumes "jr_ID rsp = 0" and "jr_Metadata rsp = None"
    and "- (2 ^ 63) \<le> jr_Status rsp" and "jr_Status rsp < 2 ^ 63" and "jr_Data rsp \<noteq> None"
  shows "snd (json_input env extract reply [encode_response rsp] last_error (json_written meth ja))
    = json_answer_result env reply rsp"
proof -
  from assms(5) obtain d where d: "jr_Data rsp = Some d" by blast
  have "decode_response (je_mismatch env) (encode_response rsp) zero_response = (rsp, None)"
    using assms d by (subst json_response_decode_encode) (simp_all add: finite_md_def norm_md_def encode_raw_def)
  then show ?thesis
    using assms(1,2) d
    by (simp add: json_ReadResponseHeader_def json_written_def json_answer_result_def
        json_ReadResponseBody_def encode_raw_def Let_def split: sum.split prod.split option.split)
qed

lemma json_Call_answered:
  assumes "je_Marshal env args = Inr ja" and "carries env (encode_response rsp)"
    and "jr_ID rsp = 0" and "jr_Metadata rsp = None"
    and "- (2 ^ 63) \<le> jr_Status rsp" and "jr_Status rsp < 2 ^ 63" and "jr_Data rsp \<noteq> None"
  shows "snd (json_Call env inject extract cl dev rid meth args reply
      (JAnswered (je_print env (encode_response rsp)))) = json_answer_result env reply rsp"
  using assms(2) json_input_answer [OF assms(3-7), of env "extract" reply ErrEOF meth ja]
  by (simp add: json_Call_def json_createRPCClient_def Dial_def json_WriteRequest_call [OF assms(1)] carries_def Let_def)

text \<open>The request that a call publishes is received as it was written.\<close>

definition json_own_request :: "json_client \<Rightarrow> string \<Rightarrow> string \<Rightarrow> string \<Rightarrow> json \<Rightarrow> json_request_data" where
  "json_own_request cl dev rid meth ja =
     \<lparr>jd_Topic = json_request_topic cl dev rid, jd_Request = json_call_request meth ja\<rparr>"

lemma json_request_received:
  assumes "je_Marshal env args = Inr ja" and "carries env (encode_request (json_call_request meth ja))"
  shows "\<exists>msg. json_Call env inject extract cl dev rid meth args reply (JCtxDone e) = ([msg], (Some e, reply))
    \<and> json_receive env extr background msg w =
        (w, Some (json_child env background (json_own_request cl dev rid meth ja)))"
proof -
  have "decode_request (je_mismatch env) (encode_request (json_call_request meth ja)) zero_request
      = (json_call_request meth ja, None)"
    by (subst json_request_decode_encode)
      (simp_all add: json_call_request_def finite_md_def norm_md_def encode_raw_def)
  with assms show ?thesis
    by (simp add: json_Call_def json_createRPCClient_def Dial_def json_WriteRequest_call [OF assms(1)] json_conn_Write_def
        json_receive_def carries_def Let_def json_NewMQTTContext_ctx_def json_own_request_def)
      (simp add: json_call_request_def)
qed

lemma json_own_reply_topic:
  assumes "plain_segment rid" and "word_free (topic_levels (jcl_topicPrefix cl) dev)" and "\<not> sublist request_word rid"
  shows "ReplyTopic (json_own_request cl dev rid meth ja) = json_response_topic cl dev rid"
  using json_reply_topic [OF assms(1)] assms(2,3) by (simp add: ReplyTopic_def json_own_request_def)

lemma json_own_bind:
  assumes "je_Unmarshal env ja (je_zero env argtype) = (args, None)" and "je_Struct env args = None"
  shows "c_Bind (json_child env background (json_own_request cl dev rid meth ja)) (GoType False argtype) = Ret (Inr args)"
  using assms by (simp add: json_child_def json_Bind_def json_call_request_def json_own_request_def)

text \<open>A response on the wire: its data are there, if only as null.\<close>

definition json_wire :: "'v json_env \<Rightarrow> json_request_data \<Rightarrow> 'v response \<Rightarrow> json_response" where
  "json_wire env r x =
     (let rs = js_Response (json_response_for env r x) in rs\<lparr>jr_Data := Some (encode_raw (jr_Data rs))\<rparr>)"

lemma json_wire_text: "encode_response (js_Response (json_response_for env r x)) = encode_response (json_wire env r x)"
  by (simp add: json_wire_def encode_response_def encode_raw_def Let_def)

lemma json_wire_fields:
  "jr_ID (json_wire env r x) = jq_ID (jd_Request r)" "jr_Metadata (json_wire env r x) = None"
  "jr_Status (json_wire env r x) = (if r_error x = None then RPCStatusOK else r_status x)"
  "jr_Data (json_wire env r x) \<noteq> None"
  by (simp_all add: json_wire_def json_response_for_def json_MakeErrResponse_def json_MakeOKResponse_def
      json_GetResponse_def zero_response_def Let_def split: option.split)

lemma json_wire_answers:
  assumes "je_Marshal env args = Inr ja" and "carries env (encode_response (json_wire env (json_own_request cl dev rid meth ja) x))"
    and "- (2 ^ 63) \<le> r_status x" and "r_status x < 2 ^ 63"
  shows "snd (json_Call env inject extract cl dev rid meth args reply (JAnswered (je_print env
      (encode_response (js_Response (json_response_for env (json_own_request cl dev rid meth ja) x))))))
    = json_answer_result env reply (json_wire env (json_own_request cl dev rid meth ja) x)"
  unfolding json_wire_text
  by (rule json_Call_answered [OF assms(1,2)])
    (use assms(3,4) in \<open>simp_all add: json_wire_fields json_own_request_def json_call_request_def RPCStatusOK_def\<close>)

text \<open>
  The request is served: it is read as it was written, its context binds to the arguments, and what
  the handler replies is published.
\<close>

lemma json_end_to_end:
  fixes env :: "'v json_env" and f :: "'v \<Rightarrow> 'v response"
    and srv :: "(json_world, 'v, 'x, 'u) server"
  assumes args: "je_Marshal env args = Inr ja" "je_Unmarshal env ja (je_zero env argtype) = (args, None)"
      "je_Struct env args = None"
    and sent: "carries env (encode_request (json_call_request meth ja))"
    and topic: "plain_segment rid" "word_free (topic_levels (jcl_topicPrefix cl) dev)" "\<not> sublist request_word rid"
    and served: "admits srv allow wait"
      "handlerMap srv meth = Some (Some (json_bind_handler argtype bad f timeout))"
    and rs: "js_Response (json_response_for env \<lparr>jd_Topic = json_request_topic cl dev rid,
       jd_Request = json_call_request meth ja\<rparr> (f args)) = rs"
    and answer: "carries env (encode_response (rs\<lparr>jr_Data := Some (encode_raw (jr_Data rs))\<rparr>))"
      "- (2 ^ 63) \<le> jr_Status rs" "jr_Status rs < 2 ^ 63"
    and result: "json_answer_result env reply (rs\<lparr>jr_Data := Some (encode_raw (jr_Data rs))\<rparr>) = result"
  shows "\<exists>child n st fx ans.
      json_receive env extr background (hd (fst (json_Call env inject extract cl dev rid meth args reply
        (JCtxDone ErrTimeout)))) w = (w, Some child)
    \<and> call_run srv child elapsed (replicate n WorkerStep @ [MainStep]) (call_start srv child allow wait w) = Some st
    \<and> pc st = Returned fx \<and> world (sh st) = w @ [ans]
    \<and> m_Topic ans = json_response_topic cl dev rid
    \<and> snd (json_Call env inject extract cl dev rid meth args reply (JAnswered (m_Payload ans))) = result"
proof -
  let ?rq = "json_call_request meth ja"
  let ?topic = "json_request_topic cl dev rid"
  let ?r = "\<lparr>jd_Topic = ?topic, jd_Request = ?rq\<rparr>"
  let ?child = "json_child env background ?r :: (json_world, 'v, 'x) child"
  let ?rs = "rs\<lparr>jr_Data := Some (encode_raw (jr_Data rs))\<rparr>"
  let ?ans = "\<lparr>m_Topic = ReplyTopic ?r, m_QoS = 0, m_Retained = False, m_Payload = je_print env (encode_response rs)\<rparr>"
  have same_text: "encode_response rs = encode_response ?rs"
    by (simp add: encode_response_def encode_raw_def)
  have received: "json_receive env extr background (hd (fst (json_Call env inject extract cl dev rid meth args reply
        (JCtxDone ErrTimeout)))) w = (w, Some ?child)"
    using json_request_received [OF args(1) sent, of inject "extract" cl dev rid reply ErrTimeout extr background w]
    by (auto simp: json_own_request_def)
  have bind: "c_Bind ?child (GoType False argtype) = Ret (Inr args)"
    using json_own_bind [OF args(2,3)] by (simp add: json_own_request_def)
  have reply1: "c_Reply ?child w (Some (f args)) = (w @ [?ans], Ret True)"
    using rs by (simp add: json_child_def json_Reply_def json_reply_def json_response_topic)
  have disp: "dispatched srv ?child allow wait (json_bind_handler argtype bad f timeout)"
    using served by (simp add: dispatched_def admits_def json_child_def json_call_request_def)
  from admitted_returns [OF disp json_context.transport_errors json_bind_handler_no_nil, of elapsed w]
  obtain n st fx where run: "call_run srv ?child elapsed (replicate n WorkerStep @ [MainStep])
      (call_start srv ?child allow wait w) = Some st" "pc st = Returned fx"
    "sh st = job_result ?child (json_bind_handler argtype bad f timeout) (NewRequestContext w)"
    by blast
  have published: "world (sh st) = w @ [?ans]"
    using run(3) json_bind_handler_run [where f = f, OF bind reply1] by simp
  have meets: "m_Topic ?ans = json_response_topic cl dev rid"
    using json_reply_topic [OF topic(1)] topic(2,3) by (simp add: ReplyTopic_def)
  have fields: "jr_ID rs = 0" "jr_Metadata rs = None"
    using rs by (auto simp: json_response_for_def json_MakeErrResponse_def json_MakeOKResponse_def
        json_GetResponse_def zero_response_def json_call_request_def Let_def split: option.splits)
  have "snd (json_Call env inject extract cl dev rid meth args reply (JAnswered (m_Payload ?ans))) = result"
    using json_Call_answered [OF args(1) answer(1), of inject "extract" cl dev rid meth reply] fields answer(2,3) result
    by (simp add: same_text)
  with received run(1,2) published meets show ?thesis by blast
qed

section \<open>The properties of calls\<close>

definition json_ok_answer :: "string \<Rightarrow> json option \<Rightarrow> json_response" where
  "json_ok_answer meth d =
     \<lparr>jr_ID = 0, jr_Method = meth, jr_Status = 200, jr_Metadata = None, jr_Data = d\<rparr>"

definition json_error_answer :: "string \<Rightarrow> int \<Rightarrow> string \<Rightarrow> json_response" where
  "json_error_answer meth status text1 =
     \<lparr>jr_ID = 0, jr_Method = meth, jr_Status = status, jr_Metadata = None,
      jr_Data = Some (JObject [(''message'', JString text1)])\<rparr>"

lemma json_answers:
  "x = ok_response (Some v) \<Longrightarrow> je_Marshal env v = Inr jv \<Longrightarrow>
   js_Response (json_response_for env \<lparr>jd_Topic = tp, jd_Request = json_call_request meth ja\<rparr> (x))
     = json_ok_answer meth (Some jv)"
  "x = ok_response (Some v) \<Longrightarrow> je_Marshal env v = Inl e \<Longrightarrow>
   js_Response (json_response_for env \<lparr>jd_Topic = tp, jd_Request = json_call_request meth ja\<rparr> (x))
     = json_ok_answer meth None"
  "x = error_response status (Some e) \<Longrightarrow>
   js_Response (json_response_for env \<lparr>jd_Topic = tp, jd_Request = json_call_request meth ja\<rparr> (x))
     = json_error_answer meth status (error_text e)"
  by (simp_all add: json_response_for_def ok_response_def error_response_def json_MakeOKResponse_def
      json_MakeErrResponse_def json_GetResponse_def zero_response_def json_call_request_def Let_def
      json_ok_answer_def json_error_answer_def RPCStatusOK_def)

text \<open>
  C4. A JSON call from end to end: the client writes a request, the server reads it, binds and
  validates it, runs the handler and publishes its answer on the topic the client listens on; the
  client's call returns without an error and with the value the handler replied.
\<close>

theorem json_call_end_to_end:
  fixes env :: "'v json_env" and f :: "'v \<Rightarrow> 'v response"
    and srv :: "(json_world, 'v, 'x, 'u) server"
  assumes args: "je_Marshal env args = Inr ja" "je_Unmarshal env ja (je_zero env argtype) = (args, None)"
      "je_Struct env args = None"
    and sent: "carries env (encode_request (json_call_request meth ja))"
    and topic: "plain_segment rid" "word_free (topic_levels (jcl_topicPrefix cl) dev)" "\<not> sublist request_word rid"
    and served: "admits srv allow wait"
      "handlerMap srv meth = Some (Some (json_unary_handler argtype f timeout))"
    and answer: "f args = ok_response (Some v)" "je_Marshal env v = Inr jv" "je_Unmarshal env jv reply = (v, None)"
      "carries env (encode_response (json_ok_answer meth (Some jv)))"
  shows "\<exists>child n st fx ans.
      json_receive env extr background (hd (fst (json_Call env inject extract cl dev rid meth args reply
        (JCtxDone ErrTimeout)))) w = (w, Some child)
    \<and> call_run srv child elapsed (replicate n WorkerStep @ [MainStep]) (call_start srv child allow wait w) = Some st
    \<and> pc st = Returned fx \<and> world (sh st) = w @ [ans]
    \<and> m_Topic ans = json_response_topic cl dev rid
    \<and> snd (json_Call env inject extract cl dev rid meth args reply (JAnswered (m_Payload ans))) = (None, v)"
proof -
  have result: "json_answer_result env reply
      ((json_ok_answer meth (Some jv))\<lparr>jr_Data := Some (encode_raw (jr_Data (json_ok_answer meth (Some jv))))\<rparr>) = (None, v)"
    using answer(3) by (simp add: json_answer_result_def json_ok_answer_def encode_raw_def RPCStatusOK_def)
  show ?thesis
    by (rule json_end_to_end [where f = f, OF args sent topic served [unfolded json_unary_handler_def] json_answers(1) [OF answer(1,2)] _ _ _ result])
      (use answer(4) in \<open>simp_all add: json_ok_answer_def encode_raw_def\<close>)
qed

text \<open>
  C28. The same for an error that a handler replies, with any status but 200: the client's call
  returns it as a server error with the same text, and leaves its reply untouched.
\<close>

theorem json_error_end_to_end:
  fixes env :: "'v json_env" and f :: "'v \<Rightarrow> 'v response"
    and srv :: "(json_world, 'v, 'x, 'u) server"
  assumes args: "je_Marshal env args = Inr ja" "je_Unmarshal env ja (je_zero env argtype) = (args, None)"
      "je_Struct env args = None"
    and sent: "carries env (encode_request (json_call_request meth ja))"
    and topic: "plain_segment rid" "word_free (topic_levels (jcl_topicPrefix cl) dev)" "\<not> sublist request_word rid"
    and served: "admits srv allow wait"
      "handlerMap srv meth = Some (Some (json_unary_handler argtype f timeout))"
    and answer: "f args = error_response status (Some e)" "error_text e \<noteq> []" "status \<noteq> 200"
      "- (2 ^ 63) \<le> status" "status < 2 ^ 63"
      "carries env (encode_response (json_error_answer meth status (error_text e)))"
  shows "\<exists>child n st fx ans.
      json_receive env extr background (hd (fst (json_Call env inject extract cl dev rid meth args reply
        (JCtxDone ErrTimeout)))) w = (w, Some child)
    \<and> call_run srv child elapsed (replicate n WorkerStep @ [MainStep]) (call_start srv child allow wait w) = Some st
    \<and> pc st = Returned fx \<and> world (sh st) = w @ [ans]
    \<and> m_Topic ans = json_response_topic cl dev rid
    \<and> snd (json_Call env inject extract cl dev rid meth args reply (JAnswered (m_Payload ans))) = (Some (ServerError (error_text e)), reply)"
proof -
  have result: "json_answer_result env reply
      ((json_error_answer meth status (error_text e))
         \<lparr>jr_Data := Some (encode_raw (jr_Data (json_error_answer meth status (error_text e))))\<rparr>)
      = (Some (ServerError (error_text e)), reply)"
    using answer(2,3)
    by (simp add: json_answer_result_def json_error_answer_def encode_raw_def RPCStatusOK_def)
  show ?thesis
    by (rule json_end_to_end [where f = f, OF args sent topic served [unfolded json_unary_handler_def] json_answers(3) [OF answer(1)] _ _ _ result])
      (use answer(4-6) in \<open>simp_all add: json_error_answer_def encode_raw_def\<close>)
qed

text \<open>
  C29. A result that does not marshal is reported as success: the server drops the error and answers
  status 200 with null, and the client's call returns without an error and with its reply
  untouched.  Null leaves a reply alone that is not itself a pointer, a map or the like.
\<close>

theorem json_unserialisable_reply_is_success:
  fixes env :: "'v json_env" and f :: "'v \<Rightarrow> 'v response"
    and srv :: "(json_world, 'v, 'x, 'u) server"
  assumes args: "je_Marshal env args = Inr ja" "je_Unmarshal env ja (je_zero env argtype) = (args, None)"
      "je_Struct env args = None"
    and sent: "carries env (encode_request (json_call_request meth ja))"
    and topic: "plain_segment rid" "word_free (topic_levels (jcl_topicPrefix cl) dev)" "\<not> sublist request_word rid"
    and served: "admits srv allow wait"
      "handlerMap srv meth = Some (Some (json_unary_handler argtype f timeout))"
    and answer: "f args = ok_response (Some v)" "je_Marshal env v = Inl e"
      "je_Unmarshal env JNull reply = (reply, None)"
      "carries env (encode_response (json_ok_answer meth (Some JNull)))"
  shows "\<exists>child n st fx ans.
      json_receive env extr background (hd (fst (json_Call env inject extract cl dev rid meth args reply
        (JCtxDone ErrTimeout)))) w = (w, Some child)
    \<and> call_run srv child elapsed (replicate n WorkerStep @ [MainStep]) (call_start srv child allow wait w) = Some st
    \<and> pc st = Returned fx \<and> world (sh st) = w @ [ans]
    \<and> m_Topic ans = json_response_topic cl dev rid
    \<and> snd (json_Call env inject extract cl dev rid meth args reply (JAnswered (m_Payload ans))) = (None, reply)"
proof -
  have result: "json_answer_result env reply
      ((json_ok_answer meth None)\<lparr>jr_Data := Some (encode_raw (jr_Data (json_ok_answer meth None)))\<rparr>) = (None, reply)"
    using answer(3) by (simp add: json_answer_result_def json_ok_answer_def encode_raw_def RPCStatusOK_def)
  show ?thesis
    by (rule json_end_to_end [where f = f, OF args sent topic served [unfolded json_unary_handler_def] json_answers(2) [OF answer(1,2)] _ _ _ result])
      (use answer(4) in \<open>simp_all add: json_ok_answer_def encode_raw_def\<close>)
qed

section \<open>Concrete calls\<close>

text \<open>
  An environment whose texts are the places of trees in a table, and whose values are strings, of
  which one does not marshal.
\<close>

fun tree_place :: "json list \<Rightarrow> json \<Rightarrow> nat" where
  "tree_place [] j = 0"
| "tree_place (t # ts) j = (if t = j then 0 else Suc (tree_place ts j))"

definition table_json :: "json list \<Rightarrow> string json_env" where
  "table_json ts =
     \<lparr>je_print = (\<lambda>j. [of_nat (tree_place ts j)]),
      je_parse = (\<lambda>bs. case bs of b # _ \<Rightarrow> Inr (ts ! unat b) | [] \<Rightarrow> Inl empty_input),
      je_stream = (\<lambda>bs. case bs of b # _ \<Rightarrow> ([ts ! unat b], ErrEOF) | [] \<Rightarrow> ([], ErrEOF)),
      je_Marshal = (\<lambda>v. if v = ''*'' then Inl (ExtErr ''json: unsupported value'') else Inr (JString v)),
      je_Unmarshal = (\<lambda>j v. case j of JString s \<Rightarrow> (s, None) | JNull \<Rightarrow> (v, None)
                        | _ \<Rightarrow> (v, Some (ExtErr ''json: cannot unmarshal''))),
      je_zero = (\<lambda>t. []), je_mismatch = (\<lambda>k f. ExtErr k), je_Sprintf = (\<lambda>j. ''%''),
      je_Struct = (\<lambda>v. None)\<rparr>"

definition hi_env :: "string json_env" where
  "hi_env = table_json
     [encode_request (json_call_request ''hello'' (JString ''hi'')),
      encode_response (json_ok_answer ''hello'' (Some (JString ''ho''))),
      encode_response (json_ok_answer ''hello'' (Some JNull)),
      encode_response (json_error_answer ''hello'' 400 ''no'')]"

lemma hi_carries:
  "carries hi_env (encode_request (json_call_request ''hello'' (JString ''hi'')))"
  "carries hi_env (encode_response (json_ok_answer ''hello'' (Some (JString ''ho''))))"
  "carries hi_env (encode_response (json_ok_answer ''hello'' (Some JNull)))"
  "carries hi_env (encode_response (json_error_answer ''hello'' 400 ''no''))"
  by (simp_all add: carries_def hi_env_def table_json_def encode_request_def encode_response_def
      encode_raw_def json_call_request_def json_ok_answer_def json_error_answer_def encode_metadata_def
      format_int_def)

definition hi_client :: json_client where
  "hi_client = fst (json_NewClient ''a'')"

definition hi_server ::
  "(string \<Rightarrow> string response) \<Rightarrow> (json_world, string, unit, unit) server" where
  "hi_server f = Register ''hello'' (Some (json_unary_handler ''*main.Args'' f 5)) (NewServer ''s'' 4 [])"

lemma hi_topic: "plain_segment ''1''" "word_free (topic_levels (jcl_topicPrefix hi_client) ''d'')"
  "\<not> sublist request_word ''1''"
  by (simp add: plain_segment_def)
    (simp_all add: hi_client_def json_NewClient_def topic_levels_def topic_buf_def join_step_def
      is_rooted_def clean_segments_def clean_step_def word_free_def request_word_def
      sublist_Cons_right)

lemma hi_served: "admits (hi_server f) True None"
  "handlerMap (hi_server f) ''hello'' = Some (Some (json_unary_handler ''*main.Args'' f 5))"
  by (simp_all add: admits_def hi_server_def Register_def NewServer_def default_options_def Let_def)

lemma hi_args: "je_Marshal hi_env ''hi'' = Inr (JString ''hi'')"
  "je_Unmarshal hi_env (JString ''hi'') (je_zero hi_env ''*main.Args'') = (''hi'', None)"
  "je_Struct hi_env ''hi'' = None"
  by (simp_all add: hi_env_def table_json_def)

definition hi_greet :: "string \<Rightarrow> string response" where
  "hi_greet a = ok_response (Some ''ho'')"

definition hi_broken :: "string \<Rightarrow> string response" where
  "hi_broken a = ok_response (Some ''*'')"

definition hi_refuse :: "string \<Rightarrow> string response" where
  "hi_refuse a = error_response 400 (Some (Errorf ''no''))"

abbreviation hi_call :: "json_ending \<Rightarrow> message list \<times> string json_result" where
  "hi_call ending \<equiv> json_Call hi_env (\<lambda>(x :: string) kv. kv) (\<lambda>x kv. x) hi_client ''d'' ''1'' ''hello'' ''hi'' ''old'' ending"

abbreviation hi_served_by :: "(string \<Rightarrow> string response) \<Rightarrow> message \<Rightarrow> bool" where
  "hi_served_by f ans \<equiv> (\<exists>child n st fx.
      json_receive hi_env (\<lambda>kv. ()) () (hd (fst (hi_call (JCtxDone ErrTimeout)))) [] = ([], Some child)
    \<and> call_run (hi_server f) child 0 (replicate n WorkerStep @ [MainStep])
        (call_start (hi_server f) child True None []) = Some st
    \<and> pc st = Returned fx \<and> world (sh st) = [ans])"

theorem json_call_end_to_end_witness:
  "\<exists>ans. hi_served_by hi_greet ans \<and> snd (hi_call (JAnswered (m_Payload ans))) = (None, ''ho'')"
proof -
  have answer: "hi_greet ''hi'' = ok_response (Some ''ho'')" "je_Marshal hi_env ''ho'' = Inr (JString ''ho'')"
    "je_Unmarshal hi_env (JString ''ho'') ''old'' = (''ho'', None)"
    by (simp_all add: hi_greet_def hi_env_def table_json_def)
  from json_call_end_to_end [where f = hi_greet, OF hi_args hi_carries(1) hi_topic hi_served answer hi_carries(2),
      of "\<lambda>kv. ()" "()" "\<lambda>(x :: string) kv. kv" "\<lambda>x kv. x" "[]" 0]
  show ?thesis unfolding append_Nil error_text.simps by blast
qed

theorem json_error_end_to_end_witness:
  "\<exists>ans. hi_served_by hi_refuse ans \<and> snd (hi_call (JAnswered (m_Payload ans))) = (Some (ServerError ''no''), ''old'')"
proof -
  have answer: "hi_refuse ''hi'' = error_response 400 (Some (Errorf ''no''))" "error_text (Errorf ''no'') \<noteq> []"
    "(400 :: int) \<noteq> 200" "- (2 ^ 63) \<le> (400 :: int)" "(400 :: int) < 2 ^ 63"
    "carries hi_env (encode_response (json_error_answer ''hello'' 400 (error_text (Errorf ''no''))))"
    using hi_carries(4) by (simp_all add: hi_refuse_def)
  from json_error_end_to_end [where f = hi_refuse, OF hi_args hi_carries(1) hi_topic hi_served answer,
      of "\<lambda>kv. ()" "()" "\<lambda>(x :: string) kv. kv" "\<lambda>x kv. x" "''old''" "[]" 0]
  show ?thesis unfolding append_Nil error_text.simps by blast
qed

theorem json_unserialisable_reply_is_success_witness:
  "\<exists>ans. hi_served_by hi_broken ans \<and> snd (hi_call (JAnswered (m_Payload ans))) = (None, ''old'')"
proof -
  have answer: "hi_broken ''hi'' = ok_response (Some ''*'')"
    "je_Marshal hi_env ''*'' = Inl (ExtErr ''json: unsupported value'')"
    "je_Unmarshal hi_env JNull ''old'' = (''old'', None)"
    by (simp_all add: hi_broken_def hi_env_def table_json_def)
  from json_unserialisable_reply_is_success [where f = hi_broken, OF hi_args hi_carries(1) hi_topic hi_served answer hi_carries(3),
      of "\<lambda>kv. ()" "()" "\<lambda>(x :: string) kv. kv" "\<lambda>x kv. x" "[]" 0]
  show ?thesis unfolding append_Nil error_text.simps by blast
qed

theorem json_answers_meet_client_iff_witness:
  "ReplyTopic \<lparr>jd_Topic = json_request_topic hi_client ''d'' ''1'', jd_Request = zero_request\<rparr>
     = json_response_topic hi_client ''d'' ''1''"
  using json_answers_meet_client_iff [OF hi_topic(1), of _ hi_client "''d''"] hi_topic(2,3) by simp

end
