(* ===== verification/Call_Replies.thy ===== *)
theory Call_Replies
  imports Server_Core
begin

text \<open>
  What a running call may reply: which responses its program and \<open>Call\<close> itself can hand to the
  transport, in every interleaving.  The machines with many calls at once, \<open>Json_Network\<close> and
  \<open>Pb_Network\<close>, follow their running calls with it.
\<close>

section \<open>Replies of programs and threads\<close>

text \<open>The responses that a program can reply are among \<open>R\<close>.\<close>

primrec may_reply :: "('w, 'v, 'x) child \<Rightarrow> 'v response option set \<Rightarrow> 'v hprog \<Rightarrow> bool" where
  "may_reply child R HReturn \<longleftrightarrow> True"
| "may_reply child R (HPanic m) \<longleftrightarrow> True"
| "may_reply child R (HReply r k) \<longleftrightarrow> r \<in> R \<and> (\<forall>b. may_reply child R (k b))"
| "may_reply child R (HBind t k) \<longleftrightarrow> (\<forall>x. c_Bind child t = Ret x \<longrightarrow> may_reply child R (k x))"
| "may_reply child R (HGetResponse k) \<longleftrightarrow> (\<forall>r. may_reply child R (k r))"

fun may_thread :: "('w, 'v, 'x) child \<Rightarrow> 'v response option set \<Rightarrow> 'v thread \<Rightarrow> bool" where
  "may_thread child R (Running p) \<longleftrightarrow> may_reply child R p"
| "may_thread child R (Storing r k) \<longleftrightarrow> r \<in> R \<and> (\<forall>b. may_reply child R (k b))"
| "may_thread child R (Sending r k) \<longleftrightarrow> r \<in> R \<and> (\<forall>b. may_reply child R (k b))"
| "may_thread child R Finished \<longleftrightarrow> True"
| "may_thread child R (Panicked m) \<longleftrightarrow> True"

definition may_call :: "('w, 'v, 'x) child \<Rightarrow> 'v response option set \<Rightarrow> ('w, 'v, 'u) call_state \<Rightarrow> bool" where
  "may_call child R st \<longleftrightarrow> (\<forall>t \<in> set (pc_threads (pc st) @ wk_threads (wk st)). may_thread child R t)"

lemma may_reply_hseq: "may_reply child R p \<Longrightarrow> may_reply child R q \<Longrightarrow> may_reply child R (hseq p q)"
  by (induction p) auto

text \<open>Only what a context binds matters.\<close>

lemma may_reply_cong: "c_Bind child' = c_Bind child \<Longrightarrow> may_reply child' R p = may_reply child R p"
  by (induction p) auto

lemma may_thread_cong: "c_Bind child' = c_Bind child \<Longrightarrow> may_thread child' R t = may_thread child R t"
  by (cases t) (simp_all add: may_reply_cong [of child' child])

lemma may_call_cong: "c_Bind child' = c_Bind child \<Longrightarrow> may_call child' R st = may_call child R st"
  by (simp add: may_call_def may_thread_cong [of child' child])

section \<open>Replies of calls\<close>

text \<open>The error replies that \<open>Call\<close> makes itself have texts, when those of the pool have.\<close>

definition server_errors :: "'v response option set" where
  "server_errors = {Some (error_response status (Some e)) | status e.
     status \<in> {RPCStatusServerError, RPCStatusTooFraquently, RPCStatusRequestTimeout} \<and> error_text e \<noteq> []}"

lemma server_errorsI:
  "error_text e \<noteq> [] \<Longrightarrow> status \<in> {RPCStatusServerError, RPCStatusTooFraquently, RPCStatusRequestTimeout} \<Longrightarrow>
   Some (error_response status (Some e)) \<in> server_errors"
  by (auto simp: server_errors_def)

lemma reply_error_prog_may:
  "may_reply child (R \<union> server_errors) (reply_error_prog status e) \<longleftrightarrow>
   Some (error_response status (Some e)) \<in> R \<union> server_errors"
  by (simp add: reply_error_prog_def)

lemma may_call_start:
  assumes "\<And>hdl. handlerMap srv (c_Method child) = Some (Some hdl) \<Longrightarrow> may_reply child (R \<union> server_errors) (h_Method hdl child)"
  shows "may_call child (R \<union> server_errors) (call_start srv child allow wait w)"
  using assms
  by (auto simp: may_call_def call_start_def Let_def reply_error_prog_may job_prog_def
      unhandled_error_def intro!: server_errorsI may_reply_hseq split: option.split)

text \<open>
  A step of a call replies only what it may, and changes the world at most by such a reply: \<open>A\<close> is
  any relation of worlds that these replies keep.
\<close>

lemma may_thread_step:
  assumes "may_thread child R t" and "thread_step child t s = (t', s')"
    and "A (world s) (world s)"
    and "\<And>r k. t = Sending r k \<Longrightarrow> r \<in> R \<Longrightarrow> A (world s) (fst (c_Reply child (world s) r))"
  shows "may_thread child R t' \<and> A (world s) (world s')"
proof (cases t)
  case (Running p)
  with assms show ?thesis by (cases p) (auto split: if_splits outcome.splits)
next
  case (Sending r k)
  with assms(1,4) have "A (world s) (fst (c_Reply child (world s) r))" by simp
  with Sending assms(1,2) show ?thesis
    by (auto simp: child_reply_def split: prod.splits outcome.splits)
qed (use assms in \<open>auto simp: setResponse_def\<close>)

text \<open>The response that an actor's next step hands to the transport.\<close>

fun sending_thread :: "'v thread \<Rightarrow> 'v response option option" where
  "sending_thread (Sending r k) = Some r"
| "sending_thread t = None"

fun sends :: "actor \<Rightarrow> ('w, 'v, 'u) call_state \<Rightarrow> 'v response option option" where
  "sends MainStep st = (case pc st of Answering t \<Rightarrow> sending_thread t | _ \<Rightarrow> None)"
| "sends WorkerStep st = (case wk st of Some w \<Rightarrow> sending_thread (w_thread w) | None \<Rightarrow> None)"
| "sends (GiveUp e) st = None"

lemma sends_other:
  assumes "call_move srv child elapsed st a st'" and "sends b st' = Some r" and "b \<noteq> a"
  shows "sends b st = Some r"
  using assms by (cases b) (auto elim!: call_move.cases)

lemma sends_may: "may_call child R st \<Longrightarrow> sends a st = Some r \<Longrightarrow> r \<in> R"
  by (cases a)
    (auto simp: may_call_def split: call_pc.splits option.splits worker.splits elim!: sending_thread.elims)

lemma may_call_move:
  assumes "call_move srv child elapsed st a st'" and "\<And>e. a = GiveUp e \<Longrightarrow> error_text e \<noteq> []"
    and "may_call child (R \<union> server_errors) st" and A: "A (world (sh st)) (world (sh st))"
    and "\<And>r. sends a st = Some r \<Longrightarrow> r \<in> R \<union> server_errors \<Longrightarrow>
      A (world (sh st)) (fst (c_Reply child (world (sh st)) r))"
  shows "may_call child (R \<union> server_errors) st' \<and> A (world (sh st)) (world (sh st'))"
  using assms(1-3,5)
proof (induction rule: call_move.induct)
  case (answer t t' s')
  then have "may_thread child (R \<union> server_errors) t" by (simp add: may_call_def)
  from may_thread_step [where A = A, OF this answer(3) A] answer show ?case by (auto simp: may_call_def)
next
  case (job t t' s')
  then have "may_thread child (R \<union> server_errors) t" by (simp add: may_call_def)
  from may_thread_step [where A = A, OF this job(4) A] job show ?case by (auto simp: may_call_def)
next
  case (recovering t t' s')
  then have "may_thread child (R \<union> server_errors) t" by (simp add: may_call_def)
  from may_thread_step [where A = A, OF this recovering(4) A] recovering show ?case by (auto simp: may_call_def)
next
  case (recover m)
  then show ?case
    using A by (auto simp: may_call_def reply_error_prog_may panic_error_def intro!: server_errorsI)
next
  case (give_up e)
  then show ?case
    using A by (auto simp: may_call_def reply_error_prog_may intro!: server_errorsI)
qed (use A in \<open>auto simp: may_call_def\<close>)

lemma crashed_stops: "call_step srv child elapsed a st = Some st' \<Longrightarrow> \<not> crashed (pc st)"
  by (cases a) (auto elim!: crashed.elims)

lemma call_start_facts:
  "\<not> crashed (pc (call_start srv child allow wait w))" "world (sh (call_start srv child allow wait w)) = w"
  by (simp_all add: call_start_def NewRequestContext_def Let_def split: option.split)

section \<open>Callers, and messages under way\<close>

datatype 'r net_caller = NotCalled | Called | Done 'r

definition remove_nth :: "nat \<Rightarrow> 'a list \<Rightarrow> 'a list" where
  "remove_nth i xs = take i xs @ drop (Suc i) xs"

lemma set_remove_nth: "set (remove_nth i xs) \<subseteq> set xs"
  by (auto simp: remove_nth_def dest: in_set_takeD in_set_dropD)

end
