(* ===== verification/Json_Network.thy ===== *)
theory Json_Network
  imports Json_Client Call_Replies "HOL-Library.Countable"
begin

text \<open>
  Any number of JSON calls to one device at the same time: callers, the broker with the messages it
  has not delivered yet, and the device's server with all its running calls, as one machine whose
  parts are the ones of \<open>Json_Client\<close>, \<open>Json_Server\<close> and \<open>Server_Core\<close>.  The broker may deliver
  in any order, lose messages and deliver them again; how a caller reads a message that was delivered is the subject of
  \<open>Rpc_Conn\<close>.
\<close>

section \<open>What a running call may publish\<close>

text \<open>The messages that the transport publishes for these responses are among \<open>G\<close>.\<close>

definition publishes :: "('m list, 'v, 'x) child \<Rightarrow> 'v response option set \<Rightarrow> 'm set \<Rightarrow> bool" where
  "publishes child R G \<longleftrightarrow> (\<forall>w r. r \<in> R \<longrightarrow> set (fst (c_Reply child w r)) \<subseteq> set w \<union> G)"

definition call_good ::
  "('m list, 'v, 'x) child \<Rightarrow> 'v response option set \<Rightarrow> 'm set \<Rightarrow> ('m list, 'v, 'u) call_state \<Rightarrow> bool" where
  "call_good child R G st \<longleftrightarrow>
     may_call child R st \<and> set (world (sh st)) \<subseteq> G"

lemma call_good_move:
  assumes "call_move srv child elapsed st a st'" and "publishes child (R \<union> server_errors) G"
    and "\<And>e. a = GiveUp e \<Longrightarrow> error_text e \<noteq> []" and "call_good child (R \<union> server_errors) G st"
  shows "call_good child (R \<union> server_errors) G st'"
proof -
  have "may_call child (R \<union> server_errors) st'
      \<and> (set (world (sh st)) \<subseteq> G \<longrightarrow> set (world (sh st')) \<subseteq> G)"
    by (rule may_call_move [where A = "\<lambda>w w'. set w \<subseteq> G \<longrightarrow> set w' \<subseteq> G", OF assms(1,3)])
      (use assms(2,4) in \<open>fastforce simp: call_good_def publishes_def\<close>)+
  with assms(4) show ?thesis by (simp add: call_good_def)
qed

lemma call_good_start:
  assumes "\<And>hdl. handlerMap srv (c_Method child) = Some (Some hdl) \<Longrightarrow> may_reply child (R \<union> server_errors) (h_Method hdl child)"
  shows "call_good child (R \<union> server_errors) G (call_start srv child allow wait [])"
  using may_call_start [OF assms] by (simp add: call_good_def call_start_facts)

section \<open>The machine\<close>

record 'v net_call =
  nc_rid :: string
  nc_method :: string
  nc_args :: 'v
  nc_reply :: 'v

text \<open>What does not change: the texts and values, tracing, the server, the client and the device, and the calls.\<close>

record ('v, 'x, 'u) net_par =
  np_env :: "'v json_env"
  np_inject :: "'x \<Rightarrow> (string \<rightharpoonup> string) \<Rightarrow> (string \<rightharpoonup> string)"
  np_extract :: "'x \<Rightarrow> (string \<rightharpoonup> string) \<Rightarrow> 'x"
  np_incoming :: "(string \<rightharpoonup> string) \<Rightarrow> 'x"
  np_background :: 'x
  np_server :: "(json_world, 'v, 'x, 'u) server"
  np_client :: json_client
  np_device :: string
  np_call :: "nat \<Rightarrow> 'v net_call"

record ('v, 'x, 'u) net =
  nt_callers :: "nat \<Rightarrow> 'v json_result net_caller"
  nt_requests :: "message list"
  nt_serving :: "((json_world, 'v, 'x) child \<times> (json_world, 'v, 'u) call_state) list"
  nt_answers :: "message list"

definition net_start :: "('v, 'x, 'u) net" where
  "net_start = \<lparr>nt_callers = (\<lambda>k. NotCalled), nt_requests = [], nt_serving = [], nt_answers = []\<rparr>"

definition net_json_Call ::
  "('v, 'x, 'u) net_par \<Rightarrow> nat \<Rightarrow> json_ending \<Rightarrow> message list \<times> 'v json_result" where
  "net_json_Call par k ending =
     json_Call (np_env par) (np_inject par) (np_extract par) (np_client par) (np_device par)
       (nc_rid (np_call par k)) (nc_method (np_call par k)) (nc_args (np_call par k)) (nc_reply (np_call par k)) ending"

definition net_response_topic :: "('v, 'x, 'u) net_par \<Rightarrow> nat \<Rightarrow> string" where
  "net_response_topic par k = json_response_topic (np_client par) (np_device par) (nc_rid (np_call par k))"

text \<open>
  A caller writes its request; the broker delivers a request, with what the limiter answers, loses it
  or keeps another copy of it; a running call takes a step; the broker delivers an answer to the
  caller that listens on its topic, loses it or keeps another copy; a caller's context ends.  A call
  that crashes takes the process of the server with it.
\<close>

definition server_up :: "('v, 'x, 'u) net \<Rightarrow> bool" where
  "server_up s \<longleftrightarrow> (\<forall>(child, st) \<in> set (nt_serving s). \<not> crashed (pc st))"

datatype net_event =
    NCall nat
  | NReceive nat bool "gerror option"
  | NLoseRequest nat
  | NRepeatRequest nat
  | NServe nat int actor
  | NDeliver nat nat
  | NLoseAnswer nat
  | NRepeatAnswer nat
  | NCtxDone nat gerror

fun net_step :: "('v, 'x, 'u) net_par \<Rightarrow> net_event \<Rightarrow> ('v, 'x, 'u) net \<Rightarrow> ('v, 'x, 'u) net option" where
  "net_step par (NCall k) s =
     (if nt_callers s k = NotCalled then
        (case net_json_Call par k (JCtxDone ErrTimeout) of
           ([], r) \<Rightarrow> Some (s\<lparr>nt_callers := (nt_callers s)(k := Done r)\<rparr>)
         | (ms, r) \<Rightarrow> Some (s\<lparr>nt_callers := (nt_callers s)(k := Called), nt_requests := nt_requests s @ ms\<rparr>))
      else None)"
| "net_step par (NReceive i allow wait) s =
     (if i < length (nt_requests s) \<and> server_up s then
        (case json_receive (np_env par) (np_incoming par) (np_background par) (nt_requests s ! i) [] of
           (w, None) \<Rightarrow> Some (s\<lparr>nt_requests := remove_nth i (nt_requests s), nt_answers := nt_answers s @ w\<rparr>)
         | (w, Some child) \<Rightarrow>
             Some (s\<lparr>nt_requests := remove_nth i (nt_requests s),
                     nt_serving := nt_serving s @ [(child, call_start (np_server par) child allow wait w)]\<rparr>))
      else None)"
| "net_step par (NLoseRequest i) s = Some (s\<lparr>nt_requests := remove_nth i (nt_requests s)\<rparr>)"
| "net_step par (NRepeatRequest i) s =
     (if i < length (nt_requests s) then Some (s\<lparr>nt_requests := nt_requests s @ [nt_requests s ! i]\<rparr>) else None)"
| "net_step par (NServe i elapsed a) s =
     (if i < length (nt_serving s) \<and> server_up s then
        (case nt_serving s ! i of (child, st) \<Rightarrow>
           (case call_step (np_server par) child elapsed a st of
              None \<Rightarrow> None
            | Some st' \<Rightarrow>
                Some (s\<lparr>nt_serving := (nt_serving s)[i := (child, st')],
                        nt_answers := nt_answers s @ drop (length (world (sh st))) (world (sh st'))\<rparr>)))
      else None)"
| "net_step par (NDeliver k i) s =
     (if nt_callers s k = Called \<and> i < length (nt_answers s) \<and> m_Topic (nt_answers s ! i) = net_response_topic par k
      then Some (s\<lparr>nt_callers := (nt_callers s)(k := Done (snd (net_json_Call par k (JAnswered (m_Payload (nt_answers s ! i)))))),
                   nt_answers := remove_nth i (nt_answers s)\<rparr>)
      else None)"
| "net_step par (NLoseAnswer i) s = Some (s\<lparr>nt_answers := remove_nth i (nt_answers s)\<rparr>)"
| "net_step par (NRepeatAnswer i) s =
     (if i < length (nt_answers s) then Some (s\<lparr>nt_answers := nt_answers s @ [nt_answers s ! i]\<rparr>) else None)"
| "net_step par (NCtxDone k e) s =
     (if nt_callers s k = Called
      then Some (s\<lparr>nt_callers := (nt_callers s)(k := Done (snd (net_json_Call par k (JCtxDone e))))\<rparr>)
      else None)"

fun net_run :: "('v, 'x, 'u) net_par \<Rightarrow> net_event list \<Rightarrow> ('v, 'x, 'u) net \<Rightarrow> ('v, 'x, 'u) net option" where
  "net_run par [] s = Some s"
| "net_run par (e # es) s = (case net_step par e s of None \<Rightarrow> None | Some s' \<Rightarrow> net_run par es s')"

section \<open>The invariant\<close>

text \<open>
  What is assumed of the calls and of what they run on: texts are read back as they were written,
  identifiers differ and topics are plain, and each call's arguments are those its handler binds.
\<close>

definition net_ok :: "('v, 'x, 'u) net_par \<Rightarrow> (nat \<Rightarrow> json) \<Rightarrow> (string \<Rightarrow> 'v \<Rightarrow> 'v response) \<Rightarrow> bool" where
  "net_ok par ja f \<longleftrightarrow>
     (\<forall>j. carries (np_env par) j)
   \<and> inj (\<lambda>k. nc_rid (np_call par k))
   \<and> word_free (topic_levels (jcl_topicPrefix (np_client par)) (np_device par))
   \<and> (\<forall>k. let c = np_call par k; env = np_env par in
        plain_segment (nc_rid c) \<and> \<not> sublist request_word (nc_rid c)
      \<and> je_Marshal env (nc_args c) = Inr (ja k) \<and> je_Struct env (nc_args c) = None
      \<and> (\<exists>argtype bad timeout.
            handlerMap (np_server par) (nc_method c) = Some (Some (json_bind_handler argtype bad (f (nc_method c)) timeout))
          \<and> je_Unmarshal env (ja k) (je_zero env argtype) = (nc_args c, None))
      \<and> - (2 ^ 63) \<le> r_status (f (nc_method c) (nc_args c)) \<and> r_status (f (nc_method c) (nc_args c)) < 2 ^ 63)"

definition net_request :: "('v, 'x, 'u) net_par \<Rightarrow> (nat \<Rightarrow> json) \<Rightarrow> nat \<Rightarrow> json_request_data" where
  "net_request par ja k =
     json_own_request (np_client par) (np_device par) (nc_rid (np_call par k)) (nc_method (np_call par k)) (ja k)"

definition own_response :: "('v, 'x, 'u) net_par \<Rightarrow> (string \<Rightarrow> 'v \<Rightarrow> 'v response) \<Rightarrow> nat \<Rightarrow> 'v response" where
  "own_response par f k = f (nc_method (np_call par k)) (nc_args (np_call par k))"

text \<open>What the answer to its own request makes of a call.\<close>

definition own_outcome ::
  "('v, 'x, 'u) net_par \<Rightarrow> (nat \<Rightarrow> json) \<Rightarrow> (string \<Rightarrow> 'v \<Rightarrow> 'v response) \<Rightarrow> nat \<Rightarrow> 'v json_result" where
  "own_outcome par ja f k =
     json_answer_result (np_env par) (nc_reply (np_call par k))
       (json_wire (np_env par) (net_request par ja k) (own_response par f k))"

definition net_replies :: "('v, 'x, 'u) net_par \<Rightarrow> (string \<Rightarrow> 'v \<Rightarrow> 'v response) \<Rightarrow> nat \<Rightarrow> 'v response option set" where
  "net_replies par f k = {Some (own_response par f k)} \<union> server_errors"

definition net_messages ::
  "('v, 'x, 'u) net_par \<Rightarrow> (nat \<Rightarrow> json) \<Rightarrow> (string \<Rightarrow> 'v \<Rightarrow> 'v response) \<Rightarrow> nat \<Rightarrow> message set" where
  "net_messages par ja f k = {m. m_Topic m = net_response_topic par k \<and> (\<exists>x. Some x \<in> net_replies par f k
     \<and> m_Payload m = je_print (np_env par) (encode_response (js_Response (json_response_for (np_env par) (net_request par ja k) x))))}"

definition net_child :: "('v, 'x, 'u) net_par \<Rightarrow> (nat \<Rightarrow> json) \<Rightarrow> nat \<Rightarrow> (json_world, 'v, 'x) child" where
  "net_child par ja k = json_child (np_env par) (np_background par) (net_request par ja k)"

definition result_ok ::
  "('v, 'x, 'u) net_par \<Rightarrow> (nat \<Rightarrow> json) \<Rightarrow> (string \<Rightarrow> 'v \<Rightarrow> 'v response) \<Rightarrow> nat \<Rightarrow> 'v json_result \<Rightarrow> bool" where
  "result_ok par ja f k r \<longleftrightarrow> r = own_outcome par ja f k \<or> (\<exists>e. r = (Some e, nc_reply (np_call par k)))"

definition net_inv :: "('v, 'x, 'u) net_par \<Rightarrow> (nat \<Rightarrow> json) \<Rightarrow> (string \<Rightarrow> 'v \<Rightarrow> 'v response) \<Rightarrow> ('v, 'x, 'u) net \<Rightarrow> bool" where
  "net_inv par ja f s \<longleftrightarrow>
     (\<forall>m \<in> set (nt_requests s). \<exists>k e. net_json_Call par k (JCtxDone e) = ([m], (Some e, nc_reply (np_call par k))))
   \<and> (\<forall>(child, st) \<in> set (nt_serving s). \<exists>k. child = net_child par ja k
        \<and> call_good child (net_replies par f k) (net_messages par ja f k) st)
   \<and> (\<forall>m \<in> set (nt_answers s). \<exists>k. m \<in> net_messages par ja f k)
   \<and> (\<forall>k r. nt_callers s k = Done r \<longrightarrow> result_ok par ja f k r)"

lemma net_okD:
  assumes "net_ok par ja f"
  shows "carries (np_env par) j" "inj (\<lambda>k. nc_rid (np_call par k))"
    and "word_free (topic_levels (jcl_topicPrefix (np_client par)) (np_device par))"
    and "plain_segment (nc_rid (np_call par k))" "\<not> sublist request_word (nc_rid (np_call par k))"
    and "je_Marshal (np_env par) (nc_args (np_call par k)) = Inr (ja k)" "je_Struct (np_env par) (nc_args (np_call par k)) = None"
    and "- (2 ^ 63) \<le> r_status (own_response par f k)" "r_status (own_response par f k) < 2 ^ 63"
    and "\<exists>argtype bad timeout. handlerMap (np_server par) (nc_method (np_call par k))
        = Some (Some (json_bind_handler argtype bad (f (nc_method (np_call par k))) timeout))
      \<and> je_Unmarshal (np_env par) (ja k) (je_zero (np_env par) argtype) = (nc_args (np_call par k), None)"
  using assms by (simp_all add: net_ok_def own_response_def Let_def)

lemma net_publishes:
  assumes "net_ok par ja f"
  shows "publishes (net_child par ja k) (net_replies par f k) (net_messages par ja f k)"
  unfolding publishes_def
proof (intro allI impI)
  fix w r
  assume r: "r \<in> net_replies par f k"
  then obtain x where x: "r = Some x" by (auto simp: net_replies_def server_errors_def)
  have "ReplyTopic (net_request par ja k) = net_response_topic par k"
    using json_own_reply_topic net_okD(3-5) [OF assms] by (simp add: net_request_def net_response_topic_def)
  with r x show "set (fst (c_Reply (net_child par ja k) w r)) \<subseteq> set w \<union> net_messages par ja f k"
    by (auto simp: net_child_def json_child_def json_Reply_def json_reply_def json_response_topic net_messages_def)
qed

lemma net_handler_may:
  assumes "net_ok par ja f" and "handlerMap (np_server par) (c_Method (net_child par ja k)) = Some (Some hdl)"
  shows "may_reply (net_child par ja k) (net_replies par f k) (h_Method hdl (net_child par ja k))"
proof -
  have "c_Method (net_child par ja k) = nc_method (np_call par k)"
    by (simp add: net_child_def json_child_def net_request_def json_own_request_def json_call_request_def)
  with assms(2) net_okD(10) [OF assms(1), of k] obtain argtype bad timeout
    where hdl: "hdl = json_bind_handler argtype bad (f (nc_method (np_call par k))) timeout"
      and args: "je_Unmarshal (np_env par) (ja k) (je_zero (np_env par) argtype) = (nc_args (np_call par k), None)"
    by auto
  have bind: "c_Bind (net_child par ja k) (GoType False argtype) = Ret (Inr (nc_args (np_call par k)))"
    unfolding net_child_def net_request_def by (rule json_own_bind [OF args net_okD(7) [OF assms(1)]])
  then show ?thesis
    by (simp add: hdl json_bind_handler_def net_replies_def own_response_def)
qed

lemma net_response_topic_inj:
  assumes "net_ok par ja f" and "net_response_topic par j = net_response_topic par k"
  shows "j = k"
proof -
  have "CHR ''/'' \<notin> set (nc_rid (np_call par i))" for i
    using net_okD(4) [OF assms(1), of i] by (simp add: plain_segment_def)
  then have free: "CHR ''/'' \<notin> set s" if "s \<in> set [response_word, nc_rid (np_call par i)]" for s i
    using that by (auto simp: word_defs)
  have "topic_path (jcl_topicPrefix (np_client par)) (np_device par) [response_word, nc_rid (np_call par j)]
      = topic_path (jcl_topicPrefix (np_client par)) (np_device par) [response_word, nc_rid (np_call par k)]"
    using assms(2) by (simp add: net_response_topic_def json_topics net_okD(4) [OF assms(1)])
  then have "nc_rid (np_call par j) = nc_rid (np_call par k)"
    by (subst (asm) topic_path_inject) (use free [of _ j] free [of _ k] in auto)
  with net_okD(2) [OF assms(1)] show ?thesis by (auto dest: injD)
qed

lemma error_outcome:
  assumes "Some x \<in> server_errors"
  shows "\<exists>e. json_answer_result env reply (json_wire env r x) = (Some e, reply)"
    and "- (2 ^ 63) \<le> r_status x" "r_status x < 2 ^ 63"
proof -
  obtain status e where x: "x = error_response status (Some e)" "error_text e \<noteq> []"
      "status \<in> {RPCStatusServerError, RPCStatusTooFraquently, RPCStatusRequestTimeout}"
    using assms by (auto simp: server_errors_def)
  then show "\<exists>e. json_answer_result env reply (json_wire env r x) = (Some e, reply)"
    by (auto simp: json_answer_result_def json_wire_def json_response_for_def error_response_def
        json_MakeErrResponse_def json_GetResponse_def encode_raw_def Let_def status_defs)
  from x show "- (2 ^ 63) \<le> r_status x" "r_status x < 2 ^ 63"
    by (auto simp: error_response_def status_defs)
qed

text \<open>An answer on the topic of a call is an answer to that call.\<close>

lemma delivered_ok:
  assumes ok: "net_ok par ja f" and "m \<in> net_messages par ja f j" and "m_Topic m = net_response_topic par k"
  shows "result_ok par ja f k (snd (net_json_Call par k (JAnswered (m_Payload m))))"
proof -
  have "j = k" using assms(2,3) net_response_topic_inj [OF ok] by (auto simp: net_messages_def)
  with assms(2) obtain x where x: "Some x \<in> net_replies par f k" "m_Payload m = je_print (np_env par)
      (encode_response (js_Response (json_response_for (np_env par) (net_request par ja k) x)))"
    by (auto simp: net_messages_def)
  have range: "- (2 ^ 63) \<le> r_status x" "r_status x < 2 ^ 63"
    using x(1) net_okD(8,9) [OF ok, of k] error_outcome(2,3) by (auto simp: net_replies_def)
  have "snd (net_json_Call par k (JAnswered (m_Payload m)))
      = json_answer_result (np_env par) (nc_reply (np_call par k)) (json_wire (np_env par) (net_request par ja k) x)"
    unfolding x(2) net_json_Call_def net_request_def
    by (rule json_wire_answers [OF net_okD(6) [OF ok] net_okD(1) [OF ok] range])
  moreover have "result_ok par ja f k (json_answer_result (np_env par) (nc_reply (np_call par k))
      (json_wire (np_env par) (net_request par ja k) x))"
  proof (cases "x = own_response par f k")
    case False
    with x(1) have "Some x \<in> server_errors" by (simp add: net_replies_def)
    from error_outcome(1) [OF this] show ?thesis by (auto simp: result_ok_def)
  qed (simp add: result_ok_def own_outcome_def)
  ultimately show ?thesis by simp
qed

lemma net_start_inv: "net_inv par ja f net_start"
  by (simp add: net_inv_def net_start_def)

lemma net_request_sent:
  assumes "net_ok par ja f"
  shows "\<exists>m. net_json_Call par k (JCtxDone e) = ([m], (Some e, nc_reply (np_call par k)))
    \<and> json_receive (np_env par) (np_incoming par) (np_background par) m w = (w, Some (net_child par ja k))"
  using json_request_received [OF net_okD(6) [OF assms] net_okD(1) [OF assms]]
  by (simp add: net_json_Call_def net_child_def net_request_def)

lemma net_request_served:
  assumes "net_ok par ja f" and "net_json_Call par k (JCtxDone e) = ([m], r)"
  shows "json_receive (np_env par) (np_incoming par) (np_background par) m w = (w, Some (net_child par ja k))"
  using net_request_sent [OF assms(1), of k e w] assms(2) by auto

lemma inv_NReceive:
  assumes ok: "net_ok par ja f" and inv: "net_inv par ja f s"
    and step: "net_step par (NReceive i allow wait) s = Some s'"
  shows "net_inv par ja f s'"
proof -
  from step have i: "i < length (nt_requests s)" "server_up s" by (simp_all split: if_splits)
  from i(1) have "nt_requests s ! i \<in> set (nt_requests s)" by simp
  with inv obtain k e where "net_json_Call par k (JCtxDone e) = ([nt_requests s ! i], (Some e, nc_reply (np_call par k)))"
    unfolding net_inv_def by blast
  from net_request_served [OF ok this, of "[]"] step i
  have s': "s' = s\<lparr>nt_requests := remove_nth i (nt_requests s),
      nt_serving := nt_serving s @ [(net_child par ja k, call_start (np_server par) (net_child par ja k) allow wait [])]\<rparr>"
    by simp
  have "call_good (net_child par ja k) (net_replies par f k) (net_messages par ja f k)
      (call_start (np_server par) (net_child par ja k) allow wait [])"
    unfolding net_replies_def
    by (rule call_good_start) (use net_handler_may [OF ok] in \<open>simp add: net_replies_def\<close>)
  with inv show ?thesis
    using set_remove_nth [of i "nt_requests s"] unfolding s' net_inv_def by auto
qed

lemma inv_NServe:
  assumes ok: "net_ok par ja f" and inv: "net_inv par ja f s"
    and step: "net_step par (NServe i elapsed a) s = Some s'"
    and texts: "\<And>e. a = GiveUp e \<Longrightarrow> error_text e \<noteq> []"
  shows "net_inv par ja f s'"
proof -
  from step have i: "i < length (nt_serving s)" "server_up s" by (simp_all split: if_splits)
  obtain child st where here: "nt_serving s ! i = (child, st)" by fastforce
  with i(1) have "(child, st) \<in> set (nt_serving s)" by (metis nth_mem)
  with inv obtain k where k: "child = net_child par ja k"
      "call_good child (net_replies par f k) (net_messages par ja f k) st"
    unfolding net_inv_def by blast
  from step i here obtain st' where st': "call_step (np_server par) child elapsed a st = Some st'"
      "s' = s\<lparr>nt_serving := (nt_serving s)[i := (child, st')],
              nt_answers := nt_answers s @ drop (length (world (sh st))) (world (sh st'))\<rparr>"
    by (auto split: option.splits)
  have good: "call_good child (net_replies par f k) (net_messages par ja f k) st'"
    unfolding net_replies_def
    by (rule call_good_move [OF call_step_move [OF st'(1)]])
      (use net_publishes [OF ok, of k] k texts in \<open>simp_all add: net_replies_def\<close>)
  have "set (nt_serving s') \<subseteq> insert (child, st') (set (nt_serving s))"
    unfolding st'(2) by (simp add: set_update_subset_insert)
  moreover have "set (nt_answers s') \<subseteq> set (nt_answers s) \<union> net_messages par ja f k"
    using good in_set_dropD by (fastforce simp: st'(2) call_good_def)
  moreover have "nt_requests s' = nt_requests s" "nt_callers s' = nt_callers s"
    by (simp_all add: st'(2))
  ultimately show ?thesis
    using inv good k(1) unfolding net_inv_def by (auto; blast)
qed

lemma inv_NDeliver:
  assumes ok: "net_ok par ja f" and inv: "net_inv par ja f s"
    and step: "net_step par (NDeliver k i) s = Some s'"
  shows "net_inv par ja f s'"
proof -
  from step have i: "i < length (nt_answers s)" "m_Topic (nt_answers s ! i) = net_response_topic par k"
    and s': "s' = s\<lparr>nt_callers := (nt_callers s)(k := Done (snd (net_json_Call par k (JAnswered (m_Payload (nt_answers s ! i)))))),
                   nt_answers := remove_nth i (nt_answers s)\<rparr>"
    by (simp_all split: if_splits)
  from i(1) have "nt_answers s ! i \<in> set (nt_answers s)" by simp
  with inv obtain j where "nt_answers s ! i \<in> net_messages par ja f j"
    unfolding net_inv_def by blast
  from delivered_ok [OF ok this i(2)] inv show ?thesis
    using set_remove_nth [of i "nt_answers s"] unfolding s' net_inv_def by auto
qed

lemma net_inv_step:
  assumes ok: "net_ok par ja f" and inv: "net_inv par ja f s" and step: "net_step par ev s = Some s'"
    and texts: "\<And>i t e. ev = NServe i t (GiveUp e) \<Longrightarrow> error_text e \<noteq> []"
  shows "net_inv par ja f s'"
proof (cases ev)
  case (NCall k)
  obtain m where m: "net_json_Call par k (JCtxDone ErrTimeout) = ([m], (Some ErrTimeout, nc_reply (np_call par k)))"
    using net_request_sent [OF ok, of k ErrTimeout] by blast
  with NCall step have "s' = s\<lparr>nt_callers := (nt_callers s)(k := Called), nt_requests := nt_requests s @ [m]\<rparr>"
    by (simp split: if_splits)
  with inv m show ?thesis by (auto simp: net_inv_def split: if_splits)
next
  case (NReceive i allow wait)
  with inv_NReceive [OF ok inv] step show ?thesis by blast
next
  case (NServe i elapsed a)
  with inv_NServe [OF ok inv] step texts show ?thesis by blast
next
  case (NDeliver k i)
  with inv_NDeliver [OF ok inv] step show ?thesis by blast
next
  case (NCtxDone k e)
  with step have "s' = s\<lparr>nt_callers := (nt_callers s)(k := Done (snd (net_json_Call par k (JCtxDone e))))\<rparr>"
    by (simp split: if_splits)
  moreover have "snd (net_json_Call par k (JCtxDone e)) = (Some e, nc_reply (np_call par k))"
    using net_request_sent [OF ok, of k e "[]"] by auto
  then have "result_ok par ja f k (snd (net_json_Call par k (JCtxDone e)))"
    by (simp add: result_ok_def)
  ultimately show ?thesis
    using inv by (simp add: net_inv_def del: split_paired_All)
next
  case (NLoseRequest i)
  with step inv show ?thesis
    using set_remove_nth [of i "nt_requests s"] by (auto simp: net_inv_def)
next
  case (NLoseAnswer i)
  with step inv show ?thesis
    using set_remove_nth [of i "nt_answers s"] by (auto simp: net_inv_def)
next
  case (NRepeatRequest i)
  with step have "nt_requests s ! i \<in> set (nt_requests s)" "s' = s\<lparr>nt_requests := nt_requests s @ [nt_requests s ! i]\<rparr>"
    by (simp_all split: if_splits)
  with inv show ?thesis by (simp add: net_inv_def)
next
  case (NRepeatAnswer i)
  with step have "nt_answers s ! i \<in> set (nt_answers s)" "s' = s\<lparr>nt_answers := nt_answers s @ [nt_answers s ! i]\<rparr>"
    by (simp_all split: if_splits)
  with inv show ?thesis by (simp add: net_inv_def)
qed

lemma net_inv_run:
  assumes "net_ok par ja f" and "net_run par es s = Some s'" and "net_inv par ja f s"
    and "\<And>i t e. NServe i t (GiveUp e) \<in> set es \<Longrightarrow> error_text e \<noteq> []"
  shows "net_inv par ja f s'"
  using assms(2-4)
proof (induction es arbitrary: s)
  case (Cons ev es)
  then obtain s1 where s1: "net_step par ev s = Some s1" "net_run par es s1 = Some s'"
    by (auto split: option.splits)
  have "net_inv par ja f s1"
    by (rule net_inv_step [OF assms(1) Cons.prems(2) s1(1)]) (use Cons.prems(3) in auto)
  then show ?case
    by (rule Cons.IH [OF s1(2)]) (use Cons.prems(3) in auto)
qed simp


section \<open>Progress\<close>

text \<open>A transport that only adds to what it published, as JSON's does; then a running call does too.\<close>

definition appends :: "('m list, 'v, 'x) child \<Rightarrow> bool" where
  "appends child \<longleftrightarrow> (\<forall>w r. prefix w (fst (c_Reply child w r)))"

lemma thread_step_prefix:
  assumes "appends child" and "thread_step child t s = (t', s')"
  shows "prefix (world s) (world s')"
proof (cases t)
  case (Running p)
  with assms(2) show ?thesis by (cases p) (auto split: if_splits outcome.splits)
next
  case (Sending r k)
  moreover have "prefix (world s) (fst (c_Reply child (world s) r))"
    using assms(1) by (simp add: appends_def)
  ultimately show ?thesis
    using assms(2) by (auto simp: child_reply_def split: prod.splits outcome.splits)
qed (use assms in \<open>auto simp: setResponse_def\<close>)

lemma call_step_prefix:
  assumes "appends child" and "call_step srv child elapsed a st = Some st'"
  shows "prefix (world (sh st)) (world (sh st'))"
  using call_step_move [OF assms(2)]
  by (induction rule: call_move.induct) (auto dest: thread_step_prefix [OF assms(1)])

text \<open>A running call of the network runs as it does alone.\<close>

lemma net_serve_run:
  assumes "appends child" and "\<not> crashed (pc st')"
    and "i < length (nt_serving s)" and "server_up s" and "nt_serving s ! i = (child, st)"
    and "call_run (np_server par) child elapsed as st = Some st'"
  shows "\<exists>s'. net_run par (map (NServe i elapsed) as) s = Some s'
    \<and> nt_callers s' = nt_callers s
    \<and> nt_answers s' = nt_answers s @ drop (length (world (sh st))) (world (sh st'))
    \<and> prefix (world (sh st)) (world (sh st'))"
  using assms(3-)
proof (induction "as" arbitrary: s st)
  case (Cons a as)
  then obtain st1 where st1: "call_step (np_server par) child elapsed a st = Some st1"
      "call_run (np_server par) child elapsed as st1 = Some st'"
    by (auto split: option.splits)
  let ?s1 = "s\<lparr>nt_serving := (nt_serving s)[i := (child, st1)],
               nt_answers := nt_answers s @ drop (length (world (sh st))) (world (sh st1))\<rparr>"
  have step1: "net_step par (NServe i elapsed a) s = Some ?s1"
    using Cons.prems(1-3) st1(1) by simp
  have "\<not> crashed (pc st1)"
    using st1(2) assms(2) by (cases "as") (auto split: option.splits dest: crashed_stops)
  then have "server_up ?s1"
    using Cons.prems(2) set_update_subset_insert [of "nt_serving s" i "(child, st1)"]
    unfolding server_up_def by fastforce
  with Cons.prems(1) have "i < length (nt_serving ?s1)" "server_up ?s1" "nt_serving ?s1 ! i = (child, st1)"
    by simp_all
  from Cons.IH [OF this st1(2)] obtain s' where s': "net_run par (map (NServe i elapsed) as) ?s1 = Some s'"
      "nt_callers s' = nt_callers ?s1"
      "nt_answers s' = nt_answers ?s1 @ drop (length (world (sh st1))) (world (sh st'))"
      "prefix (world (sh st1)) (world (sh st'))"
    by blast
  have "prefix (world (sh st)) (world (sh st1))" by (rule call_step_prefix [OF assms(1) st1(1)])
  with s'(4) have "prefix (world (sh st)) (world (sh st'))"
      "drop (length (world (sh st))) (world (sh st1)) @ drop (length (world (sh st1))) (world (sh st'))
        = drop (length (world (sh st))) (world (sh st'))"
    by (auto elim!: prefixE)
  with step1 s'(1-3) show ?case by auto
qed simp

lemma net_run_append:
  "net_run par (xs @ ys) s = (case net_run par xs s of None \<Rightarrow> None | Some s' \<Rightarrow> net_run par ys s')"
  by (induction xs arbitrary: s) (auto split: option.splits)

lemma net_child_served:
  assumes ok: "net_ok par ja f" and "admits (np_server par) allow wait"
  shows "\<exists>n st ans. call_run (np_server par) (net_child par ja k) 0 (replicate n WorkerStep)
        (call_start (np_server par) (net_child par ja k) allow wait []) = Some st
    \<and> \<not> crashed (pc st) \<and> world (sh st) = [ans] \<and> m_Topic ans = net_response_topic par k
    \<and> m_Payload ans = je_print (np_env par) (encode_response (js_Response
        (json_response_for (np_env par) (net_request par ja k) (own_response par f k))))"
proof -
  obtain argtype bad timeout where hdl: "handlerMap (np_server par) (nc_method (np_call par k))
        = Some (Some (json_bind_handler argtype bad (f (nc_method (np_call par k))) timeout))"
      and args: "je_Unmarshal (np_env par) (ja k) (je_zero (np_env par) argtype) = (nc_args (np_call par k), None)"
    using net_okD(10) [OF ok, of k] by blast
  let ?hdl = "json_bind_handler argtype bad (f (nc_method (np_call par k))) timeout"
  let ?ans = "\<lparr>m_Topic = ReplyTopic (net_request par ja k), m_QoS = 0, m_Retained = False,
      m_Payload = je_print (np_env par) (encode_response (js_Response
        (json_response_for (np_env par) (net_request par ja k) (own_response par f k))))\<rparr>"
  have disp: "dispatched (np_server par) (net_child par ja k) allow wait ?hdl"
    using assms(2) hdl
    by (simp add: dispatched_def admits_def net_child_def json_child_def net_request_def json_own_request_def
        json_call_request_def)
  have errs: "error_replies_return (net_child par ja k)"
    unfolding net_child_def by (rule json_context.transport_errors)
  obtain n J where run: "call_run (np_server par) (net_child par ja k) 0 (replicate n WorkerStep)
        (call_start (np_server par) (net_child par ja k) allow wait [])
      = Some \<lparr>pc = Waiting, wk = Some (J Finished), sh = job_result (net_child par ja k) ?hdl (NewRequestContext [])\<rparr>"
    using job_completes [OF disp errs, of 0 "[]"] by (elim exE conjE) (rule that)
  have bind: "c_Bind (net_child par ja k) (GoType False argtype) = Ret (Inr (nc_args (np_call par k)))"
    unfolding net_child_def net_request_def by (rule json_own_bind [OF args net_okD(7) [OF ok]])
  have "c_Reply (net_child par ja k) [] (Some (own_response par f k)) = ([?ans], Ret True)"
    by (simp add: net_child_def json_child_def json_Reply_def json_reply_def json_response_topic)
  then have "world (job_result (net_child par ja k) ?hdl (NewRequestContext [])) = [?ans]"
    unfolding own_response_def by (simp add: json_bind_handler_run [OF bind])
  moreover have "m_Topic ?ans = net_response_topic par k"
    using json_own_reply_topic net_okD(3-5) [OF ok] by (simp add: net_request_def net_response_topic_def)
  ultimately show ?thesis
    using run by (intro exI [of _ n] exI [of _ ?ans]) auto
qed

text \<open>The new call's request is received and served, and its answer is the last that is under way.\<close>

lemma new_call_served:
  assumes ok: "net_ok par ja f" and admitted: "admits (np_server par) allow wait"
    and up: "server_up s" and new: "nt_callers s k = NotCalled"
  shows "\<exists>es s' ans. net_run par es s = Some s' \<and> nt_callers s' k = Called \<and> nt_answers s' = nt_answers s @ [ans]
    \<and> m_Topic ans = net_response_topic par k
    \<and> m_Payload ans = je_print (np_env par) (encode_response (js_Response
        (json_response_for (np_env par) (net_request par ja k) (own_response par f k))))"
proof -
  let ?child = "net_child par ja k" and ?i = "length (nt_requests s)" and ?j = "length (nt_serving s)"
  let ?start = "call_start (np_server par) ?child allow wait []"
  obtain n st ans where run: "call_run (np_server par) ?child 0 (replicate n WorkerStep) ?start = Some st" "\<not> crashed (pc st)"
    and ans: "world (sh st) = [ans]" "m_Topic ans = net_response_topic par k"
      "m_Payload ans = je_print (np_env par) (encode_response (js_Response
        (json_response_for (np_env par) (net_request par ja k) (own_response par f k))))"
    using net_child_served [OF ok admitted] by blast
  define s2 where "s2 = s\<lparr>nt_callers := (nt_callers s)(k := Called), nt_serving := nt_serving s @ [(?child, ?start)]\<rparr>"
  have s2: "net_run par [NCall k, NReceive ?i allow wait] s = Some s2"
    using new up net_request_sent [OF ok, of k ErrTimeout "[]"] by (auto simp: s2_def remove_nth_def server_up_def)
  have "appends ?child"
    by (auto simp: appends_def net_child_def json_child_def json_Reply_def json_reply_def split: option.split)
  moreover have "?j < length (nt_serving s2)" "server_up s2" "nt_serving s2 ! ?j = (?child, ?start)"
    using up by (simp_all add: s2_def server_up_def call_start_facts)
  ultimately obtain s3 where "net_run par (map (NServe ?j 0) (replicate n WorkerStep)) s2 = Some s3"
      "nt_callers s3 = nt_callers s2" "nt_answers s3 = nt_answers s2 @ [ans]"
    using net_serve_run [OF _ run(2) _ _ _ run(1)] ans(1) by (fastforce simp: call_start_facts)
  note s3 = this
  have "net_run par ([NCall k, NReceive ?i allow wait] @ map (NServe ?j 0) (replicate n WorkerStep)) s = Some s3"
    unfolding net_run_append s2 option.case by (rule s3(1))
  moreover have "nt_callers s3 k = Called" "nt_answers s3 = nt_answers s @ [ans]"
    using s3(2,3) by (simp_all add: s2_def)
  ultimately show ?thesis using ans(2,3) by blast
qed


section \<open>Two calls at once\<close>

text \<open>Texts that are read back: a tree is written as a number of bytes.\<close>

instance json :: countable
  by countable_datatype

definition counting_json :: "string json_env" where
  "counting_json =
     \<lparr>je_print = (\<lambda>j. replicate (to_nat j) 1),
      je_parse = (\<lambda>bs. Inr (from_nat (length bs - 1))),
      je_stream = (\<lambda>bs. ([from_nat (length bs)], ErrEOF)),
      je_Marshal = (\<lambda>v. Inr (JString v)),
      je_Unmarshal = (\<lambda>j v. case j of JString s \<Rightarrow> (s, None) | _ \<Rightarrow> (v, Some (ExtErr ''json: cannot unmarshal''))),
      je_zero = (\<lambda>t. []), je_mismatch = (\<lambda>k f. ExtErr k), je_Sprintf = (\<lambda>j. ''%''), je_Struct = (\<lambda>v. None)\<rparr>"

lemma counting_carries: "carries counting_json j"
  by (simp add: carries_def counting_json_def)

definition shout :: "string \<Rightarrow> string \<Rightarrow> string response" where
  "shout meth a = ok_response (Some (a @ ''!''))"

definition shout_server :: "(json_world, string, string, unit) server" where
  "shout_server = Register ''hello'' (Some (json_unary_handler ''*main.Args'' (shout ''hello'') 5)) (NewServer ''s'' 4 [])"

definition two_callers :: "(string, string, unit) net_par" where
  "two_callers =
     \<lparr>np_env = counting_json, np_inject = (\<lambda>x kv. kv), np_extract = (\<lambda>x kv. x), np_incoming = (\<lambda>kv. ''x''),
      np_background = ''x'', np_server = shout_server, np_client = hi_client,
      np_device = ''d'',
      np_call = (\<lambda>k. \<lparr>nc_rid = replicate (Suc k) (CHR ''1''), nc_method = ''hello'',
                       nc_args = (if k = 0 then ''x'' else ''y''), nc_reply = ''old''\<rparr>)\<rparr>"

definition caller_json :: "nat \<Rightarrow> json" where
  "caller_json k = JString (if k = 0 then ''x'' else ''y'')"

lemma two_callers_ok: "net_ok two_callers caller_json shout"
proof -
  have rid: "plain_segment (replicate (Suc k) (CHR ''1''))" "\<not> sublist request_word (replicate (Suc k) (CHR ''1''))" for k
  proof -
    show "plain_segment (replicate (Suc k) (CHR ''1''))"
      by (auto simp: plain_segment_def)
    show "\<not> sublist request_word (replicate (Suc k) (CHR ''1''))"
    proof
      assume "sublist request_word (replicate (Suc k) (CHR ''1''))"
      then have "set request_word \<subseteq> {CHR ''1''}"
        by (metis set_mono_sublist set_replicate nat.discI)
      then show False by (simp add: word_defs)
    qed
  qed
  have "inj (\<lambda>k. replicate (Suc k) (CHR ''1''))"
    by (rule injI) (metis length_replicate nat.inject)
  moreover have "handlerMap shout_server ''hello'' = Some (Some (json_bind_handler ''*main.Args''
      (\<lambda>e. error_response RPCStatusServerError (Some e)) (shout ''hello'') 5))"
    by (simp add: shout_server_def Register_def json_unary_handler_def)
  moreover have "je_Marshal counting_json v = Inr (JString v)"
      "je_Unmarshal counting_json (JString v) v' = (v, None)" "je_Struct counting_json v = None" for v v'
    by (simp_all add: counting_json_def)
  moreover have "r_status (shout m a) = 200" for m a
    by (simp add: shout_def ok_response_def RPCStatusOK_def)
  ultimately show ?thesis
    using rid hi_topic(2)
    unfolding net_ok_def two_callers_def Let_def net_par.simps net_call.simps caller_json_def
    by (intro conjI allI counting_carries exI) simp_all
qed

definition two_calls_schedule :: "net_event list" where
  "two_calls_schedule =
     [NCall 0, NCall 1, NReceive 1 True None, NReceive 0 True None,
      NServe 1 0 WorkerStep, NServe 0 0 WorkerStep, NServe 1 0 WorkerStep, NServe 1 0 WorkerStep,
      NServe 0 0 WorkerStep, NServe 1 0 WorkerStep, NServe 0 0 WorkerStep, NServe 0 0 WorkerStep,
      NDeliver 1 1, NDeliver 0 0]"

definition two_request :: "nat \<Rightarrow> message" where
  "two_request k = hd (fst (net_json_Call two_callers k (JCtxDone ErrTimeout)))"

definition two_answer :: "nat \<Rightarrow> message" where
  "two_answer k = \<lparr>m_Topic = net_response_topic two_callers k, m_QoS = 0, m_Retained = False,
     m_Payload = je_print counting_json (encode_response (js_Response (json_response_for counting_json
       (net_request two_callers caller_json k) (own_response two_callers shout k))))\<rparr>"

lemma two_requests:
  "net_json_Call two_callers k (JCtxDone ErrTimeout) = ([two_request k], (Some ErrTimeout, ''old''))"
  "json_receive (np_env two_callers) (np_incoming two_callers) (np_background two_callers) (two_request k) []
    = ([], Some (net_child two_callers caller_json k))"
  using net_request_sent [OF two_callers_ok, of k ErrTimeout "[]"]
  by (auto simp: two_request_def two_callers_def)

abbreviation two_child :: "nat \<Rightarrow> (json_world, string, string) child" where
  "two_child k \<equiv> net_child two_callers caller_json k"

lemma two_child_replies: "c_Reply (two_child k) [] (Some (own_response two_callers shout k)) = ([two_answer k], Ret True)"
  using net_okD(3-5) [OF two_callers_ok] json_own_reply_topic
  by (simp add: net_child_def json_child_def json_Reply_def json_reply_def json_response_topic two_answer_def
      net_request_def net_response_topic_def two_callers_def)

lemma two_child_binds: "c_Bind (two_child k) (GoType False t) = Ret (Inr (if k = 0 then ''x'' else ''y''))"
  by (simp add: net_child_def json_child_def json_Bind_def net_request_def json_own_request_def json_call_request_def
      two_callers_def caller_json_def counting_json_def)

lemma two_child_start:
  "call_start (np_server two_callers) (two_child k) True None [] =
    \<lparr>pc = Waiting, wk = Some (Job (Running (HBind (GoType False ''*main.Args'') (\<lambda>b. hseq (case b of
        Inr a \<Rightarrow> HReply (Some (shout ''hello'' a)) (\<lambda>_. HReturn)
      | Inl e \<Rightarrow> HReply (Some (error_response RPCStatusServerError (Some e))) (\<lambda>_. HReturn))
      (reply_error_prog RPCStatusServerError ErrNoReply))))), sh = NewRequestContext []\<rparr>"
  by (simp add: call_start_def two_callers_def shout_server_def Register_def json_unary_handler_def NewServer_def
      default_options_def net_child_def json_child_def net_request_def json_own_request_def json_call_request_def
      job_prog_def json_bind_handler_def Let_def)

lemma two_responses: "own_response two_callers shout k = shout ''hello'' (if k = 0 then ''x'' else ''y'')"
  by (simp add: own_response_def two_callers_def)

lemma two_calls_run:
  "\<exists>s. net_run two_callers two_calls_schedule net_start = Some s
    \<and> nt_callers s 0 = Done (snd (net_json_Call two_callers 0 (JAnswered (m_Payload (two_answer 0)))))
    \<and> nt_callers s 1 = Done (snd (net_json_Call two_callers 1 (JAnswered (m_Payload (two_answer 1)))))"
proof -
  have topics: "m_Topic (two_answer k) = net_response_topic two_callers k" for k
    by (simp add: two_answer_def)
  show ?thesis
    using two_child_replies [of 0] two_child_replies [of 1]
    by (simp add: two_calls_schedule_def net_start_def two_requests remove_nth_def two_child_start
        two_child_binds two_responses NewRequestContext_def setResponse_def child_reply_def topics server_up_def)
qed



end
