(* ===== verification/Pb_Reply.thy ===== *)
theory Pb_Reply
  imports Pb_Client
begin

text \<open>
  The reply of a protobuf server in the two steps that other goroutines can come between:
  \<open>ProtobufServerCodec.Marshal\<close> first compresses the body, which may leave it a view of a pooled
  buffer, and later serialises the response, which reads the view; the server then publishes.  The
  server's goroutines share one compressor.
\<close>

section \<open>The two steps\<close>

text \<open>Up to the compressed body, when there is a response to serialise.\<close>

definition begin_reply ::
  "'p pb_env \<Rightarrow> request_data \<Rightarrow> ('p, 'o) pb_value response option \<Rightarrow> pb_world \<Rightarrow> pb_world \<times> result" where
  "begin_reply env r rsp w =
     (case Option.bind rsp (pb_response_for (pe_proto env) r) of
        None \<Rightarrow> (w, (None, None))
      | Some rs \<Rightarrow>
          (case compress_body (pe_streams env) (fst (w_picks w (w_calls w))) (snd (w_picks w (w_calls w)))
                  (p_Encoding (rs_Response rs)) (p_Body (rs_Response rs)) (w_manager w) of
             (m', v) \<Rightarrow> (w\<lparr>w_manager := m', w_calls := Suc (w_calls w)\<rparr>, v)))"

text \<open>From the compressed body to the published message; a response that is nil is dereferenced.\<close>

definition end_reply ::
  "'p pb_env \<Rightarrow> request_data \<Rightarrow> result \<Rightarrow> pb_world \<Rightarrow> ('p, 'o) pb_value response option \<Rightarrow>
   pb_world \<times> bool outcome" where
  "end_reply env r v w rsp =
     (case Option.bind rsp (pb_response_for (pe_proto env) r) of
        None \<Rightarrow> (w, Panic nil_deref)
      | Some rs \<Rightarrow>
          (case v of
             (s, Some e) \<Rightarrow> (w, Ret True)
           | (s, None) \<Rightarrow>
               (case server_encode (pe_proto env) (rs_Response rs) s (w_manager w) of
                  Inl e \<Rightarrow> (w, Ret True)
                | Inr data \<Rightarrow>
                    (w\<lparr>w_published := w_published w @
                        [\<lparr>m_Topic = rs_Topic rs, m_QoS = DefaultQoS, m_Retained = False, m_Payload = data\<rparr>]\<rparr>,
                     Ret True))))"

text \<open>Taken together without a break they are \<open>Reply\<close>.\<close>

lemma Reply_in_two_steps:
  "pb_Reply env r w rsp = (case begin_reply env r rsp w of (w', v) \<Rightarrow> end_reply env r v w' rsp)"
  by (auto simp: pb_Reply_def pb_reply_def begin_reply_def end_reply_def server_Marshal_def
      split: option.splits prod.splits sum.splits)

section \<open>What the second step reads\<close>

text \<open>The compressed body is there to be read, and its array is allocated.\<close>

definition reply_ready :: "'p pb_env \<Rightarrow> pb_response \<Rightarrow> result \<Rightarrow> pb_world \<Rightarrow> bool" where
  "reply_ready env rsp v w \<longleftrightarrow>
     read_result (w_manager w) v = body_value (pe_streams env) (p_Encoding rsp) (p_Body rsp)
   \<and> (\<forall>arr n. fst v = Some (View arr n) \<longrightarrow> arr < next_array (w_manager w))"

text \<open>The array of the buffer that a reply will write to.\<close>

definition takes_array ::
  "'p pb_env \<Rightarrow> request_data \<Rightarrow> ('p, 'o) pb_value response option \<Rightarrow> pb_world \<Rightarrow> nat option" where
  "takes_array env r rsp w =
     (case Option.bind rsp (pb_response_for (pe_proto env) r) of
        None \<Rightarrow> None
      | Some rs \<Rightarrow>
          if convertEncoding (p_Encoding (rs_Response rs)) = ContentEncodingPlain then None
          else b_arr (taken_buffer (snd (w_picks w (w_calls w))) (w_manager w)))"

lemma Compress_effect:
  assumes "pool_ok m" and "lawful_streams ext" and "Compress ext pw pb tp data m = (m', r)"
  shows "\<And>arr n. fst r = Some (View arr n) \<Longrightarrow> arr < next_array m'"
    and "next_array m \<le> next_array m'"
    and "\<And>arr. arr < next_array m \<Longrightarrow> tp = ContentEncodingPlain \<or> b_arr (taken_buffer pb m) \<noteq> Some arr \<Longrightarrow>
      arrays m' arr = arrays m arr"
proof -
  have "(\<forall>arr n. fst r = Some (View arr n) \<longrightarrow> arr < next_array m') \<and> next_array m \<le> next_array m'
    \<and> (\<forall>arr < next_array m. tp = ContentEncodingPlain \<or> b_arr (taken_buffer pb m) \<noteq> Some arr \<longrightarrow>
         arrays m' arr = arrays m arr)"
  proof (cases "data = None \<or> tp \<notin> {0, 1, 2}")
    case True
    with assms(3) show ?thesis
      by (auto simp: Compress_def encoding_defs split: option.splits if_splits)
  next
    case False
    then obtain d where d: "data = Some d" "tp \<in> {0, 1, 2}" by auto
    from algorithm_spec(2) [OF assms(1,2) d(2) assms(3) [unfolded d(1)]]
    obtain b where b: "touches_only (taken_buffer pb m, m) (b, m')" "buf_ok m' b"
      "fst r = None \<or> fst r = buf_Bytes b"
      by (auto simp: compress_effect_def)
    from b(2,3) have "\<forall>arr n. fst r = Some (View arr n) \<longrightarrow> arr < next_array m'"
      by (auto simp: buf_ok_def buf_Bytes_def split: option.splits)
    moreover have "tp \<noteq> ContentEncodingPlain" using d(2) by (auto simp: encoding_defs)
    ultimately show ?thesis using b(1) by (simp add: touches_only_def)
  qed
  then show "\<And>arr n. fst r = Some (View arr n) \<Longrightarrow> arr < next_array m'"
    "next_array m \<le> next_array m'"
    "\<And>arr. arr < next_array m \<Longrightarrow> tp = ContentEncodingPlain \<or> b_arr (taken_buffer pb m) \<noteq> Some arr \<Longrightarrow>
      arrays m' arr = arrays m arr"
    by blast+
qed

text \<open>The first step makes its body ready, and keeps another one ready unless it takes its array.\<close>

lemma begin_reply_ready:
  assumes "pool_ok (w_manager w)" and "lawful_streams (pe_streams env)"
    and "begin_reply env r rsp w = (w', v)"
  shows "pool_ok (w_manager w')" and "w_published w' = w_published w"
    and "Option.bind rsp (pb_response_for (pe_proto env) r) = Some rs \<Longrightarrow> reply_ready env (rs_Response rs) v w'"
    and "reply_ready env rsp' u w \<Longrightarrow>
      (\<And>arr n. fst u = Some (View arr n) \<Longrightarrow> takes_array env r rsp w \<noteq> Some arr) \<Longrightarrow> reply_ready env rsp' u w'"
proof -
  let ?bound = "Option.bind rsp (pb_response_for (pe_proto env) r)"
  have "pool_ok (w_manager w') \<and> w_published w' = w_published w
    \<and> (\<forall>rs. ?bound = Some rs \<longrightarrow> reply_ready env (rs_Response rs) v w')
    \<and> (\<forall>rsp' u. reply_ready env rsp' u w \<longrightarrow>
         (\<forall>arr n. fst u = Some (View arr n) \<longrightarrow> takes_array env r rsp w \<noteq> Some arr) \<longrightarrow> reply_ready env rsp' u w')"
  proof (cases ?bound)
    case None
    with assms(1,3) show ?thesis by (simp add: begin_reply_def)
  next
    case (Some rs)
    let ?enc = "p_Encoding (rs_Response rs)" and ?body = "p_Body (rs_Response rs)"
    let ?pw = "fst (w_picks w (w_calls w))" and ?pb = "snd (w_picks w (w_calls w))"
    obtain m' where run: "compress_body (pe_streams env) ?pw ?pb ?enc ?body (w_manager w) = (m', v)"
      and w': "w' = w\<lparr>w_manager := m', w_calls := Suc (w_calls w)\<rparr>"
      using assms(3) Some by (auto simp: begin_reply_def split: prod.splits)
    note spec = compress_body_spec [OF assms(1,2) run]
    have "(\<forall>arr n. fst v = Some (View arr n) \<longrightarrow> arr < next_array m') \<and> next_array (w_manager w) \<le> next_array m'
      \<and> (\<forall>arr < next_array (w_manager w). takes_array env r rsp w \<noteq> Some arr \<longrightarrow>
           arrays m' arr = arrays (w_manager w) arr)"
    proof (cases ?body)
      case None
      with run show ?thesis by (auto simp: compress_body_def)
    next
      case body: (Some a)
      with run have "Compress (pe_streams env) ?pw ?pb (convertEncoding ?enc) (Value a) (w_manager w) = (m', v)"
        by (simp add: compress_body_def)
      from Compress_effect [OF assms(1,2) this] Some show ?thesis by (simp add: takes_array_def)
    qed
    note effect = this
    have "reply_ready env rsp' u w'"
      if ready: "reply_ready env rsp' u w"
        and free: "\<forall>arr n. fst u = Some (View arr n) \<longrightarrow> takes_array env r rsp w \<noteq> Some arr" for rsp' u
    proof -
      have "read_slice m' s = read_slice (w_manager w) s" if "fst u = Some s" for s
        using that ready free effect by (cases s) (auto simp: reply_ready_def)
      then have "read_result m' u = read_result (w_manager w) u"
        by (cases "fst u") (simp_all add: read_result_def)
      moreover have "arr < next_array m'" if "fst u = Some (View arr n)" for arr n
        using that ready effect by (auto simp: reply_ready_def)
      ultimately show ?thesis using ready by (simp add: reply_ready_def w')
    qed
    with spec effect show ?thesis using Some by (auto simp: w' reply_ready_def)
  qed
  then show "pool_ok (w_manager w')" "w_published w' = w_published w"
    "?bound = Some rs \<Longrightarrow> reply_ready env (rs_Response rs) v w'"
    "reply_ready env rsp' u w \<Longrightarrow>
      (\<And>arr n. fst u = Some (View arr n) \<Longrightarrow> takes_array env r rsp w \<noteq> Some arr) \<Longrightarrow> reply_ready env rsp' u w'"
    by blast+
qed

text \<open>The second step publishes what the whole reply would have published.\<close>

lemma end_reply_ready:
  assumes "pool_ok (w_manager w)" and "lawful_streams (pe_streams env)"
    and "Option.bind rsp (pb_response_for (pe_proto env) r) = Some rs"
    and "reply_ready env (rs_Response rs) v w"
  shows "w_published (fst (end_reply env r v w rsp)) = w_published (fst (pb_reply env (Some rs) w))"
proof -
  obtain m' out where run: "server_Marshal (pe_streams env) (pe_proto env) (fst (w_picks w (w_calls w)))
      (snd (w_picks w (w_calls w))) (rs_Response rs) (w_manager w) = (m', out)" by (metis surj_pair)
  have "out = (case v of (s, Some e) \<Rightarrow> Inl e
      | (s, None) \<Rightarrow> server_encode (pe_proto env) (rs_Response rs) s (w_manager w))"
    using server_Marshal_value(2) [OF assms(1,2) run] assms(4) [unfolded reply_ready_def, THEN conjunct1, symmetric]
    by (cases v) (auto simp: read_result_def server_encode_def split: option.split)
  with run assms(3) show ?thesis
    by (auto simp: end_reply_def pb_reply_def split: option.splits prod.splits sum.splits)
qed

lemma end_reply_frame:
  "end_reply env r v w rsp = (w', out) \<Longrightarrow> w' = w\<lparr>w_published := w_published w'\<rparr>"
  by (auto simp: end_reply_def split: option.splits prod.splits sum.splits)

end
