(* ===== verification/Pb_Network.thy ===== *)
theory Pb_Network
  imports Pb_Reply Call_Replies
begin

text \<open>
  Any number of protobuf calls to one device at the same time, as \<open>Json_Network\<close> has them for JSON:
  callers, a broker that reorders, loses and repeats messages, and the server with its running calls.
  The running calls share the server's compressor, so that a reply is two steps of the machine, those
  of \<open>Pb_Reply\<close>, and the steps of other calls come between them.
\<close>

section \<open>The machine\<close>

record ('p, 'x) pb_net_call =
  bc_rid :: string
  bc_method :: string
  bc_args :: 'p
  bc_target :: go_type
  bc_opts :: "call_option list"
  bc_ctx :: 'x
  bc_pooled :: "'x rpc_codec option"
  bc_picks :: "nat option \<times> nat option \<times> nat option"

text \<open>What does not change: the environment, tracing, the server, the client and the device, and the calls.\<close>

record ('p, 'o, 'x, 'u) pb_net_par =
  bp_env :: "'p pb_env"
  bp_inject :: "'x \<Rightarrow> (string \<rightharpoonup> string) \<Rightarrow> (string \<rightharpoonup> string)"
  bp_extract :: "'x \<Rightarrow> (string \<rightharpoonup> string) \<Rightarrow> 'x"
  bp_incoming :: "(string \<rightharpoonup> string) \<Rightarrow> 'x"
  bp_background :: 'x
  bp_server :: "(pb_world, ('p, 'o) pb_value, 'x, 'u) server"
  bp_client :: pb_client
  bp_device :: string
  bp_call :: "nat \<Rightarrow> ('p, 'x) pb_net_call"

text \<open>
  A running call: its request and context, its goroutines, and for each of them the compressed body
  of a reply that it has begun.
\<close>

record ('p, 'o, 'x, 'u) pb_running =
  pr_ctx :: 'x
  pr_request :: request_data
  pr_state :: "(pb_world, ('p, 'o) pb_value, 'u) call_state"
  pr_begun :: "actor \<Rightarrow> result option"

record ('p, 'o, 'x, 'u) pb_net =
  bn_callers :: "nat \<Rightarrow> 'p call_result net_caller"
  bn_requests :: "message list"
  bn_serving :: "('p, 'o, 'x, 'u) pb_running list"
  bn_world :: pb_world
  bn_answers :: "message list"

definition pb_net_start :: "pb_world \<Rightarrow> ('p, 'o, 'x, 'u) pb_net" where
  "pb_net_start w =
     \<lparr>bn_callers = (\<lambda>k. NotCalled), bn_requests = [], bn_serving = [], bn_world = w, bn_answers = []\<rparr>"

definition pb_net_Call :: "('p, 'o, 'x, 'u) pb_net_par \<Rightarrow> nat \<Rightarrow> call_ending \<Rightarrow> message list \<times> 'p call_result" where
  "pb_net_Call par k ending =
     (let c = bp_call par k
      in snd (pb_Call (bp_env par) (bp_inject par) (bp_extract par) (bc_picks c) (bp_client par) (bc_ctx c)
           (bp_device par) (bc_rid c) (bc_method c) (bc_args c) (bc_target c) (bc_opts c) (bc_pooled c) ending))"

definition pb_net_topic :: "('p, 'o, 'x, 'u) pb_net_par \<Rightarrow> nat \<Rightarrow> string" where
  "pb_net_topic par k = pb_response_topic (bp_client par) (bp_device par) (bc_rid (bp_call par k))"

text \<open>Receiving, with the context and the request of the call that starts instead of its \<open>ChildContext\<close>.\<close>

definition pb_accept ::
  "'p pb_env \<Rightarrow> ((string \<rightharpoonup> string) \<Rightarrow> 'x) \<Rightarrow> 'x \<Rightarrow> message \<Rightarrow> pb_world \<Rightarrow> pb_world \<times> ('x \<times> request_data) option" where
  "pb_accept env extr background m w =
     (case pb_receive env extr background m w :: pb_world \<times> (pb_world, ('p, unit) pb_value, 'x) child option of
        (w', None) \<Rightarrow> (w', None)
      | (w', Some child) \<Rightarrow>
          (w', Some (case c_Ctx child of None \<Rightarrow> background | Some x \<Rightarrow> x,
             \<lparr>rd_Topic = m_Topic m,
              rd_Request = fst (snd (server_Unmarshal (pe_streams env) (pe_proto env) (fst (w_picks w (w_calls w)))
                (m_Payload m) (w_manager w)))\<rparr>)))"

lemma pb_receive_accept:
  "pb_receive env extr background m w =
     (case pb_accept env extr background m w of (w', y) \<Rightarrow> (w', map_option (\<lambda>(x, r). pb_child env x r) y))"
  by (auto simp: pb_accept_def pb_receive_def pb_child_def Let_def split: prod.splits option.splits)

definition running_child ::
  "'p pb_env \<Rightarrow> ('p, 'o, 'x, 'u) pb_running \<Rightarrow> actor \<Rightarrow> (pb_world, ('p, 'o) pb_value, 'x) child" where
  "running_child env run a =
     (pb_child env (pr_ctx run) (pr_request run))
       \<lparr>c_Reply := end_reply env (pr_request run) (case pr_begun run a of None \<Rightarrow> (None, None) | Some v \<Rightarrow> v)\<rparr>"

text \<open>
  A caller writes its request; the broker delivers a request, with what the limiter answers, loses it
  or keeps another copy of it; a goroutine of a running call begins a reply, or takes a step, which
  ends the reply it has begun; the broker delivers an answer to the caller that listens on its topic,
  loses it or keeps another copy; a caller's context ends.
\<close>

datatype pb_net_event =
    BCall nat
  | BReceive nat bool "gerror option"
  | BLoseRequest nat
  | BRepeatRequest nat
  | BBegin nat actor
  | BServe nat int actor
  | BDeliver nat nat
  | BLoseAnswer nat
  | BRepeatAnswer nat
  | BCtxDone nat gerror

definition pb_up :: "('p, 'o, 'x, 'u) pb_net \<Rightarrow> bool" where
  "pb_up s \<longleftrightarrow> (\<forall>run \<in> set (bn_serving s). \<not> crashed (pc (pr_state run)))"

definition start_running ::
  "('p, 'o, 'x, 'u) pb_net_par \<Rightarrow> bool \<Rightarrow> gerror option \<Rightarrow> pb_world \<Rightarrow> 'x \<times> request_data \<Rightarrow> ('p, 'o, 'x, 'u) pb_running" where
  "start_running par allow wait w y =
     (case y of (x, r) \<Rightarrow>
        \<lparr>pr_ctx = x, pr_request = r,
         pr_state = call_start (bp_server par) (pb_child (bp_env par) x r) allow wait w, pr_begun = (\<lambda>a. None)\<rparr>)"

definition at_world :: "pb_world \<Rightarrow> (pb_world, 'v, 'u) call_state \<Rightarrow> (pb_world, 'v, 'u) call_state" where
  "at_world w st = st\<lparr>sh := (sh st)\<lparr>world := w\<rparr>\<rparr>"

fun pb_net_step ::
  "('p, 'o, 'x, 'u) pb_net_par \<Rightarrow> pb_net_event \<Rightarrow> ('p, 'o, 'x, 'u) pb_net \<Rightarrow> ('p, 'o, 'x, 'u) pb_net option" where
  "pb_net_step par (BCall k) s =
     (if bn_callers s k = NotCalled then
        (case pb_net_Call par k (CtxDone ErrTimeout) of
           ([], r) \<Rightarrow> Some (s\<lparr>bn_callers := (bn_callers s)(k := Done r)\<rparr>)
         | (ms, r) \<Rightarrow> Some (s\<lparr>bn_callers := (bn_callers s)(k := Called), bn_requests := bn_requests s @ ms\<rparr>))
      else None)"
| "pb_net_step par (BReceive i allow wait) s =
     (if i < length (bn_requests s) \<and> pb_up s then
        (case pb_accept (bp_env par) (bp_incoming par) (bp_background par) (bn_requests s ! i) (bn_world s) of
           (w, y) \<Rightarrow>
             Some (s\<lparr>bn_requests := remove_nth i (bn_requests s), bn_world := w,
                     bn_serving := bn_serving s @ (case y of None \<Rightarrow> [] | Some xr \<Rightarrow> [start_running par allow wait w xr]),
                     bn_answers := bn_answers s @ drop (length (w_published (bn_world s))) (w_published w)\<rparr>))
      else None)"
| "pb_net_step par (BLoseRequest i) s = Some (s\<lparr>bn_requests := remove_nth i (bn_requests s)\<rparr>)"
| "pb_net_step par (BRepeatRequest i) s =
     (if i < length (bn_requests s) then Some (s\<lparr>bn_requests := bn_requests s @ [bn_requests s ! i]\<rparr>) else None)"
| "pb_net_step par (BBegin i a) s =
     (if i < length (bn_serving s) \<and> pb_up s \<and> pr_begun (bn_serving s ! i) a = None then
        (case sends a (pr_state (bn_serving s ! i)) of
           None \<Rightarrow> None
         | Some rsp \<Rightarrow>
             (case begin_reply (bp_env par) (pr_request (bn_serving s ! i)) rsp (bn_world s) of
                (w, v) \<Rightarrow>
                  Some (s\<lparr>bn_world := w,
                          bn_serving := (bn_serving s)[i := (bn_serving s ! i)
                            \<lparr>pr_begun := (pr_begun (bn_serving s ! i))(a := Some v)\<rparr>]\<rparr>)))
      else None)"
| "pb_net_step par (BServe i elapsed a) s =
     (if i < length (bn_serving s) \<and> pb_up s
       \<and> (sends a (pr_state (bn_serving s ! i)) = None \<or> pr_begun (bn_serving s ! i) a \<noteq> None) then
        (let run = bn_serving s ! i
         in case call_step (bp_server par) (running_child (bp_env par) run a) elapsed a (at_world (bn_world s) (pr_state run)) of
              None \<Rightarrow> None
            | Some st \<Rightarrow>
                Some (s\<lparr>bn_world := world (sh st),
                        bn_serving := (bn_serving s)[i := run\<lparr>pr_state := st, pr_begun := (pr_begun run)(a := None)\<rparr>],
                        bn_answers := bn_answers s @
                          drop (length (w_published (bn_world s))) (w_published (world (sh st)))\<rparr>))
      else None)"
| "pb_net_step par (BDeliver k i) s =
     (if bn_callers s k = Called \<and> i < length (bn_answers s) \<and> m_Topic (bn_answers s ! i) = pb_net_topic par k
      then Some (s\<lparr>bn_callers := (bn_callers s)(k := Done (snd (pb_net_Call par k (Answered (m_Payload (bn_answers s ! i)))))),
                   bn_answers := remove_nth i (bn_answers s)\<rparr>)
      else None)"
| "pb_net_step par (BLoseAnswer i) s = Some (s\<lparr>bn_answers := remove_nth i (bn_answers s)\<rparr>)"
| "pb_net_step par (BRepeatAnswer i) s =
     (if i < length (bn_answers s) then Some (s\<lparr>bn_answers := bn_answers s @ [bn_answers s ! i]\<rparr>) else None)"
| "pb_net_step par (BCtxDone k e) s =
     (if bn_callers s k = Called
      then Some (s\<lparr>bn_callers := (bn_callers s)(k := Done (snd (pb_net_Call par k (CtxDone e))))\<rparr>)
      else None)"

fun pb_net_run ::
  "('p, 'o, 'x, 'u) pb_net_par \<Rightarrow> pb_net_event list \<Rightarrow> ('p, 'o, 'x, 'u) pb_net \<Rightarrow> ('p, 'o, 'x, 'u) pb_net option" where
  "pb_net_run par [] s = Some s"
| "pb_net_run par (e # es) s = (case pb_net_step par e s of None \<Rightarrow> None | Some s' \<Rightarrow> pb_net_run par es s')"

text \<open>
  A run in which no reply takes a buffer that a reply under way still reads: whenever a reply is
  begun, the buffer that the pool hands out for it is not the one that holds the body of another.
\<close>

definition keeps_buffers :: "('p, 'o, 'x, 'u) pb_net_par \<Rightarrow> pb_net_event \<Rightarrow> ('p, 'o, 'x, 'u) pb_net \<Rightarrow> bool" where
  "keeps_buffers par ev s \<longleftrightarrow>
     (\<forall>i a rsp run b v arr n. ev = BBegin i a \<and> sends a (pr_state (bn_serving s ! i)) = Some rsp \<and>
        run \<in> set (bn_serving s) \<and> pr_begun run b = Some v \<and> fst v = Some (View arr n) \<longrightarrow>
        takes_array (bp_env par) (pr_request (bn_serving s ! i)) rsp (bn_world s) \<noteq> Some arr)"

fun keeping_run :: "('p, 'o, 'x, 'u) pb_net_par \<Rightarrow> pb_net_event list \<Rightarrow> ('p, 'o, 'x, 'u) pb_net \<Rightarrow> bool" where
  "keeping_run par [] s \<longleftrightarrow> True"
| "keeping_run par (e # es) s \<longleftrightarrow>
     keeps_buffers par e s \<and> (case pb_net_step par e s of None \<Rightarrow> True | Some s' \<Rightarrow> keeping_run par es s')"

section \<open>The invariant\<close>

text \<open>The request that the server reads for a call, up to its metadata and the bytes of its body.\<close>

definition call_data :: "('p, 'o, 'x, 'u) pb_net_par \<Rightarrow> nat \<Rightarrow> request_data" where
  "call_data par k =
     \<lparr>rd_Topic = pb_request_topic (bp_client par) (bp_device par) (bc_rid (bp_call par k)),
      rd_Request = empty_request\<lparr>q_Encoding := call_encoding (bc_opts (bp_call par k))\<rparr>\<rparr>"

definition serves_call :: "('p, 'o, 'x, 'u) pb_net_par \<Rightarrow> nat \<Rightarrow> request_data \<Rightarrow> bool" where
  "serves_call par k r \<longleftrightarrow>
     rd_Topic r = rd_Topic (call_data par k) \<and> q_Id (rd_Request r) = 0
   \<and> q_Method (rd_Request r) = bc_method (bp_call par k)
   \<and> q_Encoding (rd_Request r) = call_encoding (bc_opts (bp_call par k))
   \<and> pb_Bind (pe_proto (bp_env par)) r (GoType True (px_TypeOf (pe_proto (bp_env par)) (bc_args (bp_call par k))))
       = Ret (Inr (ProtoMessage (bc_args (bp_call par k)) :: ('p, 'o) pb_value))"

definition own_reply ::
  "('p, 'o, 'x, 'u) pb_net_par \<Rightarrow> (string \<Rightarrow> 'p \<Rightarrow> ('p, 'o) pb_value response) \<Rightarrow> nat \<Rightarrow> ('p, 'o) pb_value response" where
  "own_reply par f k = f (bc_method (bp_call par k)) (bc_args (bp_call par k))"

text \<open>What the answer to its own request makes of a call.\<close>

definition pb_own_outcome ::
  "('p, 'o, 'x, 'u) pb_net_par \<Rightarrow> (string \<Rightarrow> 'p \<Rightarrow> ('p, 'o) pb_value response) \<Rightarrow> nat \<Rightarrow> 'p call_result" where
  "pb_own_outcome par f k =
     (case pb_response_for (pe_proto (bp_env par)) (call_data par k) (own_reply par f k) of
        None \<Rightarrow> (Some ErrTimeout, None)
      | Some rs \<Rightarrow> answer_result (pe_proto (bp_env par)) (bc_target (bp_call par k)) (rs_Response rs))"

text \<open>
  What is assumed of the calls and of what they run on: the runtime and the streams are lawful,
  identifiers differ and topics are plain, each call's request serialises and its method's handler
  takes its arguments, and the client's type reads the response whether or not an empty body came as
  nil.
\<close>

definition pb_net_ok ::
  "('p, 'o, 'x, 'u) pb_net_par \<Rightarrow> (string \<Rightarrow> 'p \<Rightarrow> ('p, 'o) pb_value response) \<Rightarrow> bool" where
  "pb_net_ok par f \<longleftrightarrow>
     pb_env_ok (bp_env par) \<and> lawful_messages (pe_proto (bp_env par))
   \<and> inj (\<lambda>k. bc_rid (bp_call par k))
   \<and> word_free (topic_levels (pc_topicPrefix (bp_client par)) (bp_device par))
   \<and> (\<forall>k. let c = bp_call par k; px = pe_proto (bp_env par); codec = codec_of (bp_client par) (bc_pooled c) in
        plain_segment (bc_rid c) \<and> pool_ok (cc_manager codec)
      \<and> (\<exists>val m1 data. px_MarshalMsg px (bc_args c) = Inr val
          \<and> client_Marshal (pe_streams (bp_env par)) px (fst (bc_picks c)) (fst (snd (bc_picks c)))
              (call_request (bp_inject par) px (bc_ctx c) (call_encoding (bc_opts c)) (bc_method c) (bc_args c) val
                (q_Metadata (cc_request codec))) (cc_manager codec) = (m1, Inr data))
      \<and> (\<exists>timeout. handlerMap (bp_server par) (bc_method c)
          = Some (Some (unary_handler (px_TypeOf px (bc_args c)) (f (bc_method c)) timeout)))
      \<and> (\<exists>rs. pb_response_for px (call_data par k) (own_reply par f k) = Some rs
          \<and> norm_response (rs_Response rs) \<noteq> empty_response
          \<and> (\<forall>v a. p_Body (rs_Response rs) = Some a \<longrightarrow> norm_value v = norm_value (Value a) \<longrightarrow>
               px_UnmarshalMsg px (type_string (bc_target c)) v = px_UnmarshalMsg px (type_string (bc_target c)) (Value a))))"

definition pb_net_replies ::
  "('p, 'o, 'x, 'u) pb_net_par \<Rightarrow> (string \<Rightarrow> 'p \<Rightarrow> ('p, 'o) pb_value response) \<Rightarrow> nat \<Rightarrow> ('p, 'o) pb_value response option set" where
  "pb_net_replies par f k = {Some (own_reply par f k)} \<union> server_errors"

definition pb_net_messages ::
  "('p, 'o, 'x, 'u) pb_net_par \<Rightarrow> (string \<Rightarrow> 'p \<Rightarrow> ('p, 'o) pb_value response) \<Rightarrow> nat \<Rightarrow> message set" where
  "pb_net_messages par f k = {m. m_Topic m = pb_net_topic par k \<and> m_Payload m \<noteq> [] \<and> (\<exists>rsp rs got. rsp \<in> pb_net_replies par f k
     \<and> Option.bind rsp (pb_response_for (pe_proto (bp_env par)) (call_data par k)) = Some rs
     \<and> decodes_to (bp_env par) (snd (snd (bc_picks (bp_call par k)))) (m_Payload m) got
     \<and> norm_response got = norm_response (rs_Response rs))}"

definition pb_result_ok ::
  "('p, 'o, 'x, 'u) pb_net_par \<Rightarrow> (string \<Rightarrow> 'p \<Rightarrow> ('p, 'o) pb_value response) \<Rightarrow> nat \<Rightarrow> 'p call_result \<Rightarrow> bool" where
  "pb_result_ok par f k r \<longleftrightarrow> r = pb_own_outcome par f k \<or> (\<exists>e. r = (Some e, None))"

text \<open>A running call serves one of the calls, and the replies that it has begun are ready to be ended.\<close>

definition running_ok ::
  "('p, 'o, 'x, 'u) pb_net_par \<Rightarrow> (string \<Rightarrow> 'p \<Rightarrow> ('p, 'o) pb_value response) \<Rightarrow> pb_world \<Rightarrow> ('p, 'o, 'x, 'u) pb_running \<Rightarrow> nat \<Rightarrow> bool" where
  "running_ok par f w run k \<longleftrightarrow>
     serves_call par k (pr_request run)
   \<and> may_call (pb_child (bp_env par) (pr_ctx run) (pr_request run)) (pb_net_replies par f k) (pr_state run)
   \<and> (\<forall>a v rsp rs. pr_begun run a = Some v \<longrightarrow> sends a (pr_state run) = Some rsp \<longrightarrow>
        Option.bind rsp (pb_response_for (pe_proto (bp_env par)) (pr_request run)) = Some rs \<longrightarrow>
        reply_ready (bp_env par) (rs_Response rs) v w)"

lemma running_ok_ready:
  "running_ok par f w run k \<Longrightarrow> pr_begun run a = Some v \<Longrightarrow> sends a (pr_state run) = Some rsp \<Longrightarrow>
   Option.bind rsp (pb_response_for (pe_proto (bp_env par)) (pr_request run)) = Some rs \<Longrightarrow>
   reply_ready (bp_env par) (rs_Response rs) v w"
  unfolding running_ok_def by blast

definition pb_net_inv ::
  "('p, 'o, 'x, 'u) pb_net_par \<Rightarrow> (string \<Rightarrow> 'p \<Rightarrow> ('p, 'o) pb_value response) \<Rightarrow> ('p, 'o, 'x, 'u) pb_net \<Rightarrow> bool" where
  "pb_net_inv par f s \<longleftrightarrow>
     pool_ok (w_manager (bn_world s))
   \<and> (\<forall>m \<in> set (bn_requests s). \<exists>k e. pb_net_Call par k (CtxDone e) = ([m], (Some e, None)))
   \<and> (\<forall>run \<in> set (bn_serving s). \<exists>k. running_ok par f (bn_world s) run k)
   \<and> (\<forall>m \<in> set (bn_answers s). \<exists>k. m \<in> pb_net_messages par f k)
   \<and> (\<forall>k r. bn_callers s k = Done r \<longrightarrow> pb_result_ok par f k r)"

lemma pb_net_okD:
  assumes "pb_net_ok par f"
  shows "pb_env_ok (bp_env par)" "lawful_messages (pe_proto (bp_env par))" "inj (\<lambda>k. bc_rid (bp_call par k))"
    and "word_free (topic_levels (pc_topicPrefix (bp_client par)) (bp_device par))"
    and "plain_segment (bc_rid (bp_call par k))"
    and "pool_ok (cc_manager (codec_of (bp_client par) (bc_pooled (bp_call par k))))"
    and "lawful_streams (pe_streams (bp_env par))"
  using assms by (simp_all add: pb_net_ok_def pb_env_ok_def Let_def)

lemma pb_net_ok_sent:
  assumes "pb_net_ok par f"
  obtains val m1 data pw pb pick where "bc_picks (bp_call par k) = (pw, pb, pick)"
    "px_MarshalMsg (pe_proto (bp_env par)) (bc_args (bp_call par k)) = Inr val"
    "client_Marshal (pe_streams (bp_env par)) (pe_proto (bp_env par)) pw pb
       (call_request (bp_inject par) (pe_proto (bp_env par)) (bc_ctx (bp_call par k)) (call_encoding (bc_opts (bp_call par k)))
         (bc_method (bp_call par k)) (bc_args (bp_call par k)) val
         (q_Metadata (cc_request (codec_of (bp_client par) (bc_pooled (bp_call par k))))))
       (cc_manager (codec_of (bp_client par) (bc_pooled (bp_call par k)))) = (m1, Inr data)"
proof -
  obtain pw pb pick where picks: "bc_picks (bp_call par k) = (pw, pb, pick)" by (cases "bc_picks (bp_call par k)") auto
  from assms have "\<exists>val m1 data. px_MarshalMsg (pe_proto (bp_env par)) (bc_args (bp_call par k)) = Inr val
    \<and> client_Marshal (pe_streams (bp_env par)) (pe_proto (bp_env par)) pw pb
       (call_request (bp_inject par) (pe_proto (bp_env par)) (bc_ctx (bp_call par k)) (call_encoding (bc_opts (bp_call par k)))
         (bc_method (bp_call par k)) (bc_args (bp_call par k)) val
         (q_Metadata (cc_request (codec_of (bp_client par) (bc_pooled (bp_call par k))))))
       (cc_manager (codec_of (bp_client par) (bc_pooled (bp_call par k)))) = (m1, Inr data)"
    by (simp add: pb_net_ok_def Let_def picks [symmetric]) (metis fst_conv picks snd_conv)
  with picks show ?thesis by (blast intro: that)
qed

lemma pb_net_ok_handler:
  assumes "pb_net_ok par f"
  obtains timeout where "handlerMap (bp_server par) (bc_method (bp_call par k))
    = Some (Some (unary_handler (px_TypeOf (pe_proto (bp_env par)) (bc_args (bp_call par k))) (f (bc_method (bp_call par k))) timeout))"
proof -
  from assms have "\<exists>timeout. handlerMap (bp_server par) (bc_method (bp_call par k))
    = Some (Some (unary_handler (px_TypeOf (pe_proto (bp_env par)) (bc_args (bp_call par k))) (f (bc_method (bp_call par k))) timeout))"
    by (simp add: pb_net_ok_def Let_def)
  then show ?thesis by (blast intro: that)
qed

lemma pb_net_ok_reply:
  assumes "pb_net_ok par f"
  obtains rs where "pb_response_for (pe_proto (bp_env par)) (call_data par k) (own_reply par f k) = Some rs"
    "norm_response (rs_Response rs) \<noteq> empty_response"
    "\<forall>v a. p_Body (rs_Response rs) = Some a \<longrightarrow> norm_value v = norm_value (Value a) \<longrightarrow>
       px_UnmarshalMsg (pe_proto (bp_env par)) (type_string (bc_target (bp_call par k))) v
       = px_UnmarshalMsg (pe_proto (bp_env par)) (type_string (bc_target (bp_call par k))) (Value a)"
proof -
  from assms have "\<exists>rs. pb_response_for (pe_proto (bp_env par)) (call_data par k) (own_reply par f k) = Some rs
    \<and> norm_response (rs_Response rs) \<noteq> empty_response
    \<and> (\<forall>v a. p_Body (rs_Response rs) = Some a \<longrightarrow> norm_value v = norm_value (Value a) \<longrightarrow>
         px_UnmarshalMsg (pe_proto (bp_env par)) (type_string (bc_target (bp_call par k))) v
         = px_UnmarshalMsg (pe_proto (bp_env par)) (type_string (bc_target (bp_call par k))) (Value a))"
    by (simp add: pb_net_ok_def Let_def)
  then show ?thesis by (blast intro: that)
qed

section \<open>Requests\<close>

lemma server_Unmarshal_frame:
  "server_Unmarshal ext px pick bs m = (m', req, err) \<Longrightarrow> arrays m' = arrays m \<and> next_array m' = next_array m"
  by (auto simp: server_Unmarshal_def with_reader_frame split: prod.splits option.splits if_splits
      dest!: Decompress_computes(2))

lemma reply_ready_frame:
  "arrays (w_manager w') = arrays (w_manager w) \<Longrightarrow> next_array (w_manager w') = next_array (w_manager w) \<Longrightarrow>
   reply_ready env rsp v w' = reply_ready env rsp v w"
  using read_result_frame [of "w_manager w'" "w_manager w"] by (simp add: reply_ready_def)

lemma cancelled_call:
  assumes "px_MarshalMsg (pe_proto env) args = Inr val"
    and "client_Marshal (pe_streams env) (pe_proto env) pw pb
       (call_request inject (pe_proto env) ctx (call_encoding opts) meth args val
          (q_Metadata (cc_request (codec_of cl pooled)))) (cc_manager (codec_of cl pooled)) = (m1, Inr data)"
  shows "snd (pb_Call env inject extract (pw, pb, pick) cl ctx dev rid meth args target opts pooled (CtxDone e)) =
    ([fst (conn_Write (pb_request_topic cl dev rid) DefaultQoS data)], (Some e, None))"
proof -
  from pb_Call_written [OF assms, of "extract" pick dev rid target "CtxDone e"] obtain c1 where
    "pb_Call env inject extract (pw, pb, pick) cl ctx dev rid meth args target opts pooled (CtxDone e) =
       (c1, [fst (conn_Write (pb_request_topic cl dev rid) DefaultQoS data)], (Some e, None))"
    by (metis call_ending.simps(6))
  then show ?thesis by simp
qed

lemma request_accepted:
  assumes "pb_net_ok par f" and "pool_ok (w_manager w)"
  obtains m w' x r where "\<forall>e. pb_net_Call par k (CtxDone e) = ([m], (Some e, None))"
    "pb_accept (bp_env par) (bp_incoming par) (bp_background par) m w = (w', Some (x, r))"
    "serves_call par k r" "pool_ok (w_manager w')" "w_published w' = w_published w"
    "arrays (w_manager w') = arrays (w_manager w)" "next_array (w_manager w') = next_array (w_manager w)"
proof -
  let ?env = "bp_env par" and ?c = "bp_call par k"
  obtain val m1 data pw pb pick where picks: "bc_picks ?c = (pw, pb, pick)"
    and args: "px_MarshalMsg (pe_proto ?env) (bc_args ?c) = Inr val"
    and sent: "client_Marshal (pe_streams ?env) (pe_proto ?env) pw pb
       (call_request (bp_inject par) (pe_proto ?env) (bc_ctx ?c) (call_encoding (bc_opts ?c)) (bc_method ?c) (bc_args ?c) val
         (q_Metadata (cc_request (codec_of (bp_client par) (bc_pooled ?c)))))
       (cc_manager (codec_of (bp_client par) (bc_pooled ?c))) = (m1, Inr data)"
    by (rule pb_net_ok_sent [OF assms(1)])
  let ?m = "fst (conn_Write (pb_request_topic (bp_client par) (bp_device par) (bc_rid ?c)) DefaultQoS data)"
  have call: "pb_net_Call par k (CtxDone e) = ([?m], (Some e, None))" for e
    unfolding pb_net_Call_def Let_def picks by (rule cancelled_call [OF args sent])
  obtain m' req err where run: "server_Unmarshal (pe_streams ?env) (pe_proto ?env)
      (fst (w_picks w (w_calls w))) data (w_manager w) = (m', req, err)"
    by (metis surj_pair)
  from request_round_trip_lemma [OF pb_net_okD(6) [OF assms(1)] _ _ sent run] pb_net_okD(1) [OF assms(1)]
  have ok: "err = None" "norm_request req = norm_request (call_request (bp_inject par) (pe_proto ?env) (bc_ctx ?c)
      (call_encoding (bc_opts ?c)) (bc_method ?c) (bc_args ?c) val
      (q_Metadata (cc_request (codec_of (bp_client par) (bc_pooled ?c)))))"
    by (simp_all add: pb_env_ok_def)
  from received_request [OF ok(2)] obtain body where req: "q_Id req = 0" "q_Method req = bc_method ?c"
    "q_Encoding req = call_encoding (bc_opts ?c)"
    "q_Body req = Some body" "TypeUrl body = px_TypeOf (pe_proto ?env) (bc_args ?c)"
    "norm_value (Value body) = norm_value (Some val)" by blast
  let ?w' = "w\<lparr>w_manager := m', w_calls := Suc (w_calls w)\<rparr>"
  let ?r = "\<lparr>rd_Topic = m_Topic ?m, rd_Request = req\<rparr>"
  have accept: "pb_accept ?env (bp_incoming par) (bp_background par) ?m w =
      (?w', Some (NewMQTTContext_ctx (bp_incoming par) (bp_background par) (q_Metadata req), ?r))"
    using run ok(1) by (simp add: pb_accept_def pb_receive_def conn_Write_def Let_def pb_child_def)
  have serves: "serves_call par k ?r"
    using req lawful_parse [OF pb_net_okD(2) [OF assms(1)] args req(6)]
    by (simp add: serves_call_def call_data_def conn_Write_def pb_Bind_def)
  show ?thesis
    by (rule that [OF allI [OF call] accept serves])
      (simp_all add: server_Unmarshal_pool_ok [OF assms(2) run] server_Unmarshal_frame [OF run])
qed

text \<open>What a running call may reply is what its call may be answered.\<close>

lemma serves_call_reply:
  fixes par :: "('p, 'o, 'x, 'u) pb_net_par"
  assumes "serves_call par k r"
  shows "pb_response_for px r x = pb_response_for px (call_data par k) x"
    and "c_Method (pb_child env y r) = bc_method (bp_call par k)"
    and "c_Bind (pb_child (bp_env par) y r :: (pb_world, ('p, 'o) pb_value, 'x) child) (GoType True (px_TypeOf (pe_proto (bp_env par)) (bc_args (bp_call par k))))
      = Ret (Inr (ProtoMessage (bc_args (bp_call par k))))"
proof -
  have "r = \<lparr>rd_Topic = rd_Topic (call_data par k), rd_Request = rd_Request r\<rparr>"
    using assms by (cases r) (simp add: serves_call_def)
  moreover have "pb_response_for px \<lparr>rd_Topic = rd_Topic (call_data par k), rd_Request = rd_Request r\<rparr> x =
      pb_response_for px \<lparr>rd_Topic = rd_Topic (call_data par k), rd_Request = rd_Request (call_data par k)\<rparr> x"
    using assms by (intro pb_response_for_cong) (simp_all add: serves_call_def call_data_def empty_request_def)
  ultimately show "pb_response_for px r x = pb_response_for px (call_data par k) x"
    by (simp add: call_data_def)
qed (use assms in \<open>simp_all add: serves_call_def pb_child_def\<close>)

lemma started_running_ok:
  assumes "pb_net_ok par f" and "serves_call par k r"
  shows "running_ok par f w' (start_running par allow wait w (x, r)) k"
proof -
  let ?child = "pb_child (bp_env par) x r :: (pb_world, ('a, 'b) pb_value, 'c) child"
  obtain timeout where hdl: "handlerMap (bp_server par) (bc_method (bp_call par k))
    = Some (Some (unary_handler (px_TypeOf (pe_proto (bp_env par)) (bc_args (bp_call par k))) (f (bc_method (bp_call par k))) timeout))"
    by (rule pb_net_ok_handler [OF assms(1)])
  have "may_call ?child (pb_net_replies par f k) (call_start (bp_server par) ?child allow wait w)"
    unfolding pb_net_replies_def
  proof (rule may_call_start)
    fix h
    assume "handlerMap (bp_server par) (c_Method ?child) = Some (Some h)"
    with hdl have "h = unary_handler (px_TypeOf (pe_proto (bp_env par)) (bc_args (bp_call par k))) (f (bc_method (bp_call par k))) timeout"
      by (simp add: serves_call_reply(2) [OF assms(2)])
    then show "may_reply ?child ({Some (own_reply par f k)} \<union> server_errors) (h_Method h ?child)"
      by (simp add: serves_call_reply(3) [OF assms(2)] unary_handler_def own_reply_def)
  qed
  with assms(2) show ?thesis by (simp add: running_ok_def start_running_def)
qed

section \<open>Replies and answers\<close>

text \<open>Ending a reply that is ready publishes one of the messages of its call, or nothing.\<close>

lemma ended_reply:
  assumes ok: "pb_net_ok par f" and "pool_ok (w_manager w)" and "serves_call par k r"
    and rsp: "rsp \<in> pb_net_replies par f k"
    and ready: "\<And>rs. Option.bind rsp (pb_response_for (pe_proto (bp_env par)) r) = Some rs \<Longrightarrow>
      reply_ready (bp_env par) (rs_Response rs) v w"
  shows "\<exists>ms. set ms \<subseteq> pb_net_messages par f k
    \<and> fst (end_reply (bp_env par) r v w rsp) = w\<lparr>w_published := w_published w @ ms\<rparr>"
proof (cases "Option.bind rsp (pb_response_for (pe_proto (bp_env par)) r)")
  case None
  then show ?thesis by (intro exI [of _ "[]"]) (simp add: end_reply_def)
next
  case (Some rs)
  let ?px = "pe_proto (bp_env par)"
  let ?w' = "fst (end_reply (bp_env par) r v w rsp)"
  obtain wr out where reply: "pb_reply (bp_env par) (Some rs) w = (wr, out)" by (metis surj_pair)
  have pub: "w_published ?w' = w_published wr"
    using end_reply_ready [OF assms(2) pb_net_okD(7) [OF ok] Some ready [OF Some]] reply by simp
  have frame: "?w' = w\<lparr>w_published := w_published ?w'\<rparr>"
    using end_reply_frame [of "bp_env par" r v w rsp] by (metis prod.collapse)
  from pb_reply_publishes [OF reply] consider "w_published wr = w_published w"
    | msg where "w_published wr = w_published w @ [msg]" "m_Topic msg = rs_Topic rs"
    by fastforce
  then show ?thesis
  proof cases
    case 1
    with pub frame show ?thesis by (intro exI [of _ "[]"]) simp
  next
    case (2 msg)
    obtain x where x: "rsp = Some x" "pb_response_for ?px r x = Some rs" using Some by (cases rsp) auto
    then have rs: "pb_response_for ?px (call_data par k) x = Some rs"
      by (simp add: serves_call_reply(1) [OF assms(3)])
    have "norm_response (rs_Response rs) \<noteq> empty_response"
    proof (cases "x = own_reply par f k")
      case True
      obtain rs' where "pb_response_for ?px (call_data par k) (own_reply par f k) = Some rs'"
        "norm_response (rs_Response rs') \<noteq> empty_response"
        by (rule pb_net_ok_reply [OF ok, where k = k])
      with True rs show ?thesis by simp
    next
      case False
      with rsp x(1) obtain status e where "x = error_response status (Some e)" "error_text e \<noteq> []"
        by (auto simp: pb_net_replies_def server_errors_def)
      with rs show ?thesis
        by (auto simp: pb_response_for_def error_response_def MakeErrResponse_def Let_def
            RequestData_GetResponse_def norm_response_def empty_response_def)
    qed
    from reply_decodes [OF assms(2) pb_net_okD(1) [OF ok] reply 2(1) this, of "snd (snd (bc_picks (bp_call par k)))"]
    obtain got where got: "decodes_to (bp_env par) (snd (snd (bc_picks (bp_call par k)))) (m_Payload msg) got"
      "m_Payload msg \<noteq> []" "norm_response got = norm_response (rs_Response rs)"
      by blast
    have "rs_Topic rs = GetReplyTopic (call_data par k)" by (rule response_topic(4) [OF rs])
    also have "\<dots> = pb_net_topic par k"
      using pb_reply_topic [OF pb_net_okD(5) [OF ok]] pb_net_okD(4) [OF ok]
      by (simp add: GetReplyTopic_def call_data_def pb_net_topic_def)
    finally have "msg \<in> pb_net_messages par f k"
      unfolding pb_net_messages_def using 2(2) got rsp x(1) rs by (auto intro!: exI [of _ rsp] exI [of _ rs])
    with 2(1) pub frame show ?thesis by (intro exI [of _ "[msg]"]) simp
  qed
qed

lemma pb_net_topic_inj:
  assumes "pb_net_ok par f" and "pb_net_topic par j = pb_net_topic par k"
  shows "j = k"
proof -
  have free: "CHR ''/'' \<notin> set (bc_rid (bp_call par i))" for i
    using pb_net_okD(5) [OF assms(1), of i] by (simp add: plain_segment_def)
  have "topic_path (pc_topicPrefix (bp_client par)) (bp_device par) [response_word, bc_rid (bp_call par j)]
      = topic_path (pc_topicPrefix (bp_client par)) (bp_device par) [response_word, bc_rid (bp_call par k)]"
    using assms(2) by (simp add: pb_net_topic_def pb_topics pb_net_okD(5) [OF assms(1)])
  then have "bc_rid (bp_call par j) = bc_rid (bp_call par k)"
    by (subst (asm) topic_path_inject) (use free in \<open>auto simp: word_defs\<close>)
  with pb_net_okD(3) [OF assms(1)] show ?thesis by (auto dest: injD)
qed

text \<open>What an answer makes of a call is what the response does that it was made of.\<close>

lemma answer_read:
  assumes ok: "pb_net_ok par f" and "decodes_to (bp_env par) (snd (snd (bc_picks (bp_call par k)))) data got"
    and "data \<noteq> []"
  shows "snd (pb_net_Call par k (Answered data)) = answer_result (pe_proto (bp_env par)) (bc_target (bp_call par k)) got"
proof -
  let ?env = "bp_env par" and ?c = "bp_call par k"
  obtain val m1 out pw pb pick where picks: "bc_picks ?c = (pw, pb, pick)"
    and args: "px_MarshalMsg (pe_proto ?env) (bc_args ?c) = Inr val"
    and sent: "client_Marshal (pe_streams ?env) (pe_proto ?env) pw pb
       (call_request (bp_inject par) (pe_proto ?env) (bc_ctx ?c) (call_encoding (bc_opts ?c)) (bc_method ?c) (bc_args ?c) val
         (q_Metadata (cc_request (codec_of (bp_client par) (bc_pooled ?c)))))
       (cc_manager (codec_of (bp_client par) (bc_pooled ?c))) = (m1, Inr out)"
    by (rule pb_net_ok_sent [OF ok])
  from assms(2) have "decodes_to ?env pick data got" by (simp add: picks)
  then show ?thesis
    unfolding pb_net_Call_def Let_def picks by (simp add: answered_call [OF args sent _ assms(3)])
qed

lemma own_answer_outcome:
  assumes ok: "pb_net_ok par f"
    and rs: "pb_response_for (pe_proto (bp_env par)) (call_data par k) (own_reply par f k) = Some rs"
    and got: "decodes_to (bp_env par) (snd (snd (bc_picks (bp_call par k)))) data got" "data \<noteq> []"
      "norm_response got = norm_response (rs_Response rs)"
  shows "snd (pb_net_Call par k (Answered data)) = pb_own_outcome par f k"
proof -
  let ?px = "pe_proto (bp_env par)" and ?target = "bc_target (bp_call par k)"
  obtain rs' where own: "pb_response_for ?px (call_data par k) (own_reply par f k) = Some rs'"
    "norm_response (rs_Response rs') \<noteq> empty_response"
    "\<forall>v a. p_Body (rs_Response rs') = Some a \<longrightarrow> norm_value v = norm_value (Value a) \<longrightarrow>
       px_UnmarshalMsg ?px (type_string ?target) v = px_UnmarshalMsg ?px (type_string ?target) (Value a)"
    by (rule pb_net_ok_reply [OF ok, where k = k])
  from own(1) rs have same: "rs' = rs" by simp
  have "answer_result ?px ?target got = answer_result ?px ?target (rs_Response rs)"
    by (rule answer_result_norm [OF got(3)]) (use own(3) same in blast)
  then show ?thesis
    by (simp add: answer_read [OF ok got(1,2)] pb_own_outcome_def rs)
qed

text \<open>An answer on the topic of a call is an answer to that call.\<close>

lemma pb_delivered_ok:
  assumes ok: "pb_net_ok par f" and "m \<in> pb_net_messages par f j" and "m_Topic m = pb_net_topic par k"
  shows "pb_result_ok par f k (snd (pb_net_Call par k (Answered (m_Payload m))))"
proof -
  let ?env = "bp_env par" and ?c = "bp_call par k"
  have "j = k" using assms(2,3) pb_net_topic_inj [OF ok] by (auto simp: pb_net_messages_def)
  with assms(2) obtain x rs got where x: "Some x \<in> pb_net_replies par f k"
    and rs: "pb_response_for (pe_proto ?env) (call_data par k) x = Some rs"
    and got: "m_Payload m \<noteq> []" "decodes_to ?env (snd (snd (bc_picks ?c))) (m_Payload m) got"
      "norm_response got = norm_response (rs_Response rs)"
    by (auto simp: pb_net_messages_def bind_eq_Some_conv)
  note result = answer_read [OF ok got(2,1)]
  show ?thesis
  proof (cases "x = own_reply par f k")
    case True
    with own_answer_outcome [OF ok _ got(2,1,3)] rs show ?thesis by (simp add: pb_result_ok_def)
  next
    case False
    with x obtain status e where "x = error_response status (Some e)" "error_text e \<noteq> []"
      by (auto simp: pb_net_replies_def server_errors_def)
    with rs have "p_ErrorMessage (rs_Response rs) \<noteq> []"
      by (auto simp: pb_response_for_def error_response_def MakeErrResponse_def Let_def)
    with norm_response_fields [OF got(3)] result show ?thesis
      by (auto simp: pb_result_ok_def answer_result_def)
  qed
qed

section \<open>The steps keep the invariant\<close>

text \<open>Calls without compression take no buffers.\<close>

definition all_plain :: "('p, 'o, 'x, 'u) pb_net_par \<Rightarrow> bool" where
  "all_plain par \<longleftrightarrow> (\<forall>k. convertEncoding (call_encoding (bc_opts (bp_call par k))) = ContentEncodingPlain)"

lemma response_encoding:
  "pb_response_for px r x = Some rs \<Longrightarrow> p_Encoding (rs_Response rs) = q_Encoding (rd_Request r)"
  by (auto simp: pb_response_for_def MakeErrResponse_def MakeOKResponse_def RequestData_GetResponse_def Let_def
      split: option.splits pb_value.splits sum.splits)

lemma plain_takes_nothing:
  "all_plain par \<Longrightarrow> serves_call par k r \<Longrightarrow> takes_array (bp_env par) r rsp w = None"
  by (auto simp: takes_array_def all_plain_def serves_call_def bind_eq_Some_conv dest!: response_encoding
      split: option.split)

lemma running_ok_frame:
  "arrays (w_manager w') = arrays (w_manager w) \<Longrightarrow> next_array (w_manager w') = next_array (w_manager w) \<Longrightarrow>
   running_ok par f w' run k = running_ok par f w run k"
  by (simp add: running_ok_def reply_ready_frame [of w' w] del: split_paired_All)

lemma inv_BReceive:
  assumes ok: "pb_net_ok par f" and inv: "pb_net_inv par f s"
    and step: "pb_net_step par (BReceive i allow wait) s = Some s'"
  shows "pb_net_inv par f s'"
proof -
  from step have i: "i < length (bn_requests s)" by (simp split: if_splits)
  then have "bn_requests s ! i \<in> set (bn_requests s)" by simp
  with inv obtain k e where sent: "pb_net_Call par k (CtxDone e) = ([bn_requests s ! i], (Some e, None))"
    unfolding pb_net_inv_def by blast
  have pool: "pool_ok (w_manager (bn_world s))" using inv by (simp add: pb_net_inv_def)
  obtain m w' x r where m: "\<forall>e. pb_net_Call par k (CtxDone e) = ([m], (Some e, None))"
    and accept: "pb_accept (bp_env par) (bp_incoming par) (bp_background par) m (bn_world s) = (w', Some (x, r))"
    and r: "serves_call par k r" and w': "pool_ok (w_manager w')" "w_published w' = w_published (bn_world s)"
      "arrays (w_manager w') = arrays (w_manager (bn_world s))"
      "next_array (w_manager w') = next_array (w_manager (bn_world s))"
    by (rule request_accepted [OF ok pool, where k = k])
  have "m = bn_requests s ! i" using m sent by simp
  with step accept w'(2) have s': "s' = s\<lparr>bn_requests := remove_nth i (bn_requests s), bn_world := w',
      bn_serving := bn_serving s @ [start_running par allow wait w' (x, r)]\<rparr>"
    by (simp split: if_splits)
  have "\<exists>k. running_ok par f w' run k" if "run \<in> set (bn_serving s')" for run
    using that started_running_ok [OF ok r, of w' allow wait w' x] inv running_ok_frame [OF w'(3,4), of par f run]
    by (auto simp: s' pb_net_inv_def simp del: split_paired_All)
  with inv w'(1) show ?thesis
    using set_remove_nth [of i "bn_requests s"] by (auto simp: s' pb_net_inv_def)
qed

lemma inv_BBegin:
  assumes ok: "pb_net_ok par f" and inv: "pb_net_inv par f s"
    and step: "pb_net_step par (BBegin i a) s = Some s'"
    and keeps: "keeps_buffers par (BBegin i a) s \<or> all_plain par"
  shows "pb_net_inv par f s'"
proof -
  let ?run = "bn_serving s ! i" and ?w = "bn_world s"
  from step obtain rsp where i: "i < length (bn_serving s)" "pr_begun ?run a = None"
    and sends: "sends a (pr_state ?run) = Some rsp"
    by (auto split: if_splits option.splits)
  obtain w' v where begun: "begin_reply (bp_env par) (pr_request ?run) rsp ?w = (w', v)" by (metis surj_pair)
  let ?run' = "?run\<lparr>pr_begun := (pr_begun ?run)(a := Some v)\<rparr>"
  from step i sends begun have s': "s' = s\<lparr>bn_world := w', bn_serving := (bn_serving s)[i := ?run']\<rparr>"
    by (simp split: if_splits)
  have pool: "pool_ok (w_manager ?w)" using inv by (simp add: pb_net_inv_def)
  note ready = begin_reply_ready [OF pool pb_net_okD(7) [OF ok] begun]
  have here: "?run \<in> set (bn_serving s)" using i(1) by simp
  have other: "running_ok par f w' run k" if run: "run \<in> set (bn_serving s)" "running_ok par f ?w run k" for run k
    unfolding running_ok_def
  proof (intro conjI allI impI)
    fix b u rsp' rs
    assume u: "pr_begun run b = Some u" "sends b (pr_state run) = Some rsp'"
      "Option.bind rsp' (pb_response_for (pe_proto (bp_env par)) (pr_request run)) = Some rs"
    then have old: "reply_ready (bp_env par) (rs_Response rs) u ?w"
      by (rule running_ok_ready [OF run(2)])
    have "takes_array (bp_env par) (pr_request ?run) rsp ?w \<noteq> Some arr" if "fst u = Some (View arr n)" for arr n
    proof -
      from keeps show ?thesis
      proof
        assume "keeps_buffers par (BBegin i a) s"
        with sends run(1) u(1) that show ?thesis unfolding keeps_buffers_def by blast
      next
        assume plain: "all_plain par"
        from here inv obtain k' where "serves_call par k' (pr_request ?run)"
          unfolding pb_net_inv_def running_ok_def by blast
        then show ?thesis by (simp add: plain_takes_nothing [OF plain])
      qed
    qed
    with old show "reply_ready (bp_env par) (rs_Response rs) u w'" by (rule ready(4))
  qed (use run(2) in \<open>simp_all add: running_ok_def\<close>)
  have new: "running_ok par f w' ?run' k" if "running_ok par f ?w ?run k" for k
    using other [OF here that] ready(3) sends unfolding running_ok_def
    by (auto simp: pb_child_def)
  have "\<exists>k. running_ok par f w' run k" if "run \<in> set (bn_serving s')" for run
  proof -
    have "run \<in> insert ?run' (set (bn_serving s))"
      using that set_update_subset_insert [of "bn_serving s" i ?run'] by (auto simp: s')
    then show ?thesis
      using inv here other new unfolding pb_net_inv_def by blast
  qed
  with inv ready(1) show ?thesis by (simp add: s' pb_net_inv_def)
qed

lemma at_world_simps [simp]:
  "pc (at_world w st) = pc st" "wk (at_world w st) = wk st" "world (sh (at_world w st)) = w"
  by (simp_all add: at_world_def)

lemma at_world_same [simp]: "sends a (at_world w st) = sends a st" "may_call child R (at_world w st) = may_call child R st"
  by (cases a) (simp_all add: may_call_def)

lemma running_child_Reply:
  "c_Reply (running_child env run a) = end_reply env (pr_request run) (case pr_begun run a of None \<Rightarrow> (None, None) | Some v \<Rightarrow> v)"
  "c_Bind (running_child env run a) = c_Bind (pb_child env (pr_ctx run) (pr_request run))"
  by (simp_all add: running_child_def)

text \<open>A step of a running call keeps what the call may still reply, and publishes only its own messages.\<close>

lemma served_step:
  assumes ok: "pb_net_ok par f" and pool: "pool_ok (w_manager w)" and k: "running_ok par f w run k"
    and begun: "sends a (pr_state run) = None \<or> pr_begun run a \<noteq> None"
    and st: "call_step (bp_server par) (running_child (bp_env par) run a) elapsed a (at_world w (pr_state run)) = Some st"
    and texts: "\<And>e. a = GiveUp e \<Longrightarrow> error_text e \<noteq> []"
  obtains ms where "may_call (pb_child (bp_env par) (pr_ctx run) (pr_request run)) (pb_net_replies par f k) st"
    and "set ms \<subseteq> pb_net_messages par f k" and "world (sh st) = w\<lparr>w_published := w_published w @ ms\<rparr>"
proof -
  let ?run = run and ?w = w and ?env = "bp_env par"
  let ?child = "running_child ?env ?run a" and ?st = "at_world ?w (pr_state ?run)"
  have serves: "serves_call par k (pr_request ?run)" using k by (simp add: running_ok_def)
  note move = call_step_move [OF st]
  define A where "A = (\<lambda>(w :: pb_world) w'. \<exists>ms. set ms \<subseteq> pb_net_messages par f k \<and> w' = w\<lparr>w_published := w_published w @ ms\<rparr>)"
  have "may_call ?child ({Some (own_reply par f k)} \<union> server_errors) st \<and> A (world (sh ?st)) (world (sh st))"
  proof (rule may_call_move [OF move texts])
    have "may_call ?child (pb_net_replies par f k) ?st"
      using k by (simp add: running_ok_def may_call_cong [OF running_child_Reply(2)])
    then show "may_call ?child ({Some (own_reply par f k)} \<union> server_errors) ?st"
      by (simp only: pb_net_replies_def)
    show "A (world (sh ?st)) (world (sh ?st))" by (auto simp: A_def intro: exI [of _ "[]"])
    fix rsp
    assume sent: "sends a ?st = Some rsp" "rsp \<in> {Some (own_reply par f k)} \<union> server_errors"
    with begun obtain v where v: "pr_begun ?run a = Some v" by auto
    have "reply_ready ?env (rs_Response rs) v ?w"
      if "Option.bind rsp (pb_response_for (pe_proto ?env) (pr_request ?run)) = Some rs" for rs
      by (rule running_ok_ready [OF k v _ that]) (use sent(1) in simp)
    from ended_reply [OF ok pool serves _ this] sent(2) v
    show "A (world (sh ?st)) (fst (c_Reply ?child (world (sh ?st)) rsp))"
      by (simp add: A_def running_child_Reply(1) pb_net_replies_def)
  qed simp_all
  then have may: "may_call (pb_child ?env (pr_ctx ?run) (pr_request ?run)) (pb_net_replies par f k) st"
    and A: "A ?w (world (sh st))"
    by (simp_all add: pb_net_replies_def may_call_cong [OF running_child_Reply(2)])
  from A may that show ?thesis by (auto simp: A_def)
qed

lemma inv_BServe:
  assumes ok: "pb_net_ok par f" and inv: "pb_net_inv par f s"
    and step: "pb_net_step par (BServe i elapsed a) s = Some s'"
    and texts: "\<And>e. a = GiveUp e \<Longrightarrow> error_text e \<noteq> []"
  shows "pb_net_inv par f s'"
proof -
  let ?run = "bn_serving s ! i" and ?w = "bn_world s" and ?env = "bp_env par"
  let ?child = "running_child ?env ?run a" and ?st = "at_world ?w (pr_state ?run)"
  from step have i: "i < length (bn_serving s)"
    and begun: "sends a (pr_state ?run) = None \<or> pr_begun ?run a \<noteq> None"
    by (simp_all split: if_splits)
  from step i obtain st where st: "call_step (bp_server par) ?child elapsed a ?st = Some st"
    and s': "s' = s\<lparr>bn_world := world (sh st),
        bn_serving := (bn_serving s)[i := ?run\<lparr>pr_state := st, pr_begun := (pr_begun ?run)(a := None)\<rparr>],
        bn_answers := bn_answers s @ drop (length (w_published ?w)) (w_published (world (sh st)))\<rparr>"
    by (auto simp: Let_def split: if_splits option.splits)
  have here: "?run \<in> set (bn_serving s)" using i by simp
  with inv obtain k where k: "running_ok par f ?w ?run k" unfolding pb_net_inv_def by blast
  have serves: "serves_call par k (pr_request ?run)" using k by (simp add: running_ok_def)
  have pool: "pool_ok (w_manager ?w)" using inv by (simp add: pb_net_inv_def)
  note move = call_step_move [OF st]
  obtain ms where may: "may_call (pb_child ?env (pr_ctx ?run) (pr_request ?run)) (pb_net_replies par f k) st"
    and ms: "set ms \<subseteq> pb_net_messages par f k" "world (sh st) = ?w\<lparr>w_published := w_published ?w @ ms\<rparr>"
    by (rule served_step [OF ok pool k begun st texts])
  let ?run' = "?run\<lparr>pr_state := st, pr_begun := (pr_begun ?run)(a := None)\<rparr>"
  have frame: "running_ok par f (world (sh st)) run j = running_ok par f ?w run j" for run j
    by (rule running_ok_frame) (simp_all add: ms(2))
  have new: "running_ok par f ?w ?run' k"
    unfolding running_ok_def
  proof (intro conjI allI impI)
    fix b v rsp rs
    assume b: "pr_begun ?run' b = Some v" "sends b (pr_state ?run') = Some rsp"
      "Option.bind rsp (pb_response_for (pe_proto ?env) (pr_request ?run')) = Some rs"
    then have "b \<noteq> a" by auto
    with sends_other [OF move, of b rsp] b have "pr_begun ?run b = Some v" "sends b (pr_state ?run) = Some rsp"
      by auto
    then show "reply_ready ?env (rs_Response rs) v ?w"
      by (rule running_ok_ready [OF k]) (use b(3) in simp)
  qed (use serves may in simp_all)
  have "\<exists>k. running_ok par f (world (sh st)) run k" if "run \<in> set (bn_serving s')" for run
  proof -
    have "run \<in> insert ?run' (set (bn_serving s))"
      using that set_update_subset_insert [of "bn_serving s" i ?run'] by (auto simp: s')
    then show ?thesis
      using inv new unfolding pb_net_inv_def frame by blast
  qed
  with inv ms show ?thesis by (auto simp: s' pb_net_inv_def simp del: split_paired_All)
qed

lemma inv_BDeliver:
  assumes ok: "pb_net_ok par f" and inv: "pb_net_inv par f s"
    and step: "pb_net_step par (BDeliver k i) s = Some s'"
  shows "pb_net_inv par f s'"
proof -
  from step have i: "i < length (bn_answers s)" "m_Topic (bn_answers s ! i) = pb_net_topic par k"
    and s': "s' = s\<lparr>bn_callers := (bn_callers s)(k := Done (snd (pb_net_Call par k (Answered (m_Payload (bn_answers s ! i)))))),
                   bn_answers := remove_nth i (bn_answers s)\<rparr>"
    by (simp_all split: if_splits)
  from i(1) have "bn_answers s ! i \<in> set (bn_answers s)" by simp
  with inv obtain j where "bn_answers s ! i \<in> pb_net_messages par f j"
    unfolding pb_net_inv_def by blast
  from pb_delivered_ok [OF ok this i(2)] inv show ?thesis
    using set_remove_nth [of i "bn_answers s"] unfolding s' pb_net_inv_def by auto
qed

lemma pb_net_inv_step:
  assumes ok: "pb_net_ok par f" and inv: "pb_net_inv par f s" and step: "pb_net_step par ev s = Some s'"
    and texts: "\<And>i t e. ev = BServe i t (GiveUp e) \<Longrightarrow> error_text e \<noteq> []"
    and keeps: "keeps_buffers par ev s \<or> all_plain par"
  shows "pb_net_inv par f s'"
proof (cases ev)
  case (BCall k)
  have pool: "pool_ok (w_manager (bn_world s))" using inv by (simp add: pb_net_inv_def)
  obtain m w' x r where m: "\<forall>e. pb_net_Call par k (CtxDone e) = ([m], (Some e, None))"
    by (rule request_accepted [OF ok pool, where k = k])
  with BCall step have "s' = s\<lparr>bn_callers := (bn_callers s)(k := Called), bn_requests := bn_requests s @ [m]\<rparr>"
    by (simp split: if_splits)
  with inv m show ?thesis by (auto simp: pb_net_inv_def split: if_splits)
next
  case (BCtxDone k e)
  have pool: "pool_ok (w_manager (bn_world s))" using inv by (simp add: pb_net_inv_def)
  obtain m w' x r where m: "\<forall>e. pb_net_Call par k (CtxDone e) = ([m], (Some e, None))"
    by (rule request_accepted [OF ok pool, where k = k])
  with BCtxDone step have "s' = s\<lparr>bn_callers := (bn_callers s)(k := Done (Some e, None))\<rparr>"
    by (simp split: if_splits)
  moreover have "pb_result_ok par f k (Some e, None)" by (simp add: pb_result_ok_def)
  ultimately show ?thesis using inv by (simp add: pb_net_inv_def del: split_paired_All)
next
  case (BReceive i allow wait)
  with inv_BReceive [OF ok inv] step show ?thesis by blast
next
  case (BBegin i a)
  with inv_BBegin [OF ok inv] step keeps show ?thesis by blast
next
  case (BServe i elapsed a)
  with inv_BServe [OF ok inv] step texts show ?thesis by blast
next
  case (BDeliver k i)
  with inv_BDeliver [OF ok inv] step show ?thesis by blast
next
  case (BLoseRequest i)
  with step inv show ?thesis
    using set_remove_nth [of i "bn_requests s"] by (auto simp: pb_net_inv_def)
next
  case (BLoseAnswer i)
  with step inv show ?thesis
    using set_remove_nth [of i "bn_answers s"] by (auto simp: pb_net_inv_def)
next
  case (BRepeatRequest i)
  with step have "bn_requests s ! i \<in> set (bn_requests s)" "s' = s\<lparr>bn_requests := bn_requests s @ [bn_requests s ! i]\<rparr>"
    by (simp_all split: if_splits)
  with inv show ?thesis by (simp add: pb_net_inv_def)
next
  case (BRepeatAnswer i)
  with step have "bn_answers s ! i \<in> set (bn_answers s)" "s' = s\<lparr>bn_answers := bn_answers s @ [bn_answers s ! i]\<rparr>"
    by (simp_all split: if_splits)
  with inv show ?thesis by (simp add: pb_net_inv_def)
qed

lemma pb_net_inv_run:
  assumes "pb_net_ok par f" and "pb_net_run par es s = Some s'" and "pb_net_inv par f s"
    and "\<And>i t e. BServe i t (GiveUp e) \<in> set es \<Longrightarrow> error_text e \<noteq> []"
    and "keeping_run par es s \<or> all_plain par"
  shows "pb_net_inv par f s'"
  using assms(2-)
proof (induction es arbitrary: s)
  case (Cons ev es)
  then obtain s1 where s1: "pb_net_step par ev s = Some s1" "pb_net_run par es s1 = Some s'"
    by (auto split: option.splits)
  have "pb_net_inv par f s1"
    by (rule pb_net_inv_step [OF assms(1) Cons.prems(2) s1(1)]) (use Cons.prems(3,4) in auto)
  then show ?case
    by (rule Cons.IH [OF s1(2)]) (use Cons.prems(3,4) s1(1) in auto)
qed simp


section \<open>Two calls that ask for compression\<close>

text \<open>
  Two clients call an echo with messages of the same length.  The server's pool hands out a new
  buffer, or the one that is in the pool, for the reply that begins second.
\<close>

definition pair_bytes :: "nat \<Rightarrow> bytes" where
  "pair_bytes k = (if k = 0 then [5, 6] else [7, 8])"

definition pair_message :: "nat \<Rightarrow> string \<times> bytes" where
  "pair_message k = (''*test.Hello'', pair_bytes k)"

definition pair_rid :: "nat \<Rightarrow> string" where
  "pair_rid k = replicate (Suc k) (CHR ''1'')"

definition pair_wire :: "nat \<Rightarrow> request" where
  "pair_wire k = \<lparr>q_Id = 0, q_Method = ''hello'', q_Encoding = 1, q_Metadata = Some Map.empty,
     q_Body = Some (hello_any (1 # pair_bytes k @ [9]))\<rparr>"

definition pair_env :: "(string \<times> bytes) pb_env" where
  "pair_env = \<lparr>pe_streams = framing, pe_proto = table_proto [pair_wire 0, pair_wire 1]
     [hello_response 0 [1, 5, 6, 9], hello_response 0 [1, 7, 8, 9]]\<rparr>"

definition echo :: "string \<Rightarrow> string \<times> bytes \<Rightarrow> (string \<times> bytes, unit) pb_value response" where
  "echo meth a = ok_response (Some (ProtoMessage a))"

definition pair_server :: "(pb_world, (string \<times> bytes, unit) pb_value, string, unit) server" where
  "pair_server = Register ''hello'' (Some (unary_handler ''*test.Hello'' (echo ''hello'') 5)) (NewServer ''s'' 4 [])"

definition pair :: "(string \<times> bytes, unit, string, unit) pb_net_par" where
  "pair =
     \<lparr>bp_env = pair_env, bp_inject = (\<lambda>x kv. kv), bp_extract = (\<lambda>x kv. x), bp_incoming = (\<lambda>kv. ''x''),
      bp_background = ''x'', bp_server = pair_server, bp_client = demo_client, bp_device = ''d'',
      bp_call = (\<lambda>k. \<lparr>bc_rid = pair_rid k, bc_method = ''hello'', bc_args = pair_message k,
                       bc_target = GoType True ''*test.Hello'', bc_opts = [WithEncoding ContentEncoding_GZIP],
                       bc_ctx = ''x'', bc_pooled = None, bc_picks = (None, None, None)\<rparr>)\<rparr>"

definition pair_world :: "nat option \<Rightarrow> pb_world" where
  "pair_world pick =
     \<lparr>w_manager = NewCompressorManager, w_published = [], w_picks = (\<lambda>n. (None, if n = 3 then pick else None)),
      w_calls = 0\<rparr>"

definition pair_schedule :: "pb_net_event list" where
  "pair_schedule =
     [BCall 0, BCall 1, BReceive 0 True None, BReceive 0 True None,
      BServe 0 0 WorkerStep, BServe 0 0 WorkerStep, BServe 0 0 WorkerStep,
      BServe 1 0 WorkerStep, BServe 1 0 WorkerStep, BServe 1 0 WorkerStep,
      BBegin 0 WorkerStep, BBegin 1 WorkerStep, BServe 0 0 WorkerStep, BServe 1 0 WorkerStep,
      BDeliver 0 0, BDeliver 1 0]"

lemma pair_simps [simp]:
  "bp_env pair = pair_env" "bp_server pair = pair_server" "bp_client pair = demo_client" "bp_device pair = ''d''"
  "bc_rid (bp_call pair k) = pair_rid k" "bc_method (bp_call pair k) = ''hello''"
  "bc_args (bp_call pair k) = pair_message k" "bc_target (bp_call pair k) = GoType True ''*test.Hello''"
  "bc_opts (bp_call pair k) = [WithEncoding ContentEncoding_GZIP]" "bc_ctx (bp_call pair k) = ''x''"
  "bc_pooled (bp_call pair k) = None" "bc_picks (bp_call pair k) = (None, None, None)"
  "bp_inject pair = (\<lambda>x kv. kv)" "bp_extract pair = (\<lambda>x kv. x)" "bp_incoming pair = (\<lambda>kv. ''x'')"
  "bp_background pair = ''x''" "pe_streams pair_env = framing"
  by (simp_all add: pair_def pair_env_def)

lemma pair_proto [simp]:
  "px_MarshalMsg (pe_proto pair_env) (pair_message k) = Inr (pair_bytes k)"
  "px_TypeOf (pe_proto pair_env) (pair_message k) = ''*test.Hello''"
  "px_MarshalRequest (pe_proto pair_env) (pair_wire k) = Inr [if k = 0 then 0 else 1]"
  "px_UnmarshalRequest (pe_proto pair_env) [if k = 0 then 0 else 1] = (norm_request (pair_wire k), None)"
  "px_UnmarshalMsg (pe_proto pair_env) t v = Inr (t, case v of None \<Rightarrow> [] | Some b \<Rightarrow> b)"
  by (simp_all add: pair_env_def table_proto_def pair_message_def write_place_def at_place_def pair_wire_def
      pair_bytes_def hello_any_def)

lemma pair_compress:
  "compress_body framing None None 1 (Some (hello_any (pair_bytes k))) NewCompressorManager =
     (framing_manager (1 # pair_bytes k @ [9, 0, 0, 0]), (Some (View 0 4), None))"
  by (simp add: compress_body_def hello_convert hello_any_def pair_bytes_def framing_run_defs numeral_eq_Suc)

lemma pair_sent:
  "client_Marshal framing (pe_proto pair_env) None None
     (call_request (\<lambda>x kv. kv) (pe_proto pair_env) ''x'' (call_encoding [WithEncoding ContentEncoding_GZIP])
        ''hello'' (pair_message k) (pair_bytes k)
        (q_Metadata (cc_request (codec_of demo_client (None :: string rpc_codec option)))))
     (cc_manager (codec_of demo_client (None :: string rpc_codec option))) =
   (framing_manager (1 # pair_bytes k @ [9, 0, 0, 0]), Inr [if k = 0 then 0 else 1])"
proof -
  have codec: "q_Metadata (cc_request (codec_of demo_client (None :: string rpc_codec option))) = None"
    "cc_manager (codec_of demo_client (None :: string rpc_codec option)) = NewCompressorManager"
    by (simp_all add: codec_of_def demo_client_def pb_NewClient_def NewRPCClientCodec_def
        NewRPCClientCodecWithConn_def empty_request_def)
  have request: "call_request (\<lambda>x kv. kv) (pe_proto pair_env) ''x'' 1 ''hello'' (pair_message k) (pair_bytes k) None =
      (pair_wire k)\<lparr>q_Body := Some (hello_any (pair_bytes k))\<rparr>"
    by (simp add: call_request_def request_metadata_def pair_wire_def hello_any_def)
  have view: "read_slice (framing_manager (1 # pair_bytes k @ [9, 0, 0, 0])) (View 0 4) = 1 # pair_bytes k @ [9]"
    by (simp add: pair_bytes_def framing_manager_def numeral_eq_Suc)
  have written: "(pair_wire k)\<lparr>q_Body := Some ((hello_any (pair_bytes k))\<lparr>Value := Some (1 # pair_bytes k @ [9])\<rparr>)\<rparr> = pair_wire k"
    "q_Encoding ((pair_wire k)\<lparr>q_Body := b\<rparr>) = 1" for b
    by (simp_all add: pair_wire_def hello_any_def)
  show ?thesis
    by (simp add: codec demo_encoding request client_Marshal_def written pair_compress client_encode_def view
        del: read_slice.simps)
qed

lemma pair_rids: "plain_segment (pair_rid k)" "inj pair_rid"
  by (auto simp: plain_segment_def pair_rid_def) (auto intro!: injI simp: pair_rid_def dest: arg_cong [where f = length])

lemma pair_reply:
  "pb_response_for (pe_proto pair_env) (call_data pair k) (echo meth (pair_message j)) =
     Some \<lparr>rs_Topic = pb_response_topic demo_client ''d'' (pair_rid k),
           rs_Response = hello_response 0 (pair_bytes j)\<rparr>"
proof -
  have "GetReplyTopic (call_data pair k) = pb_response_topic demo_client ''d'' (pair_rid k)"
    using pb_reply_topic [OF pair_rids(1), of demo_client "''d''"] demo_topic(2)
    by (simp add: GetReplyTopic_def call_data_def)
  then show ?thesis
    by (simp add: pb_response_for_def echo_def ok_response_def MakeOKResponse_def RequestData_GetResponse_def
        call_data_def demo_encoding hello_response_def hello_any_def empty_response_def empty_request_def RPCStatusOK_def)
qed

lemma pair_env_ok: "pb_env_ok pair_env" "lawful_messages (pe_proto pair_env)"
  by (simp_all add: pb_env_ok_def pair_env_def framing_lawful table_lawful table_messages)

lemma pair_ok: "pb_net_ok pair echo"
  unfolding pb_net_ok_def Let_def
proof (intro conjI allI)
  show "pb_env_ok (bp_env pair)" "lawful_messages (pe_proto (bp_env pair))"
    by (simp_all add: pair_env_ok)
  show "inj (\<lambda>k. bc_rid (bp_call pair k))" using pair_rids(2) by simp
  show "word_free (topic_levels (pc_topicPrefix (bp_client pair)) (bp_device pair))" using demo_topic(2) by simp
  fix k
  show "plain_segment (bc_rid (bp_call pair k))" by (simp add: pair_rids)
  show "pool_ok (cc_manager (codec_of (bp_client pair) (bc_pooled (bp_call pair k))))"
    by (simp add: codec_of_def demo_client_def pb_NewClient_def NewRPCClientCodec_def NewRPCClientCodecWithConn_def pool_ok_new)
  show "\<exists>val m1 data. px_MarshalMsg (pe_proto (bp_env pair)) (bc_args (bp_call pair k)) = Inr val
      \<and> client_Marshal (pe_streams (bp_env pair)) (pe_proto (bp_env pair)) (fst (bc_picks (bp_call pair k)))
          (fst (snd (bc_picks (bp_call pair k))))
          (call_request (bp_inject pair) (pe_proto (bp_env pair)) (bc_ctx (bp_call pair k))
            (call_encoding (bc_opts (bp_call pair k))) (bc_method (bp_call pair k)) (bc_args (bp_call pair k)) val
            (q_Metadata (cc_request (codec_of (bp_client pair) (bc_pooled (bp_call pair k))))))
          (cc_manager (codec_of (bp_client pair) (bc_pooled (bp_call pair k)))) = (m1, Inr data)"
    using pair_sent [of k] by simp
  show "\<exists>timeout. handlerMap (bp_server pair) (bc_method (bp_call pair k))
      = Some (Some (unary_handler (px_TypeOf (pe_proto (bp_env pair)) (bc_args (bp_call pair k)))
          (echo (bc_method (bp_call pair k))) timeout))"
    by (auto simp: pair_server_def Register_def)
  show "\<exists>rs. pb_response_for (pe_proto (bp_env pair)) (call_data pair k) (own_reply pair echo k) = Some rs
      \<and> norm_response (rs_Response rs) \<noteq> empty_response
      \<and> (\<forall>v a. p_Body (rs_Response rs) = Some a \<longrightarrow> norm_value v = norm_value (Value a) \<longrightarrow>
           px_UnmarshalMsg (pe_proto (bp_env pair)) (type_string (bc_target (bp_call pair k))) v
           = px_UnmarshalMsg (pe_proto (bp_env pair)) (type_string (bc_target (bp_call pair k))) (Value a))"
    by (auto simp: own_reply_def pair_reply norm_response_def hello_response_def empty_response_def norm_value_def
        split: if_splits option.split)
qed

lemma pair_outcome: "pb_own_outcome pair echo k = (None, Some (pair_message k))"
  by (simp add: pb_own_outcome_def own_reply_def pair_reply answer_result_def hello_response_def hello_any_def
      norm_value_def) (simp add: pair_bytes_def pair_message_def)

section \<open>The run\<close>

definition pair_sent_message :: "nat \<Rightarrow> message" where
  "pair_sent_message k = fst (conn_Write (pb_request_topic demo_client ''d'' (pair_rid k)) DefaultQoS [if k = 0 then 0 else 1])"

definition pair_request :: "nat \<Rightarrow> request_data" where
  "pair_request k =
     \<lparr>rd_Topic = pb_request_topic demo_client ''d'' (pair_rid k),
      rd_Request = \<lparr>q_Id = 0, q_Method = ''hello'', q_Encoding = 1, q_Metadata = None, q_Body = Some (hello_any (pair_bytes k))\<rparr>\<rparr>"

lemma pair_Call: "pb_net_Call pair k (CtxDone e) = ([pair_sent_message k], (Some e, None))"
  unfolding pb_net_Call_def Let_def pair_simps pair_sent_message_def
  by (rule cancelled_call [where val = "pair_bytes k"]) (simp_all add: pair_sent)

lemma pair_accept:
  "pb_accept pair_env (\<lambda>kv. ''x'') ''x'' (pair_sent_message k) w =
     (w\<lparr>w_manager := with_reader (fst (w_picks w (w_calls w))) (w_manager w), w_calls := Suc (w_calls w)\<rparr>,
      Some (''x'', pair_request k))"
proof -
  have "server_Unmarshal framing (pe_proto pair_env) pick [if k = 0 then 0 else 1] m =
      (with_reader pick m, rd_Request (pair_request k), None)" for pick m
    by (simp add: server_Unmarshal_def norm_request_def norm_body_def norm_metadata_def pair_wire_def pair_request_def
        hello_any_def hello_convert Decompress_def encoding_defs GzipDecompress_def io_ReadAll_def framing_def
        framing_stream_def)
  then show ?thesis
    by (simp add: pb_accept_def pb_receive_def pair_sent_message_def conn_Write_def Let_def pb_child_def
        NewMQTTContext_ctx_def pair_request_def del: if_split)
qed

lemma pair_start:
  "start_running pair True None w (''x'', pair_request k) =
     \<lparr>pr_ctx = ''x'', pr_request = pair_request k,
      pr_state = \<lparr>pc = Waiting, wk = Some (Job (Running (HBind (GoType True ''*test.Hello'') (\<lambda>b. hseq (case b of
          Inr (ProtoMessage a) \<Rightarrow> HReply (Some (echo ''hello'' a)) (\<lambda>_. HReturn)
        | Inr (OtherValue u) \<Rightarrow> HReturn
        | Inl e \<Rightarrow> HReply (Some (error_response RPCStatusServerError (Some e))) (\<lambda>_. HReturn))
        (reply_error_prog RPCStatusServerError ErrNoReply))))), sh = NewRequestContext w\<rparr>,
      pr_begun = (\<lambda>a. None)\<rparr>"
  by (simp add: start_running_def call_start_def pair_server_def Register_def NewServer_def default_options_def
      pb_child_def pair_request_def job_prog_def unary_handler_def Let_def)

definition pair_sending :: "pb_world \<Rightarrow> nat \<Rightarrow> (actor \<Rightarrow> result option) \<Rightarrow> (string \<times> bytes, unit, string, unit) pb_running" where
  "pair_sending w k begun =
     \<lparr>pr_ctx = ''x'', pr_request = pair_request k,
      pr_state = \<lparr>pc = Waiting,
        wk = Some (Job (Sending (Some (echo ''hello'' (pair_message k))) (\<lambda>b. reply_error_prog RPCStatusServerError ErrNoReply))),
        sh = \<lparr>replyed = True, res = Some (echo ''hello'' (pair_message k)), world = w, sent = []\<rparr>\<rparr>,
      pr_begun = begun\<rparr>"

definition pair_received :: "nat option \<Rightarrow> nat \<Rightarrow> pb_world" where
  "pair_received pick n = (pair_world pick)\<lparr>w_manager := (with_reader None ^^ n) NewCompressorManager, w_calls := n\<rparr>"

definition pair_both_sending :: "nat option \<Rightarrow> (string \<times> bytes, unit, string, unit) pb_net" where
  "pair_both_sending pick =
     \<lparr>bn_callers = (\<lambda>k. NotCalled)(0 := Called, 1 := Called), bn_requests = [],
      bn_serving = [pair_sending (pair_received pick 2) 0 (\<lambda>a. None), pair_sending (pair_received pick 2) 1 (\<lambda>a. None)],
      bn_world = pair_received pick 2, bn_answers = []\<rparr>"

lemma pair_to_sending:
  "pb_net_run pair (take 10 pair_schedule) (pb_net_start (pair_world pick)) = Some (pair_both_sending pick)"
proof -
  have bind: "pb_Bind (pe_proto pair_env) (pair_request k) (GoType True ''*test.Hello'') = Ret (Inr (ProtoMessage (pair_message k)))" for k
    by (simp add: pb_Bind_def pair_request_def hello_any_def) (simp add: pair_message_def)
  have accepted: "pb_accept pair_env (\<lambda>kv. ''x'') ''x'' (pair_sent_message n) (pair_received pick n) =
      (pair_received pick (Suc n), Some (''x'', pair_request n))" if "n < 2" for n
    using that by (simp add: pair_accept pair_received_def pair_world_def)
  have start: "pair_world pick = pair_received pick 0" by (simp add: pair_received_def pair_world_def)
  have published: "w_published (pair_received pick n) = []" for n by (simp add: pair_received_def pair_world_def)
  show ?thesis
    by (simp add: pair_schedule_def pb_net_start_def start pair_Call remove_nth_def accepted pair_start pb_up_def Let_def
        published at_world_def running_child_Reply(2) pb_child_def bind NewRequestContext_def setResponse_def
        pair_both_sending_def pair_sending_def numeral_2_eq_2)
qed

text \<open>
  The two replies are begun, and then ended.  The first body is in array 0; the second one is there as
  well, or in array 1.
\<close>

definition pair_compressed :: "nat option \<Rightarrow> nat \<Rightarrow> manager" where
  "pair_compressed pick n = (w_manager (pair_received pick 2))
     \<lparr>gzipWriterPool := [2..<2 + n], next_object := 2 + n,
      bufferPool := (if n = 2 \<and> pick = None then [\<lparr>b_arr = Some 0, b_len = 4\<rparr>, \<lparr>b_arr = Some 1, b_len = 4\<rparr>]
                     else [\<lparr>b_arr = Some 0, b_len = 4\<rparr>]),
      next_array := (if n = 2 \<and> pick = None then 2 else 1),
      arrays := (if n = 1 then (\<lambda>_. [])(0 := [1, 5, 6, 9, 0, 0, 0])
                 else if pick = None then (\<lambda>_. [])(0 := [1, 5, 6, 9, 0, 0, 0], 1 := [1, 7, 8, 9, 0, 0, 0])
                 else (\<lambda>_. [])(0 := [1, 7, 8, 9, 0, 0, 0]))\<rparr>"

definition pair_begun :: "nat option \<Rightarrow> nat \<Rightarrow> pb_world" where
  "pair_begun pick n = (pair_received pick 2)\<lparr>w_manager := pair_compressed pick n, w_calls := 2 + n\<rparr>"

lemma pair_serves: "serves_call pair k (pair_request k)"
  by (simp add: serves_call_def call_data_def pair_request_def demo_encoding pb_Bind_def hello_any_def)
    (simp add: pair_message_def)

lemma pair_replies:
  "pb_response_for (pe_proto pair_env) (pair_request k) (echo ''hello'' (pair_message k)) =
     Some \<lparr>rs_Topic = pb_response_topic demo_client ''d'' (pair_rid k), rs_Response = hello_response 0 (pair_bytes k)\<rparr>"
  by (simp add: serves_call_reply(1) [OF pair_serves] pair_reply)

lemma pair_compress_first:
  "compress_body framing None None 1 (Some (hello_any (pair_bytes 0))) (w_manager (pair_received pick 2))
     = (pair_compressed pick 1, (Some (View 0 4), None))"
  by (simp add: compress_body_def hello_convert hello_any_def pair_bytes_def pair_compressed_def pair_received_def
      with_reader_def framing_run_defs numeral_eq_Suc)

lemma pair_compress_second:
  assumes "pick = None \<or> pick = Some 0"
  shows "compress_body framing None pick 1 (Some (hello_any (pair_bytes (Suc 0)))) (pair_compressed pick 1)
     = (pair_compressed pick 2, (Some (View (if pick = None then 1 else 0) 4), None))"
  using assms
  by (elim disjE; simp add: compress_body_def hello_convert hello_any_def pair_bytes_def pair_compressed_def
      pair_received_def with_reader_def framing_run_defs numeral_eq_Suc upt_rec fun_upd_twist)

lemma pair_begins:
  "begin_reply pair_env (pair_request 0) (Some (echo ''hello'' (pair_message 0))) (pair_received pick 2)
     = (pair_begun pick 1, (Some (View 0 4), None))"
  "pick = None \<or> pick = Some 0 \<Longrightarrow>
   begin_reply pair_env (pair_request (Suc 0)) (Some (echo ''hello'' (pair_message (Suc 0)))) (pair_begun pick 1)
     = (pair_begun pick 2, (Some (View (if pick = None then 1 else 0) 4), None))"
proof -
  have picks: "w_picks (pair_received pick n) = (\<lambda>n. (None, if n = 3 then pick else None))" "w_calls (pair_received pick n) = n" for n
    by (simp_all add: pair_received_def pair_world_def)
  show "begin_reply pair_env (pair_request 0) (Some (echo ''hello'' (pair_message 0))) (pair_received pick 2)
     = (pair_begun pick 1, (Some (View 0 4), None))"
    by (simp add: begin_reply_def pair_replies picks pair_compress_first pair_begun_def)
  show "begin_reply pair_env (pair_request (Suc 0)) (Some (echo ''hello'' (pair_message (Suc 0)))) (pair_begun pick 1)
     = (pair_begun pick 2, (Some (View (if pick = None then 1 else 0) 4), None))" if "pick = None \<or> pick = Some 0"
    by (simp add: begin_reply_def pair_replies pair_begun_def picks pair_compress_second [OF that, simplified])
qed

definition pair_answer :: "nat \<Rightarrow> nat \<Rightarrow> message" where
  "pair_answer k j = \<lparr>m_Topic = pb_response_topic demo_client ''d'' (pair_rid k), m_QoS = DefaultQoS, m_Retained = False,
     m_Payload = [if j = 0 then 0 else 1]\<rparr>"

lemma pair_ends:
  assumes "pick = None \<or> pick = Some 0"
  shows "end_reply pair_env (pair_request 0) (Some (View 0 4), None) (pair_begun pick 2) (Some (echo ''hello'' (pair_message 0)))
     = ((pair_begun pick 2)\<lparr>w_published := [pair_answer 0 (if pick = None then 0 else 1)]\<rparr>, Ret True)"
    and "end_reply pair_env (pair_request (Suc 0)) (Some (View (if pick = None then 1 else 0) 4), None)
         ((pair_begun pick 2)\<lparr>w_published := ms\<rparr>) (Some (echo ''hello'' (pair_message (Suc 0))))
     = ((pair_begun pick 2)\<lparr>w_published := ms @ [pair_answer 1 1]\<rparr>, Ret True)"
proof -
  have written: "px_MarshalResponse (pe_proto pair_env) (hello_response 0 [1, 5, 6, 9]) = Inr [0]"
    "px_MarshalResponse (pe_proto pair_env) (hello_response 0 [1, 7, 8, 9]) = Inr [1]"
    by (simp_all add: pair_env_def table_proto_def write_place_def hello_response_def hello_any_def)
  have views: "take 4 (arrays (pair_compressed pick 2) 0) = (if pick = None then [1, 5, 6, 9] else [1, 7, 8, 9])"
    "take 4 (arrays (pair_compressed pick 2) (if pick = None then 1 else 0)) = [1, 7, 8, 9]"
    by (simp_all add: pair_compressed_def)
  have published: "w_published (pair_begun p 2) = []" "w_manager (pair_begun p 2) = pair_compressed p 2" for p
    by (simp_all add: pair_begun_def pair_received_def pair_world_def)
  show "end_reply pair_env (pair_request 0) (Some (View 0 4), None) (pair_begun pick 2) (Some (echo ''hello'' (pair_message 0)))
     = ((pair_begun pick 2)\<lparr>w_published := [pair_answer 0 (if pick = None then 0 else 1)]\<rparr>, Ret True)"
    using views(1) by (simp add: end_reply_def pair_replies server_encode_def published written pair_answer_def)
  show "end_reply pair_env (pair_request (Suc 0)) (Some (View (if pick = None then 1 else 0) 4), None)
         ((pair_begun pick 2)\<lparr>w_published := ms\<rparr>) (Some (echo ''hello'' (pair_message (Suc 0))))
     = ((pair_begun pick 2)\<lparr>w_published := ms @ [pair_answer 1 1]\<rparr>, Ret True)"
    using views(2) by (simp add: end_reply_def pair_replies server_encode_def published written pair_answer_def del: if_split)
qed

lemma pair_result: "snd (pb_net_Call pair k (Answered [if j = 0 then 0 else 1])) = (None, Some (pair_message j))"
proof -
  let ?bs = "[if j = 0 then 0 else 1]" and ?rsp = "(hello_response 0 (pair_bytes j))\<lparr>p_Metadata := None\<rparr>"
  have "client_Unmarshal framing (pe_proto pair_env) None ?bs m = (with_reader None m, ?rsp, None)" for m
    by (simp add: client_Unmarshal_def pair_env_def table_proto_def at_place_def norm_response_def norm_body_def
        norm_metadata_def hello_response_def hello_any_def hello_convert Decompress_def encoding_defs GzipDecompress_def
        io_ReadAll_def framing_def framing_stream_def pair_bytes_def)
  then have decodes: "decodes_to pair_env None ?bs ?rsp" by (simp add: decodes_to_def)
  have "snd (pb_net_Call pair k (Answered ?bs)) = answer_result (pe_proto pair_env) (GoType True ''*test.Hello'') ?rsp"
    unfolding pb_net_Call_def Let_def pair_simps
    by (simp add: answered_call [where env = pair_env, unfolded pair_simps, OF pair_proto(1) pair_sent decodes])
  also have "\<dots> = (None, Some (pair_message j))"
    by (simp add: answer_result_def hello_response_def hello_any_def norm_value_def)
      (simp add: pair_bytes_def pair_message_def)
  finally show ?thesis .
qed

lemma pb_net_run_append:
  "pb_net_run par (xs @ ys) s = (case pb_net_run par xs s of None \<Rightarrow> None | Some s' \<Rightarrow> pb_net_run par ys s')"
  by (induction xs arbitrary: s) (auto split: option.splits)

lemma pair_run:
  assumes "pick = None \<or> pick = Some 0"
  shows "\<exists>s. pb_net_run pair pair_schedule (pb_net_start (pair_world pick)) = Some s
    \<and> bn_callers s 0 = Done (None, Some (pair_message (if pick = None then 0 else 1)))
    \<and> bn_callers s 1 = Done (None, Some (pair_message 1))"
proof -
  have topics: "m_Topic (pair_answer k j) = pb_net_topic pair k" "m_Payload (pair_answer k j) = [if j = 0 then 0 else 1]" for k j
    by (simp_all add: pair_answer_def pb_net_topic_def)
  have published: "w_published (pair_received p 2) = []" "w_published (pair_begun p n) = []" for p n
    by (simp_all add: pair_begun_def pair_received_def pair_world_def)
  have "\<exists>s. pb_net_run pair (drop 10 pair_schedule) (pair_both_sending pick) = Some s
    \<and> bn_callers s 0 = Done (None, Some (pair_message (if pick = None then 0 else 1)))
    \<and> bn_callers s 1 = Done (None, Some (pair_message 1))"
    using assms
  proof
    assume "pick = None"
    then show ?thesis
      using pair_begins(2) [of None] pair_ends [of None]
      by (simp add: pair_schedule_def pair_both_sending_def pair_sending_def pb_up_def pair_begins(1) Let_def at_world_def
          running_child_Reply(1) child_reply_def published topics remove_nth_def
          pair_result [where j = 0, simplified] pair_result [where j = 1, simplified])
  next
    assume "pick = Some 0"
    then show ?thesis
      using pair_begins(2) [of "Some 0"] pair_ends [of "Some 0"]
      by (simp add: pair_schedule_def pair_both_sending_def pair_sending_def pb_up_def pair_begins(1) Let_def at_world_def
          running_child_Reply(1) child_reply_def published topics remove_nth_def
          pair_result [where j = 0, simplified] pair_result [where j = 1, simplified])
  qed
  then show ?thesis
    using pair_to_sending [of pick] by (metis append_take_drop_id option.simps(5) pb_net_run_append)
qed

text \<open>With another buffer for the second reply the run keeps buffers.\<close>

lemma keeping_run_append:
  "keeping_run par (xs @ ys) s \<longleftrightarrow>
     keeping_run par xs s \<and> (case pb_net_run par xs s of None \<Rightarrow> True | Some s' \<Rightarrow> keeping_run par ys s')"
  by (induction xs arbitrary: s) (auto split: option.splits)

lemma keeping_run_no_begin: "(\<And>i a. BBegin i a \<notin> set es) \<Longrightarrow> keeping_run par es s"
proof (induction es arbitrary: s)
  case (Cons ev es)
  then have "keeps_buffers par ev s" for s by (auto simp: keeps_buffers_def)
  with Cons show ?case by (auto split: option.split)
qed simp

lemma pair_keeps: "keeping_run pair pair_schedule (pb_net_start (pair_world None))"
proof -
  have first: "keeping_run pair (take 10 pair_schedule) (pb_net_start (pair_world None))"
    by (rule keeping_run_no_begin) (simp add: pair_schedule_def)
  have "takes_array pair_env (pair_request 1) rsp (pair_begun None (Suc 0)) = None" for rsp :: "(string \<times> bytes, unit) pb_value response option"
    by (simp add: takes_array_def taken_buffer_def pool_Get_def new_buffer_def pair_begun_def pair_received_def pair_world_def
        split: option.split)
  moreover obtain s1 where s1: "pb_net_step pair (BBegin 0 WorkerStep) (pair_both_sending None) = Some s1"
      "bn_world s1 = pair_begun None (Suc 0)" "pr_request (bn_serving s1 ! 1) = pair_request 1"
    by (simp add: pair_both_sending_def pair_sending_def pb_up_def pair_begins(1))
  ultimately have "keeps_buffers pair (BBegin 1 WorkerStep) s1" by (simp add: keeps_buffers_def)
  moreover have "keeps_buffers pair (BBegin 0 WorkerStep) (pair_both_sending None)"
    by (auto simp: keeps_buffers_def pair_both_sending_def pair_sending_def)
  moreover have "drop 10 pair_schedule = BBegin 0 WorkerStep # BBegin 1 WorkerStep # drop 12 pair_schedule"
    by (simp add: pair_schedule_def)
  moreover have "keeping_run pair (drop 12 pair_schedule) s" for s
    by (rule keeping_run_no_begin) (simp add: pair_schedule_def)
  ultimately have "keeping_run pair (drop 10 pair_schedule) (pair_both_sending None)"
    using s1(1) by (simp del: pb_net_step.simps split: option.split)
  with first pair_to_sending [of None] show ?thesis
    using keeping_run_append [of pair "take 10 pair_schedule" "drop 10 pair_schedule" "pb_net_start (pair_world None)"]
    by simp
qed


text \<open>
  C9. Without that, calls do get into each other's way.  On a server that echoes, under the same
  assumptions and with the same schedule, but with the buffer of the first reply taken for the second
  one: the first caller's call returns without an error and with the message that the second caller
  sent.
\<close>

theorem overlapping_replies_cross_calls:
  "pb_net_ok pair echo
   \<and> (\<exists>s. pb_net_run pair pair_schedule (pb_net_start (pair_world (Some 0))) = Some s
        \<and> bn_callers s 0 = Done (None, Some (bc_args (bp_call pair 1))))
   \<and> pb_own_outcome pair echo 0 = (None, Some (bc_args (bp_call pair 0)))
   \<and> bc_args (bp_call pair 0) \<noteq> bc_args (bp_call pair 1)"
proof -
  have "pair_message 0 \<noteq> pair_message 1" by (simp add: pair_message_def pair_bytes_def)
  with pair_run [of "Some 0"] show ?thesis by (auto simp: pair_ok pair_outcome)
qed

end
