(* ===== verification/Pb_Progress.thy ===== *)
theory Pb_Progress
  imports Pb_Network
begin

text \<open>
  Progress of \<open>Pb_Network\<close>: a running call can take the two steps of a reply one after the other,
  and then runs as \<open>Server_Core\<close> has it, with replies that are one step; so a new call has a way on in
  which it completes, whatever state the machine is in.
\<close>

section \<open>Replies taken together\<close>

text \<open>Only a thread that sends looks at how its context replies.\<close>

lemma thread_step_other_reply:
  assumes "sending_thread t = None"
  shows "thread_step (child\<lparr>c_Reply := R\<rparr>) t s = thread_step child t s"
proof (cases t)
  case (Running p)
  then show ?thesis by (cases p) simp_all
qed (use assms in simp_all)

lemma thread_step_sending:
  assumes "sending_thread t = Some r" and "R w' r = c_Reply child (world s) r"
  shows "thread_step (child\<lparr>c_Reply := R\<rparr>) t (s\<lparr>world := w'\<rparr>) = thread_step child t s"
  using assms by (cases t) (simp_all add: child_reply_def split: prod.split)

lemma worker_step_other_reply:
  "sends WorkerStep st = None \<Longrightarrow>
   call_step srv (child\<lparr>c_Reply := R\<rparr>) el WorkerStep st = call_step srv child el WorkerStep st"
  by (auto simp: thread_step_other_reply split: option.splits worker.splits thread.splits call_pc.splits)

lemma worker_step_sending:
  assumes "sends WorkerStep st = Some r" and "R w' r = c_Reply child (world (sh st)) r"
  shows "call_step srv (child\<lparr>c_Reply := R\<rparr>) el WorkerStep (at_world w' st) = call_step srv child el WorkerStep st"
proof -
  obtain W r' k where "wk st = Some W" "w_thread W = Sending r' k" "r' = r"
    using assms(1) by (auto split: option.splits elim: sending_thread.elims)
  with thread_step_sending [of "Sending r k" r R w' child "sh st"] assms(2) show ?thesis
    by (cases W) (simp_all add: at_world_def split: call_pc.split prod.split)
qed

text \<open>So a worker's step of the call alone is one event, or two when it replies.\<close>

lemma begin_reply_frame: "begin_reply env r rsp w = (w', v) \<Longrightarrow> w_published w' = w_published w"
  by (auto simp: begin_reply_def split: option.splits prod.splits)

lemma at_world_self: "world (sh st) = w \<Longrightarrow> at_world w st = st"
  by (simp add: at_world_def)

lemma begun_same:
  "pr_begun run = b \<Longrightarrow> run\<lparr>pr_state := st, pr_begun := b\<rparr> = run\<lparr>pr_state := st\<rparr>"
  by (cases run) simp

lemma worker_step_alone:
  assumes i: "i < length (bn_serving s)" and up: "pb_up s" and begun: "pr_begun (bn_serving s ! i) = (\<lambda>a. None)"
    and step: "call_step (bp_server par) (pb_child (bp_env par) (pr_ctx (bn_serving s ! i)) (pr_request (bn_serving s ! i)))
      el WorkerStep (at_world (bn_world s) (pr_state (bn_serving s ! i))) = Some st"
  shows "\<exists>es. pb_net_run par es s = Some (s\<lparr>bn_world := world (sh st),
      bn_serving := (bn_serving s)[i := (bn_serving s ! i)\<lparr>pr_state := st\<rparr>],
      bn_answers := bn_answers s @ drop (length (w_published (bn_world s))) (w_published (world (sh st)))\<rparr>)"
proof -
  let ?run = "bn_serving s ! i" and ?w = "bn_world s"
  let ?child = "pb_child (bp_env par) (pr_ctx ?run) (pr_request ?run) :: (pb_world, ('a, 'b) pb_value, 'c) child"
  show ?thesis
  proof (cases "sends WorkerStep (pr_state ?run)")
    case None
    then have "call_step (bp_server par) (running_child (bp_env par) ?run WorkerStep) el WorkerStep
        (at_world ?w (pr_state ?run)) = Some st"
      unfolding running_child_def using step by (subst worker_step_other_reply) simp_all
    with i up None begun have "pb_net_step par (BServe i el WorkerStep) s = Some (s\<lparr>bn_world := world (sh st),
      bn_serving := (bn_serving s)[i := ?run\<lparr>pr_state := st\<rparr>],
      bn_answers := bn_answers s @ drop (length (w_published ?w)) (w_published (world (sh st)))\<rparr>)"
      by (simp add: Let_def fun_upd_idem begun_same [OF begun] del: call_step.simps)
    then show ?thesis by (intro exI [of _ "[BServe i el WorkerStep]"]) simp
  next
    case (Some rsp)
    obtain w' v where first: "begin_reply (bp_env par) (pr_request ?run) rsp ?w = (w', v)" by (metis surj_pair)
    let ?run1 = "?run\<lparr>pr_begun := (\<lambda>a. None)(WorkerStep := Some v)\<rparr>"
    let ?s1 = "s\<lparr>bn_world := w', bn_serving := (bn_serving s)[i := ?run1]\<rparr>"
    have first_step: "pb_net_step par (BBegin i WorkerStep) s = Some ?s1"
      using i up begun Some first by simp
    have "end_reply (bp_env par) (pr_request ?run) v w' rsp = c_Reply ?child ?w rsp"
      by (simp add: pb_child_def Reply_in_two_steps first)
    then have step1: "call_step (bp_server par) (running_child (bp_env par) ?run1 WorkerStep) el WorkerStep
        (at_world w' (pr_state ?run1)) = Some st"
      using worker_step_sending [of "at_world ?w (pr_state ?run)" rsp
          "end_reply (bp_env par) (pr_request ?run) v" w' ?child "bp_server par" el] Some step
      by (simp add: running_child_def at_world_def del: call_step.simps)
    have "pb_up ?s1"
      using up i set_update_subset_insert [of "bn_serving s" i ?run1] unfolding pb_up_def by fastforce
    then have "pb_net_step par (BServe i el WorkerStep) ?s1 = Some (s\<lparr>bn_world := world (sh st),
      bn_serving := (bn_serving s)[i := ?run\<lparr>pr_state := st\<rparr>],
      bn_answers := bn_answers s @ drop (length (w_published ?w)) (w_published (world (sh st)))\<rparr>)"
      using i step1 begin_reply_frame [OF first] begun
      by (simp add: Let_def fun_upd_idem begun_same [OF begun] del: call_step.simps)
    with first_step show ?thesis
      by (intro exI [of _ "[BBegin i WorkerStep, BServe i el WorkerStep]"]) (simp del: pb_net_step.simps)
  qed
qed

text \<open>A running call only adds to what is published.\<close>

lemma may_call_any: "may_call child (UNIV \<union> server_errors) st"
proof -
  have "may_reply child UNIV p" for p by (induction p) auto
  then have "may_thread child UNIV t" for t by (cases t) auto
  then show ?thesis by (simp add: may_call_def)
qed

lemma worker_step_publishes:
  assumes "call_step srv (pb_child env x r) el WorkerStep st = Some st'"
  shows "prefix (w_published (world (sh st))) (w_published (world (sh st')))"
proof -
  let ?A = "\<lambda>w w'. prefix (w_published w) (w_published w')"
  have "?A w (fst (c_Reply (pb_child env x r) w rsp))" for w rsp
    by (auto simp: pb_child_def pb_Reply_def split: option.split prod.split outcome.split
        dest!: pb_reply_publishes)
  with may_call_move [OF call_step_move [OF assms] _ may_call_any, where A = ?A] show ?thesis by blast
qed

lemma worker_run_alone:
  assumes "i < length (bn_serving s)" and "pb_up s" and "pr_begun (bn_serving s ! i) = (\<lambda>a. None)"
    and "call_run (bp_server par) (pb_child (bp_env par) (pr_ctx (bn_serving s ! i)) (pr_request (bn_serving s ! i)))
      el (replicate n WorkerStep) (at_world (bn_world s) (pr_state (bn_serving s ! i))) = Some st"
    and "\<not> crashed (pc st)"
  shows "\<exists>es s'. pb_net_run par es s = Some s' \<and> bn_callers s' = bn_callers s
    \<and> bn_answers s' = bn_answers s @ drop (length (w_published (bn_world s))) (w_published (world (sh st)))
    \<and> prefix (w_published (bn_world s)) (w_published (world (sh st)))"
  using assms(1-4)
proof (induction n arbitrary: s)
  case 0
  then show ?case by (intro exI [of _ "[]"] exI [of _ s]) auto
next
  case (Suc n)
  let ?run = "bn_serving s ! i"
  let ?child = "pb_child (bp_env par) (pr_ctx ?run) (pr_request ?run) :: (pb_world, ('a, 'b) pb_value, 'c) child"
  from Suc.prems(4) obtain st1 where st1: "call_step (bp_server par) ?child el WorkerStep (at_world (bn_world s) (pr_state ?run)) = Some st1"
      "call_run (bp_server par) ?child el (replicate n WorkerStep) st1 = Some st"
    by (auto split: option.splits simp del: call_step.simps)
  let ?s1 = "s\<lparr>bn_world := world (sh st1), bn_serving := (bn_serving s)[i := ?run\<lparr>pr_state := st1\<rparr>],
      bn_answers := bn_answers s @ drop (length (w_published (bn_world s))) (w_published (world (sh st1)))\<rparr>"
  obtain es where es: "pb_net_run par es s = Some ?s1"
    using worker_step_alone [OF Suc.prems(1-3) st1(1)] by blast
  have "\<not> crashed (pc st1)"
    using st1(2) assms(5) by (cases n) (auto split: option.splits dest: crashed_stops simp del: call_step.simps)
  then have up: "pb_up ?s1"
    using Suc.prems(2) set_update_subset_insert [of "bn_serving s" i "?run\<lparr>pr_state := st1\<rparr>"]
    unfolding pb_up_def by fastforce
  obtain es' s' where s': "pb_net_run par es' ?s1 = Some s'" "bn_callers s' = bn_callers s"
    "bn_answers s' = bn_answers ?s1 @ drop (length (w_published (world (sh st1)))) (w_published (world (sh st)))"
    "prefix (w_published (world (sh st1))) (w_published (world (sh st)))"
    using Suc.IH [OF _ up] Suc.prems(1,3) st1(2) by (auto simp: at_world_self)
  have "prefix (w_published (bn_world s)) (w_published (world (sh st1)))"
    using worker_step_publishes [OF st1(1)] by simp
  with s'(2-4) es s'(1) show ?case
    by (intro exI [of _ "es @ es'"] exI [of _ s']) (auto simp: pb_net_run_append prefix_def)
qed

section \<open>A new call\<close>

text \<open>Left alone, a call that the server accepted and admits publishes its answer.\<close>

lemma accepted_call_answers:
  fixes par :: "('p, 'o, 'x, 'u) pb_net_par"
  assumes ok: "pb_net_ok par f" and admitted: "admits (bp_server par) allow wait" and pool: "pool_ok (w_manager w)"
    and r: "serves_call par k r"
    and rs: "pb_response_for (pe_proto (bp_env par)) (call_data par k) (own_reply par f k) = Some rs"
    and ser: "serialises (bp_env par) (rs_Response rs)"
  shows "\<exists>n st msg. call_run (bp_server par) (pb_child (bp_env par) x r) 0 (replicate n WorkerStep)
        (call_start (bp_server par) (pb_child (bp_env par) x r) allow wait w) = Some st
    \<and> \<not> crashed (pc st) \<and> w_published (world (sh st)) = w_published w @ [msg]
    \<and> m_Topic msg = pb_net_topic par k
    \<and> snd (pb_net_Call par k (Answered (m_Payload msg))) = pb_own_outcome par f k"
proof -
  let ?env = "bp_env par" and ?px = "pe_proto (bp_env par)" and ?c = "bp_call par k"
  let ?child = "pb_child ?env x r :: (pb_world, ('p, 'o) pb_value, 'x) child"
  obtain timeout where hdl: "handlerMap (bp_server par) (bc_method ?c)
    = Some (Some (unary_handler (px_TypeOf ?px (bc_args ?c)) (f (bc_method ?c)) timeout))"
    by (rule pb_net_ok_handler [OF ok])
  let ?hdl = "unary_handler (px_TypeOf ?px (bc_args ?c)) (f (bc_method ?c)) timeout"
  have disp: "dispatched (bp_server par) ?child allow wait ?hdl"
    using admitted hdl by (simp add: dispatched_def admits_def serves_call_reply(2) [OF r])
  obtain n J where run: "call_run (bp_server par) ?child 0 (replicate n WorkerStep)
        (call_start (bp_server par) ?child allow wait w)
      = Some \<lparr>pc = Waiting, wk = Some (J Finished), sh = job_result ?child ?hdl (NewRequestContext w)\<rparr>"
    using job_completes [OF disp pb_context.transport_errors, of 0 w] by (elim exE conjE) (rule that)
  obtain w' msg where reply: "pb_reply ?env (Some rs) w = (w', Ret None)"
    "w_published w' = w_published w @ [msg]" "m_Topic msg = rs_Topic rs"
    using pb_reply_serialises [OF pool pb_net_okD(1) [OF ok] ser] by blast
  have "c_Reply ?child w (Some (own_reply par f k)) = (w', Ret True)"
    by (simp add: pb_child_def pb_Reply_def serves_call_reply(1) [OF r] rs reply(1))
  then have world: "world (job_result ?child ?hdl (NewRequestContext w)) = w'"
    using unary_handler_run [OF serves_call_reply(3) [OF r], where f = "f (bc_method ?c)"]
    by (simp add: own_reply_def)
  have "norm_response (rs_Response rs) \<noteq> empty_response"
    using pb_net_ok_reply [OF ok, of k] rs by force
  from reply_decodes [OF pool pb_net_okD(1) [OF ok] reply(1,2) this, of "snd (snd (bc_picks ?c))"]
  obtain got where "decodes_to ?env (snd (snd (bc_picks ?c))) (m_Payload msg) got" "m_Payload msg \<noteq> []"
    "norm_response got = norm_response (rs_Response rs)" by blast
  note outcome = own_answer_outcome [OF ok rs this]
  have "rs_Topic rs = pb_net_topic par k"
    using response_topic(4) [OF rs] pb_reply_topic [OF pb_net_okD(5) [OF ok, of k]] pb_net_okD(4) [OF ok]
    by (simp add: GetReplyTopic_def call_data_def pb_net_topic_def)
  with run world reply(2,3) outcome show ?thesis
    by (intro exI [of _ n] exI [of _ msg]) auto
qed

text \<open>The new call's request is received and served, and its answer is the last that is under way.\<close>

lemma new_pb_call_served:
  fixes par :: "('p, 'o, 'x, 'u) pb_net_par"
  assumes ok: "pb_net_ok par f" and admitted: "admits (bp_server par) allow wait"
    and up: "pb_up s" and pool: "pool_ok (w_manager (bn_world s))" and new: "bn_callers s k = NotCalled"
    and rs: "pb_response_for (pe_proto (bp_env par)) (call_data par k) (own_reply par f k) = Some rs"
    and ser: "serialises (bp_env par) (rs_Response rs)"
  shows "\<exists>es s' msg. pb_net_run par es s = Some s' \<and> bn_callers s' k = Called
    \<and> bn_answers s' = bn_answers s @ [msg] \<and> m_Topic msg = pb_net_topic par k
    \<and> snd (pb_net_Call par k (Answered (m_Payload msg))) = pb_own_outcome par f k"
proof -
  let ?i = "length (bn_requests s)" and ?j = "length (bn_serving s)"
  obtain m w x r where m: "\<forall>e. pb_net_Call par k (CtxDone e) = ([m], (Some e, None))"
    and accept: "pb_accept (bp_env par) (bp_incoming par) (bp_background par) m (bn_world s) = (w, Some (x, r))"
    and r: "serves_call par k r" and w: "pool_ok (w_manager w)" "w_published w = w_published (bn_world s)"
    by (rule request_accepted [OF ok pool, where k = k])
  let ?child = "pb_child (bp_env par) x r :: (pb_world, ('p, 'o) pb_value, 'x) child"
  let ?run = "start_running par allow wait w (x, r) :: ('p, 'o, 'x, 'u) pb_running"
  define s2 where "s2 = s\<lparr>bn_callers := (bn_callers s)(k := Called), bn_world := w, bn_serving := bn_serving s @ [?run]\<rparr>"
  have s2: "pb_net_run par [BCall k, BReceive ?i allow wait] s = Some s2"
    using new up m accept w(2) by (simp add: s2_def remove_nth_def pb_up_def)
  obtain n st msg where served: "call_run (bp_server par) ?child 0 (replicate n WorkerStep)
        (call_start (bp_server par) ?child allow wait w) = Some st" "\<not> crashed (pc st)"
      "w_published (world (sh st)) = w_published w @ [msg]" "m_Topic msg = pb_net_topic par k"
      "snd (pb_net_Call par k (Answered (m_Payload msg))) = pb_own_outcome par f k"
    using accepted_call_answers [OF ok admitted w(1) r rs ser] by blast
  have here: "bn_serving s2 ! ?j = ?run" "?j < length (bn_serving s2)" "bn_world s2 = w" by (simp_all add: s2_def)
  have "pb_up s2"
    using up by (auto simp: s2_def pb_up_def start_running_def call_start_facts)
  moreover have "call_run (bp_server par) (pb_child (bp_env par) (pr_ctx ?run) (pr_request ?run)) 0 (replicate n WorkerStep)
      (at_world w (pr_state ?run)) = Some st"
    using served(1) by (simp add: start_running_def at_world_self call_start_facts)
  ultimately obtain es s3 where "pb_net_run par es s2 = Some s3" "bn_callers s3 = bn_callers s2"
      "bn_answers s3 = bn_answers s2 @ [msg]"
    using worker_run_alone [of ?j s2 par 0 n st] served(2,3) here by (auto simp: start_running_def)
  then have "pb_net_run par ([BCall k, BReceive ?i allow wait] @ es) s = Some s3" "bn_callers s3 k = Called"
    "bn_answers s3 = bn_answers s @ [msg]"
    unfolding pb_net_run_append s2 option.case by (simp_all add: s2_def)
  with served(4,5) show ?thesis by blast
qed



end
