(* ===== verification/Telemetry.thy ===== *)
theory Telemetry
  imports Go_Std
begin

text \<open>
  Telemetry (\<open>telemetry/telemetry.go\<close>): how an instance is set up from a configuration or from
  the environment, what it records of a request, and how it is shut down.

  The OpenTelemetry SDK is outside the repository.  Its providers are kept as what they were made
  with; whether one of its constructors fails is an argument, as is what shutting down a provider
  returns.
\<close>

section \<open>Providers\<close>

datatype writer = Stdout | Writer nat

datatype exporter = WriteTo writer | SendTo string

datatype sampler = AlwaysSample | NeverSample | DefaultSampler

datatype tel_resource = ServiceResource string string string | NoopResource | DefaultResource

record tracer_provider =
  tp_resource :: tel_resource
  tp_exporter :: "exporter option"
  tp_sampler :: sampler

text \<open>
  A meter provider has a reader, which exports at an interval or is read by hand; then its histogram
  boundaries.
\<close>

datatype metric_reader = PeriodicReader exporter int | ManualReader


record meter_provider =
  mp_resource :: tel_resource
  mp_reader :: "metric_reader option"
  mp_boundaries :: "nat list"

record otel_globals =
  g_tracer :: "tracer_provider option"
  g_propagator :: bool
  g_meter :: "meter_provider option"

text \<open>The errors of the SDK's constructors, in the order in which \<open>New\<close> calls them.\<close>

record sdk =
  sdk_resource :: "gerror option"
  sdk_trace_exporter :: "gerror option"
  sdk_metric_exporter :: "gerror option"
  sdk_histogram :: "gerror option"
  sdk_counter :: "gerror option"

record tel_config =
  ServiceName :: string
  ServiceVersion :: string
  Environment :: string
  OTLPEndpoint :: string
  TraceWriter :: "writer option"
  MetricWriter :: "writer option"
  Debug :: bool
  Enabled :: bool

record telemetry =
  tl_tp :: tracer_provider
  tl_mp :: meter_provider
  tl_enabled :: bool

definition failed_to :: "string \<Rightarrow> gerror \<Rightarrow> gerror" where
  "failed_to what e = Errorf (''failed to '' @ what @ '': '' @ error_text e)"

section \<open>Setting up\<close>

definition NewNoop :: "sdk \<Rightarrow> gerror + telemetry" where
  "NewNoop s =
     (case sdk_resource s of
        Some e \<Rightarrow> Inl (failed_to ''create resource'' e)
      | None \<Rightarrow>
          (case sdk_histogram s of
             Some e \<Rightarrow> Inl (failed_to ''create request duration histogram'' e)
           | None \<Rightarrow>
               (case sdk_counter s of
                  Some e \<Rightarrow> Inl (failed_to ''create error counter'' e)
                | None \<Rightarrow>
                    Inr \<lparr>tl_tp = \<lparr>tp_resource = NoopResource, tp_exporter = None, tp_sampler = NeverSample\<rparr>,
                         tl_mp = \<lparr>mp_resource = NoopResource, mp_reader = None, mp_boundaries = []\<rparr>,
                         tl_enabled = False\<rparr>)))"

definition duration_boundaries :: "nat list" where
  "duration_boundaries = [1, 5, 10, 25, 50, 75, 100, 250, 500, 750, 1000, 2500, 5000, 7500, 10000]"

definition or_stdout :: "writer option \<Rightarrow> writer" where
  "or_stdout w = (case w of None \<Rightarrow> Stdout | Some x \<Rightarrow> x)"

definition trace_provider :: "tel_config \<Rightarrow> tracer_provider" where
  "trace_provider cfg =
     \<lparr>tp_resource = ServiceResource (ServiceName cfg) (ServiceVersion cfg) (Environment cfg),
      tp_exporter = Some (if Debug cfg then WriteTo (or_stdout (TraceWriter cfg)) else SendTo (OTLPEndpoint cfg)),
      tp_sampler = AlwaysSample\<rparr>"

definition metric_provider :: "tel_config \<Rightarrow> meter_provider" where
  "metric_provider cfg =
     \<lparr>mp_resource = ServiceResource (ServiceName cfg) (ServiceVersion cfg) (Environment cfg),
      mp_reader = Some (PeriodicReader
        (if Debug cfg then WriteTo (or_stdout (MetricWriter cfg)) else SendTo (OTLPEndpoint cfg)) 10000000000),
      mp_boundaries = duration_boundaries\<rparr>"

text \<open>
  The providers are installed as the global ones on the way, each as soon as it is made.
\<close>

definition tel_New :: "sdk \<Rightarrow> tel_config \<Rightarrow> otel_globals \<Rightarrow> otel_globals \<times> (gerror + telemetry)" where
  "tel_New s cfg g =
     (if \<not> Enabled cfg then (g, NewNoop s)
      else
        (case sdk_resource s of
           Some e \<Rightarrow> (g, Inl (failed_to ''create resource'' e))
         | None \<Rightarrow>
             (case sdk_trace_exporter s of
                Some e \<Rightarrow> (g, Inl (failed_to ''create trace exporter'' e))
              | None \<Rightarrow>
                  (let g1 = g\<lparr>g_tracer := Some (trace_provider cfg), g_propagator := True\<rparr>
                   in case sdk_metric_exporter s of
                        Some e \<Rightarrow> (g1, Inl (failed_to ''create metric exporter'' e))
                      | None \<Rightarrow>
                          (let g2 = g1\<lparr>g_meter := Some (metric_provider cfg)\<rparr>
                           in case sdk_histogram s of
                                Some e \<Rightarrow> (g2, Inl (failed_to ''create request duration histogram'' e))
                              | None \<Rightarrow>
                                  (case sdk_counter s of
                                     Some e \<Rightarrow> (g2, Inl (failed_to ''create error counter'' e))
                                   | None \<Rightarrow>
                                       (g2, Inr \<lparr>tl_tp = trace_provider cfg, tl_mp = metric_provider cfg,
                                                 tl_enabled = True\<rparr>)))))))"

definition getEnvOrDefault :: "(string \<Rightarrow> string) \<Rightarrow> string \<Rightarrow> string \<Rightarrow> string" where
  "getEnvOrDefault getenv key dflt = (if getenv key \<noteq> [] then getenv key else dflt)"

definition env_config :: "(string \<Rightarrow> string) \<Rightarrow> string \<Rightarrow> string \<Rightarrow> tel_config" where
  "env_config getenv serviceName serviceVersion =
     \<lparr>ServiceName = serviceName, ServiceVersion = serviceVersion,
      Environment = getEnvOrDefault getenv ''ENVIRONMENT'' ''development'',
      OTLPEndpoint = getEnvOrDefault getenv ''OTEL_EXPORTER_OTLP_ENDPOINT'' ''localhost:4317'',
      TraceWriter = None, MetricWriter = None,
      Debug = (getEnvOrDefault getenv ''OTEL_DEBUG'' ''false'' = ''true''),
      Enabled = (getEnvOrDefault getenv ''OTEL_ENABLED'' ''false'' = ''true'')\<rparr>"

definition NewFromEnv ::
  "sdk \<Rightarrow> (string \<Rightarrow> string) \<Rightarrow> string \<Rightarrow> string \<Rightarrow> otel_globals \<Rightarrow> otel_globals \<times> (gerror + telemetry)" where
  "NewFromEnv s getenv serviceName serviceVersion =
     tel_New s (env_config getenv serviceName serviceVersion)"

definition IsEnabled :: "telemetry \<Rightarrow> bool" where
  "IsEnabled t = tl_enabled t"

section \<open>Recording requests\<close>

text \<open>
  The two instruments: the observations of the duration histogram, in milliseconds, and the
  increments of the error counter, each with its attributes.
\<close>

record instruments =
  in_durations :: "(int \<times> (string \<times> string) list) list"
  in_errors :: "(string \<times> string) list list"

definition no_records :: instruments where
  "no_records = \<lparr>in_durations = [], in_errors = []\<rparr>"

text \<open>\<open>Duration.Milliseconds\<close> of nanoseconds, cut off towards zero.\<close>

definition Milliseconds :: "int \<Rightarrow> int" where
  "Milliseconds d = sgn d * (\<bar>d\<bar> div 1000000)"

definition tel_RecordRequest ::
  "telemetry \<Rightarrow> int \<Rightarrow> string \<Rightarrow> string \<Rightarrow> gerror option \<Rightarrow> instruments \<Rightarrow> instruments" where
  "tel_RecordRequest t duration meth status err ins =
     (if \<not> tl_enabled t then ins
      else
        let attrs = [(''method'', meth), (''status'', status)];
            ins1 = ins\<lparr>in_durations := in_durations ins @ [(Milliseconds duration, attrs)]\<rparr>
        in case err of
             None \<Rightarrow> ins1
           | Some e \<Rightarrow> ins1\<lparr>in_errors := in_errors ins1 @ [attrs @ [(''error'', error_text e)]]\<rparr>)"

text \<open>A disabled instance gives back the context and the span that it carries.\<close>

definition StartSpan :: "('x \<Rightarrow> string \<Rightarrow> 'x \<times> 's) \<Rightarrow> ('x \<Rightarrow> 's) \<Rightarrow> telemetry \<Rightarrow> 'x \<Rightarrow> string \<Rightarrow> 'x \<times> 's" where
  "StartSpan tracer_Start SpanFromContext t ctx nm =
     (if \<not> tl_enabled t then (ctx, SpanFromContext ctx) else tracer_Start ctx nm)"

section \<open>Shutting down\<close>

text \<open>
  The arguments say what shutting down either provider returns; the list says which of them was
  shut down, the trace provider as \<open>True\<close>.
\<close>

definition Shutdown :: "gerror option \<Rightarrow> gerror option \<Rightarrow> telemetry \<Rightarrow> bool list \<times> gerror option" where
  "Shutdown tp_result mp_result t =
     (case tp_result of
        Some e \<Rightarrow> ([True], Some (failed_to ''shutdown trace provider'' e))
      | None \<Rightarrow>
          (case mp_result of
             Some e \<Rightarrow> ([True, False], Some (failed_to ''shutdown meter provider'' e))
           | None \<Rightarrow> ([True, False], None)))"

section \<open>Properties\<close>

text \<open>Requests as data: duration, method, status and error.\<close>

type_synonym tel_request = "int \<times> string \<times> string \<times> gerror option"

fun record_one :: "telemetry \<Rightarrow> tel_request \<Rightarrow> instruments \<Rightarrow> instruments" where
  "record_one t (d, meth, status, err) ins = tel_RecordRequest t d meth status err ins"

fun observation :: "tel_request \<Rightarrow> int \<times> (string \<times> string) list" where
  "observation (d, meth, status, err) = (Milliseconds d, [(''method'', meth), (''status'', status)])"

fun error_attributes :: "tel_request \<Rightarrow> (string \<times> string) list option" where
  "error_attributes (d, meth, status, err) =
     map_option (\<lambda>e. [(''method'', meth), (''status'', status), (''error'', error_text e)]) err"

lemma record_one_enabled:
  "tl_enabled t \<Longrightarrow> record_one t r ins =
     \<lparr>in_durations = in_durations ins @ [observation r],
      in_errors = in_errors ins @ List.map_filter error_attributes [r]\<rparr>"
  by (cases r; cases ins)
    (auto simp: tel_RecordRequest_def map_filter_simps Let_def split: option.split)

lemma record_all_enabled:
  "tl_enabled t \<Longrightarrow> fold (record_one t) rs ins =
     \<lparr>in_durations = in_durations ins @ map observation rs,
      in_errors = in_errors ins @ List.map_filter error_attributes rs\<rparr>"
proof (induction rs arbitrary: ins)
  case Nil
  show ?case by (simp add: map_filter_simps)
next
  case (Cons r rs)
  then show ?case
    by (simp add: record_one_enabled map_filter_simps split: option.split)
qed

lemma record_all_disabled: "\<not> tl_enabled t \<Longrightarrow> fold (record_one t) rs ins = ins"
proof (induction rs)
  case (Cons r rs)
  then show ?case by (cases r) (simp add: tel_RecordRequest_def)
qed simp

lemma Milliseconds_bound: "\<bar>Milliseconds d * 1000000 - d\<bar> < 1000000"
proof -
  have "\<bar>d\<bar> = \<bar>d\<bar> div 1000000 * 1000000 + \<bar>d\<bar> mod 1000000" by simp
  moreover have "0 \<le> \<bar>d\<bar> mod 1000000" "\<bar>d\<bar> mod 1000000 < 1000000" by simp_all
  ultimately show ?thesis
    by (cases d "0 :: int" rule: linorder_cases) (auto simp: Milliseconds_def sgn_if)
qed

text \<open>
  What telemetry counts: an enabled instance records one duration for each request, in order,
  and one error for each failed one; a disabled instance records nothing.
\<close>

lemma telemetry_counts_requests:
  "fold (record_one t) rs no_records =
    (if tl_enabled t
     then \<lparr>in_durations = map observation rs, in_errors = List.map_filter error_attributes rs\<rparr>
     else no_records)"
  by (simp add: record_all_enabled record_all_disabled no_records_def)

text \<open>
  A failed set-up is not undone: when an enabled configuration fails at the metric exporter or
  later, \<open>New\<close> returns an error and no instance to shut down, but the trace provider with its
  running exporter stays installed for the whole process; an earlier failure changes nothing.
\<close>

lemma failed_telemetry_stays_installed:
  assumes "tel_New s cfg g = (g', Inl e)" and "Enabled cfg"
  shows "(if sdk_resource s = None \<and> sdk_trace_exporter s = None
          then g_tracer g' = Some (trace_provider cfg) \<and> g_propagator g'
             \<and> g_meter g' = (if sdk_metric_exporter s = None then Some (metric_provider cfg) else g_meter g)
          else g' = g)"
  using assms by (auto simp: tel_New_def Let_def split: option.splits if_splits)

lemma failed_telemetry_stays_installed_witness:
  "g_tracer (fst (tel_New \<lparr>sdk_resource = None, sdk_trace_exporter = None,
       sdk_metric_exporter = Some (ExtErr ''x''), sdk_histogram = None, sdk_counter = None\<rparr>
     (env_config (\<lambda>k. if k = ''OTEL_ENABLED'' then ''true'' else []) ''s'' ''1'')
     \<lparr>g_tracer = None, g_propagator = False, g_meter = None\<rparr>)) \<noteq> None"
proof -
  let ?s = "\<lparr>sdk_resource = None, sdk_trace_exporter = None,
       sdk_metric_exporter = Some (ExtErr ''x''), sdk_histogram = None, sdk_counter = None\<rparr>"
  let ?cfg = "env_config (\<lambda>k. if k = ''OTEL_ENABLED'' then ''true'' else []) ''s'' ''1''"
  let ?g = "\<lparr>g_tracer = None, g_propagator = False, g_meter = None\<rparr>"
  have enabled: "Enabled ?cfg" by (simp add: env_config_def getEnvOrDefault_def)
  then obtain g' e where "tel_New ?s ?cfg ?g = (g', Inl e)" by (simp add: tel_New_def Let_def)
  from failed_telemetry_stays_installed [OF this enabled] this show ?thesis by simp
qed

text \<open>
  The recorded duration is the duration in whole milliseconds, less than one millisecond off; a
  request that took less than a millisecond counts as zero.
\<close>

lemma recorded_duration_bound:
  "\<bar>fst (observation (d, meth, status, err)) * 1000000 - d\<bar> < 1000000"
  using Milliseconds_bound [of d] by simp

end
