(* ===== verification/Call_Effects.thy ===== *)
theory Call_Effects
  imports Server_Core Telemetry
begin

text \<open>
  What a call leaves in telemetry and in the callbacks: the effects of the deferred function of
  \<open>Call\<close> (\<open>server.go\<close>) applied to the instruments of \<open>telemetry/telemetry.go\<close>.
\<close>

section \<open>The effects at the instruments\<close>

text \<open>The server records a request through the instance it was given with \<open>SetTelemetry\<close>.\<close>

fun observe :: "telemetry \<Rightarrow> 'u effect \<Rightarrow> instruments \<Rightarrow> instruments" where
  "observe t (RecordRequest d meth status err) ins = tel_RecordRequest t d meth status err ins"
| "observe t _ ins = ins"

definition observe_all :: "telemetry \<Rightarrow> 'u effect list \<Rightarrow> instruments \<Rightarrow> instruments" where
  "observe_all t fx = fold (observe t) fx"

fun user_call :: "'u effect \<Rightarrow> ('u \<times> int \<times> int option) list" where
  "user_call (CallUser u d status) = [(u, d, status)]"
| "user_call _ = []"

definition user_calls :: "'u effect list \<Rightarrow> ('u \<times> int \<times> int option) list" where
  "user_calls fx = concat (map user_call fx)"

fun registered_user :: "'u after_callback \<Rightarrow> 'u list" where
  "registered_user (UserCallback u) = [u]"
| "registered_user (MetricsCallback rt ec) = []"

definition registered_users :: "('w, 'v, 'x, 'u) server \<Rightarrow> 'u list" where
  "registered_users srv = concat (map registered_user (cbList srv))"

text \<open>The response that a call ended with, once as an observation and once as an error.\<close>

definition reported_request :: "('w, 'v, 'x) child \<Rightarrow> int \<Rightarrow> 'v response \<Rightarrow> tel_request" where
  "reported_request child elapsed r =
     (duration_Round elapsed 1000000, c_Method child, format_int (r_status r), r_error r)"

lemma emit_observes:
  "ev_Res e = Some r \<Longrightarrow> fold (observe t) (fst (emitAfterResponse name e cbs)) ins = ins"
proof (induction cbs arbitrary: ins)
  case (Cons cb cbs)
  then show ?case
    by (cases cb) (auto split: prod.splits option.splits simp: Let_def)
qed simp

lemma emit_user_calls:
  "ev_Res e = Some r \<Longrightarrow> user_calls (fst (emitAfterResponse name e cbs)) =
     map (\<lambda>u. (u, ev_Duration e, Some (r_status r))) (concat (map registered_user cbs))"
proof (induction cbs)
  case (Cons cb cbs)
  then show ?case
    by (cases cb) (auto simp: user_calls_def Let_def split: prod.splits option.splits)
qed (simp add: user_calls_def)

lemma after_call_observed:
  "observe_all t (fst (after_call srv child elapsed (Some r))) ins = record_one t (reported_request child elapsed r) ins"
proof -
  let ?e = "\<lparr>ev_Duration = duration_Round elapsed 1000000, ev_Res = Some r\<rparr>"
  obtain fx out where fx: "emitAfterResponse (so_name (s_options srv)) ?e (cbList srv) = (fx, out)"
    by (metis surj_pair)
  with emit_observes [of ?e r t "so_name (s_options srv)" "cbList srv"] show ?thesis
    by (simp add: after_call_def observe_all_def reported_request_def status_label_def Let_def)
qed

lemma after_call_users:
  "user_calls (fst (after_call srv child elapsed (Some r))) =
     map (\<lambda>u. (u, duration_Round elapsed 1000000, Some (r_status r))) (registered_users srv)"
proof -
  let ?e = "\<lparr>ev_Duration = duration_Round elapsed 1000000, ev_Res = Some r\<rparr>"
  obtain fx out where fx: "emitAfterResponse (so_name (s_options srv)) ?e (cbList srv) = (fx, out)"
    by (metis surj_pair)
  with emit_user_calls [of ?e r "so_name (s_options srv)" "cbList srv"] show ?thesis
    by (simp add: after_call_def user_calls_def registered_users_def Let_def)
qed

section \<open>The response that is reported is the one that was sent\<close>

text \<open>
  A goroutine that has claimed the answer finds no response there, so that a response that is
  there stays.
\<close>

fun storing :: "'v thread \<Rightarrow> bool" where
  "storing (Storing r k) = True"
| "storing _ = False"

definition store_inv :: "'v thread list \<Rightarrow> ('w, 'v) rctx \<Rightarrow> bool" where
  "store_inv ts s \<longleftrightarrow> (\<forall>t\<in>set ts. storing t \<longrightarrow> res s = None)"

lemma storing_replying: "storing t \<Longrightarrow> replying t"
  by (cases t) auto

lemma store_inv_simps:
  "store_inv [] s" "store_inv (t # ts) s \<longleftrightarrow> (storing t \<longrightarrow> res s = None) \<and> store_inv ts s"
  by (auto simp: store_inv_def)

lemma store_inv_step:
  assumes "reply_inv (xs @ t # ys) s" and "store_inv (xs @ t # ys) s" and "thread_step child t s = (t', s')"
  shows "store_inv (xs @ t' # ys) s'"
proof (cases "storing t")
  case True
  then obtain r k where t: "t = Storing r k" by (cases t) auto
  with assms(1) have "replying_count (xs @ ys) = 0" by (auto simp: reply_inv_def split: if_splits)
  then have "\<forall>u\<in>set (xs @ ys). \<not> storing u" using storing_replying by (auto simp: replying_count_0)
  with t assms(3) show ?thesis by (auto simp: store_inv_def)
next
  case False
  have "res s' = res s" using assms(3) False
    by (cases "(child, t, s)" rule: thread_step.cases)
      (auto split: if_splits outcome.splits prod.splits dest: child_reply_frame)
  moreover have "storing t' \<Longrightarrow> res s = None" using assms(1,3) False
    by (cases "(child, t, s)" rule: thread_step.cases)
      (auto simp: reply_inv_def split: if_splits outcome.splits prod.splits)
  ultimately show ?thesis using assms(2) by (auto simp: store_inv_def)
qed

lemma thread_step_res:
  assumes "thread_step child t s = (t', s')" and "\<not> storing t"
  shows "res s' = res s"
  using assms
  by (cases "(child, t, s)" rule: thread_step.cases)
    (auto split: if_splits outcome.splits prod.splits dest: child_reply_frame)

definition report_inv ::
  "('w, 'v, 'x, 'u) server \<Rightarrow> ('w, 'v, 'x) child \<Rightarrow> int \<Rightarrow> ('w, 'v, 'u) call_state \<Rightarrow> bool" where
  "report_inv srv child elapsed st \<longleftrightarrow>
     (\<not> crashed (pc st) \<longrightarrow> store_inv (pc_threads (pc st) @ wk_threads (wk st)) (sh st))
   \<and> (\<forall>fx. pc st = Returned fx \<longrightarrow>
        (\<exists>r. res (sh st) = Some r \<and> fx = fst (after_call srv child elapsed (Some r))))"

lemma finish_report:
  "finish_call srv child elapsed p s = Returned fx \<Longrightarrow>
     \<exists>r. res s = Some r \<and> fx = fst (after_call srv child elapsed (Some r))"
  using finish_Returned [of srv child elapsed p s fx]
  by (auto simp: finish_call_def GetResponse_def split: prod.splits outcome.splits option.splits)

lemma report_inv_move:
  assumes "call_move srv child elapsed st a st'" and "call_inv st" and "report_inv srv child elapsed st"
  shows "report_inv srv child elapsed st'"
  using assms
proof (induction rule: call_move.induct)
  case (answer t t' s')
  then have "reply_inv (t # wk_threads (wk st)) (sh st)" by (auto dest: call_inv_alive)
  with answer store_inv_step [of "[]" t "wk_threads (wk st)" "sh st" child t' s'] show ?case
    by (simp add: report_inv_def)
next
  case (job t t' s')
  then have alive: "\<not> crashed (pc st)" by (auto elim!: crashed.elims)
  with job have "reply_inv (pc_threads (pc st) @ [t]) (sh st)" by (auto dest: call_inv_alive)
  with job alive store_inv_step [of "pc_threads (pc st)" t "[]" "sh st" child t' s'] thread_step_res [of child t "sh st" t' s']
  show ?case by (auto simp: report_inv_def store_inv_def)
next
  case (recovering t t' s')
  then have alive: "\<not> crashed (pc st)" by (auto elim!: crashed.elims)
  with recovering have "reply_inv (pc_threads (pc st) @ [t]) (sh st)" by (auto dest: call_inv_alive)
  with recovering alive store_inv_step [of "pc_threads (pc st)" t "[]" "sh st" child t' s'] thread_step_res [of child t "sh st" t' s']
  show ?case by (auto simp: report_inv_def store_inv_def)
next
  case (recover m)
  then have "\<not> crashed (pc st)" by (auto elim!: crashed.elims)
  with recover show ?case by (auto simp: report_inv_def store_inv_def)
qed (auto simp: report_inv_def store_inv_def dest: finish_report)

lemma report_inv_run:
  assumes "call_run srv child elapsed sched (call_start srv child allow wait w) = Some st"
  shows "report_inv srv child elapsed st"
proof -
  have "call_inv st \<and> report_inv srv child elapsed st"
  proof (rule call_run_invariant [where I = "\<lambda>st. call_inv st \<and> report_inv srv child elapsed st", OF assms])
    show "call_inv (call_start srv child allow wait w)
        \<and> report_inv srv child elapsed (call_start srv child allow wait w)"
      using call_inv_start [of srv child allow wait w]
      by (auto simp: report_inv_def store_inv_def call_start_def Let_def NewRequestContext_def split: option.splits)
  qed (blast intro: call_inv_move report_inv_move)
  then show ?thesis ..
qed

text \<open>An instance that only differs in whether it is enabled.\<close>

definition env_telemetry :: "bool \<Rightarrow> telemetry" where
  "env_telemetry b =
     \<lparr>tl_tp = \<lparr>tp_resource = NoopResource, tp_exporter = None, tp_sampler = NeverSample\<rparr>,
      tl_mp = \<lparr>mp_resource = NoopResource, mp_reader = None, mp_boundaries = []\<rparr>, tl_enabled = b\<rparr>"

text \<open>
  C20. What a call that returned leaves behind: the response it answered with is recorded in
  telemetry exactly once, with the method, the response's status and the duration rounded to
  milliseconds, and once more as an error exactly when the response is one; a disabled instance
  records nothing; and every callback of the user ran exactly once, in the order of registration,
  with that status.  No later step of a worker changes the response that was reported.
\<close>

theorem returned_call_recorded_once:
  assumes "call_run srv child elapsed sched (call_start srv child allow wait w) = Some st"
    and "pc st = Returned fx"
  shows "\<exists>r. GetResponse (sh st) = Some r
    \<and> observe_all t fx no_records =
        (if tl_enabled t
         then \<lparr>in_durations = [(Milliseconds (duration_Round elapsed 1000000),
                                [(''method'', c_Method child), (''status'', format_int (r_status r))])],
               in_errors = (case r_error r of
                              None \<Rightarrow> []
                            | Some e \<Rightarrow> [[(''method'', c_Method child), (''status'', format_int (r_status r)),
                                         (''error'', error_text e)]])\<rparr>
         else no_records)
    \<and> user_calls fx = map (\<lambda>u. (u, duration_Round elapsed 1000000, Some (r_status r))) (registered_users srv)"
proof -
  from report_inv_run [OF assms(1)] assms(2) obtain r where
    r: "GetResponse (sh st) = Some r" "fx = fst (after_call srv child elapsed (Some r))"
    by (auto simp: report_inv_def GetResponse_def)
  have "observe_all t fx no_records = record_one t (reported_request child elapsed r) no_records"
    by (simp add: r(2) after_call_observed)
  then show ?thesis
    using r after_call_users [of srv child elapsed r]
    by (cases "tl_enabled t")
      (auto simp: reported_request_def tel_RecordRequest_def no_records_def Let_def split: option.split)
qed

theorem returned_call_recorded_once_witness:
  "observe_all (env_telemetry True) [RecordRequest 0 ''echo'' ''429'' (Some ErrTooFraquently) :: unit effect] no_records =
     \<lparr>in_durations = [(0, [(''method'', ''echo''), (''status'', ''429'')])],
      in_errors = [[(''method'', ''echo''), (''status'', ''429''), (''error'', error_text ErrTooFraquently)]]\<rparr>"
  using returned_call_recorded_once [OF limited_run, of _ "env_telemetry True"]
  by (auto simp: limited_final_def Let_def GetResponse_def error_response_def status_texts env_telemetry_def
      loopback_def Milliseconds_def duration_Round_def)

end
