(* ===== verification/Test_Telemetry.thy ===== *)
theory Test_Telemetry
  imports Telemetry
begin

text \<open>
  The telemetry of the tests (\<open>telemetry/testing.go\<close>): providers with a reader that a test reads by
  hand, installed for the whole process.
\<close>

section \<open>The helper\<close>

record test_telemetry =
  tt_tp :: tracer_provider
  tt_mp :: meter_provider
  tt_mr :: metric_reader

definition NewTestTelemetry :: "otel_globals \<Rightarrow> otel_globals \<times> test_telemetry" where
  "NewTestTelemetry g =
     (let tp = \<lparr>tp_resource = DefaultResource, tp_exporter = None, tp_sampler = DefaultSampler\<rparr>;
          g1 = g\<lparr>g_tracer := Some tp\<rparr>;
          mr = ManualReader;
          mp = \<lparr>mp_resource = DefaultResource, mp_reader = Some mr, mp_boundaries = []\<rparr>;
          g2 = g1\<lparr>g_meter := Some mp\<rparr>
      in (g2, \<lparr>tt_tp = tp, tt_mp = mp, tt_mr = mr\<rparr>))"

text \<open>As for \<open>Shutdown\<close>: the list says which providers were shut down; the errors are not wrapped.\<close>

definition test_Shutdown :: "gerror option \<Rightarrow> gerror option \<Rightarrow> test_telemetry \<Rightarrow> bool list \<times> gerror option" where
  "test_Shutdown tp_result mp_result tt =
     (case tp_result of
        Some e \<Rightarrow> ([True], Some e)
      | None \<Rightarrow>
          (case mp_result of
             Some e \<Rightarrow> ([True, False], Some e)
           | None \<Rightarrow> ([True, False], None)))"

definition GetReader :: "test_telemetry \<Rightarrow> metric_reader" where
  "GetReader tt = tt_mr tt"

section \<open>What a test can read\<close>

text \<open>The reader of the helper is that of the meter provider that is installed.\<close>

definition test_reads_global :: "otel_globals \<Rightarrow> test_telemetry \<Rightarrow> bool" where
  "test_reads_global g tt \<longleftrightarrow> map_option mp_reader (g_meter g) = Some (Some (GetReader tt))"

lemma NewTestTelemetry_reads: "NewTestTelemetry g = (g', tt) \<Longrightarrow> test_reads_global g' tt"
  by (auto simp: NewTestTelemetry_def test_reads_global_def GetReader_def Let_def)

text \<open>
  An instance that is set up afterwards takes the place of the helper's provider exactly when it is
  enabled and gets as far as making its metric exporter; then what the process records is exported
  and the test reads nothing of it.
\<close>

lemma test_loses_global_iff:
  assumes "NewTestTelemetry g = (g1, tt)" and "tel_New s cfg g1 = (g2, out)"
  shows "test_reads_global g2 tt \<longleftrightarrow>
    \<not> (Enabled cfg \<and> sdk_resource s = None \<and> sdk_trace_exporter s = None \<and> sdk_metric_exporter s = None)"
  using assms
  by (auto simp: NewTestTelemetry_def test_reads_global_def GetReader_def tel_New_def metric_provider_def Let_def
      split: if_splits option.splits)

text \<open>Shutting down reports the first failure, and then leaves the meter provider as it is.\<close>

lemma test_Shutdown_outcome:
  "snd (test_Shutdown tpr mpr tt) = (case tpr of None \<Rightarrow> mpr | Some e \<Rightarrow> Some e)"
  "False \<in> set (fst (test_Shutdown tpr mpr tt)) \<longleftrightarrow> tpr = None"
  by (auto simp: test_Shutdown_def split: option.split)

end
