(* ===== verification/Math_Example.thy ===== *)
theory Math_Example
  imports Json_Client Telemetry
begin

text \<open>
  The example programs (\<open>examples/basic\<close>): a server of four arithmetic operations over the JSON
  transport, in two variants that differ in where their telemetry comes from, and a client that
  calls it four times.  They show the libraries composed the way a user composes them.

  The floating-point arithmetic of the machine, with how \<open>encoding/json\<close> writes and reads a
  \<open>float64\<close>, is an argument.
\<close>

section \<open>Numbers and values\<close>

text \<open>Infinities and NaN have no literal; a literal may be out of range.\<close>

record 'f float_ops =
  fl_zero :: 'f
  fl_of_int :: "int \<Rightarrow> 'f"
  fl_add :: "'f \<Rightarrow> 'f \<Rightarrow> 'f"
  fl_sub :: "'f \<Rightarrow> 'f \<Rightarrow> 'f"
  fl_mul :: "'f \<Rightarrow> 'f \<Rightarrow> 'f"
  fl_div :: "'f \<Rightarrow> 'f \<Rightarrow> 'f"
  fl_eq :: "'f \<Rightarrow> 'f \<Rightarrow> bool"
  fl_print :: "'f \<Rightarrow> gerror + string"
  fl_parse :: "string \<Rightarrow> 'f option"

datatype 'f math_value = MathRequest (rq_A: 'f) (rq_B: 'f) | MathResponse (rs_Result: 'f)

definition print_member :: "'f float_ops \<Rightarrow> string \<Rightarrow> 'f \<Rightarrow> gerror + (string \<times> json)" where
  "print_member fl name x =
     (case fl_print fl x of Inl e \<Rightarrow> Inl e | Inr l \<Rightarrow> Inr (name, JNumber l))"

fun math_Marshal :: "'f float_ops \<Rightarrow> 'f math_value \<Rightarrow> gerror + json" where
  "math_Marshal fl (MathRequest a b) =
     (case print_member fl ''a'' a of
        Inl e \<Rightarrow> Inl e
      | Inr ma \<Rightarrow> (case print_member fl ''b'' b of Inl e \<Rightarrow> Inl e | Inr mb \<Rightarrow> Inr (JObject [ma, mb])))"
| "math_Marshal fl (MathResponse r) =
     (case print_member fl ''result'' r of Inl e \<Rightarrow> Inl e | Inr m \<Rightarrow> Inr (JObject [m]))"

fun decode_float :: "'f float_ops \<Rightarrow> mismatch \<Rightarrow> string \<Rightarrow> json \<Rightarrow> 'f \<Rightarrow> 'f \<times> gerror option" where
  "decode_float fl mm field JNull old = (old, None)"
| "decode_float fl mm field (JNumber l) old =
     (case fl_parse fl l of
        Some x \<Rightarrow> (x, None)
      | None \<Rightarrow> (old, Some (mm (''number '' @ l) field)))"
| "decode_float fl mm field j old = (old, Some (mm (kind_of j) field))"

fun math_member ::
  "'f float_ops \<Rightarrow> mismatch \<Rightarrow> string \<times> json \<Rightarrow> 'f math_value \<times> gerror option \<Rightarrow> 'f math_value \<times> gerror option" where
  "math_member fl mm (name, j) (MathRequest a b, e) =
     (if fold_name name = ''a'' then
        (case decode_float fl mm ''a'' j a of (x, e2) \<Rightarrow> (MathRequest x b, first_error e e2))
      else if fold_name name = ''b'' then
        (case decode_float fl mm ''b'' j b of (x, e2) \<Rightarrow> (MathRequest a x, first_error e e2))
      else (MathRequest a b, e))"
| "math_member fl mm (name, j) (MathResponse r, e) =
     (if fold_name name = ''result'' then
        (case decode_float fl mm ''result'' j r of (x, e2) \<Rightarrow> (MathResponse x, first_error e e2))
      else (MathResponse r, e))"

fun math_Unmarshal :: "'f float_ops \<Rightarrow> mismatch \<Rightarrow> json \<Rightarrow> 'f math_value \<Rightarrow> 'f math_value \<times> gerror option" where
  "math_Unmarshal fl mm (JObject ms) v = fold (math_member fl mm) ms (v, None)"
| "math_Unmarshal fl mm JNull v = (v, None)"
| "math_Unmarshal fl mm j v = (v, Some (mm (kind_of j) []))"

definition request_type :: string where "request_type = ''*basic.MathRequest''"

text \<open>The environment of the JSON transport for these values; how texts are written is left open.\<close>

definition math_env ::
  "'f float_ops \<Rightarrow> ('f math_value \<Rightarrow> gerror option) \<Rightarrow> 'u json_env \<Rightarrow> 'f math_value json_env" where
  "math_env fl validate tx =
     \<lparr>je_print = je_print tx, je_parse = je_parse tx, je_stream = je_stream tx,
      je_Marshal = math_Marshal fl, je_Unmarshal = math_Unmarshal fl (je_mismatch tx),
      je_zero = (\<lambda>t. if t = request_type then MathRequest (fl_zero fl) (fl_zero fl) else MathResponse (fl_zero fl)),
      je_mismatch = je_mismatch tx, je_Sprintf = je_Sprintf tx, je_Struct = validate\<rparr>"

section \<open>The operations\<close>

definition invalid_request :: "gerror \<Rightarrow> 'v response" where
  "invalid_request e =
     error_response RPCStatusClientError (Some (Errorf (''invalid request: '' @ error_text e)))"

text \<open>The request variable of a handler always holds a request; the other case is never used.\<close>

definition on_request :: "('f \<Rightarrow> 'f \<Rightarrow> 'f math_value response) \<Rightarrow> 'f math_value \<Rightarrow> 'f math_value response" where
  "on_request g v = (case v of MathRequest a b \<Rightarrow> g a b | MathResponse r \<Rightarrow> ok_response None)"

definition math_ok :: "'f \<Rightarrow> 'f math_value response" where
  "math_ok x = ok_response (Some (MathResponse x))"

definition division_by_zero :: gerror where
  "division_by_zero = Errorf ''division by zero''"

definition math_add :: "'f float_ops \<Rightarrow> 'f \<Rightarrow> 'f \<Rightarrow> 'f math_value response" where
  "math_add fl a b = math_ok (fl_add fl a b)"

definition math_subtract :: "'f float_ops \<Rightarrow> 'f \<Rightarrow> 'f \<Rightarrow> 'f math_value response" where
  "math_subtract fl a b = math_ok (fl_sub fl a b)"

definition math_multiply :: "'f float_ops \<Rightarrow> 'f \<Rightarrow> 'f \<Rightarrow> 'f math_value response" where
  "math_multiply fl a b = math_ok (fl_mul fl a b)"

definition math_divide :: "'f float_ops \<Rightarrow> 'f \<Rightarrow> 'f \<Rightarrow> 'f math_value response" where
  "math_divide fl a b =
     (if fl_eq fl b (fl_zero fl) then error_response RPCStatusClientError (Some division_by_zero)
      else math_ok (fl_div fl a b))"

definition math_handler ::
  "('f \<Rightarrow> 'f \<Rightarrow> 'f math_value response) \<Rightarrow> (json_world, 'f math_value, 'x) handler" where
  "math_handler g = json_bind_handler request_type invalid_request (on_request g) 5000000000"

definition registerMathOperations ::
  "'f float_ops \<Rightarrow> (json_world, 'f math_value, 'x, 'u) server \<Rightarrow> (json_world, 'f math_value, 'x, 'u) server" where
  "registerMathOperations fl srv =
     Register ''divide'' (Some (math_handler (math_divide fl)))
      (Register ''multiply'' (Some (math_handler (math_multiply fl)))
       (Register ''subtract'' (Some (math_handler (math_subtract fl)))
        (Register ''add'' (Some (math_handler (math_add fl))) srv)))"

text \<open>The second program has its own copy of the registration.\<close>

definition env_registerMathOperations ::
  "'f float_ops \<Rightarrow> (json_world, 'f math_value, 'x, 'u) server \<Rightarrow> (json_world, 'f math_value, 'x, 'u) server" where
  "env_registerMathOperations fl srv =
     Register ''divide'' (Some (math_handler (math_divide fl)))
      (Register ''multiply'' (Some (math_handler (math_multiply fl)))
       (Register ''subtract'' (Some (math_handler (math_subtract fl)))
        (Register ''add'' (Some (math_handler (math_add fl))) srv)))"

section \<open>The server programs\<close>

text \<open>
  Either program stops with a message when the broker connection (and, in the first, one of the two
  log files) can not be made; a failed telemetry is replaced by one that does nothing, whose own
  error is ignored, so that the instance may be nil.  The second program asks the instance whether it
  is enabled, for its log, and stops there when it is nil.
\<close>

definition telemetry_or_noop :: "sdk \<Rightarrow> gerror + telemetry \<Rightarrow> telemetry option" where
  "telemetry_or_noop s r =
     (case r of
        Inr t \<Rightarrow> Some t
      | Inl e \<Rightarrow> (case NewNoop s of Inr t \<Rightarrow> Some t | Inl e' \<Rightarrow> None))"

definition math_config :: "string \<Rightarrow> tel_config" where
  "math_config name =
     \<lparr>ServiceName = name, ServiceVersion = ''1.0.0'', Environment = ''development'', OTLPEndpoint = [],
      TraceWriter = Some (Writer 0), MetricWriter = Some (Writer 1), Debug = True, Enabled = True\<rparr>"

record ('f, 'x, 'u) math_program =
  mp_server :: "(json_world, 'f math_value, 'x, 'u) json_server"
  mp_telemetry :: "telemetry option"
  mp_globals :: otel_globals
  mp_calls :: "adapter_call list"

definition math_json_server ::
  "((json_world, 'f math_value, 'x, 'u) server \<Rightarrow> (json_world, 'f math_value, 'x, 'u) server) \<Rightarrow>
   string \<Rightarrow> int \<Rightarrow> (json_world, 'f math_value, 'x, 'u) json_server \<times> adapter_call list" where
  "math_json_server registration uuid numCPU =
     (case json_NewServer uuid numCPU ''math'' ''server-01'' [] of
        (srv, calls) \<Rightarrow> (srv\<lparr>jsv_Server := registration (jsv_Server srv)\<rparr>, calls))"

definition server_main ::
  "'f float_ops \<Rightarrow> string \<Rightarrow> int \<Rightarrow> sdk \<Rightarrow> otel_globals \<Rightarrow> gerror option \<Rightarrow> gerror option \<Rightarrow> gerror option \<Rightarrow>
   string + ('f, 'x, 'u) math_program" where
  "server_main fl uuid numCPU s g broker traceFile metricFile =
     (case broker of
        Some e \<Rightarrow> Inl (''Failed to create MQTT client: '' @ error_text e)
      | None \<Rightarrow>
          (case traceFile of
             Some e \<Rightarrow> Inl (''Failed to open trace file: '' @ error_text e)
           | None \<Rightarrow>
               (case metricFile of
                  Some e \<Rightarrow> Inl (''Failed to open metric file: '' @ error_text e)
                | None \<Rightarrow>
                    (case (math_json_server (registerMathOperations fl) uuid numCPU, tel_New s (math_config ''math-server'') g) of
                       ((srv, calls), (g', r)) \<Rightarrow>
                         Inr \<lparr>mp_server = srv, mp_telemetry = telemetry_or_noop s r, mp_globals = g',
                              mp_calls = calls\<rparr>))))"

definition server_with_env_main ::
  "'f float_ops \<Rightarrow> string \<Rightarrow> int \<Rightarrow> sdk \<Rightarrow> (string \<Rightarrow> string) \<Rightarrow> otel_globals \<Rightarrow> gerror option \<Rightarrow>
   string + ('f, 'x, 'u) math_program" where
  "server_with_env_main fl uuid numCPU s getenv g broker =
     (case broker of
        Some e \<Rightarrow> Inl (''Failed to create MQTT client: '' @ error_text e)
      | None \<Rightarrow>
          (case (math_json_server (env_registerMathOperations fl) uuid numCPU, NewFromEnv s getenv ''math-server'' ''1.0.0'' g) of
             ((srv, calls), (g', r)) \<Rightarrow>
               (case telemetry_or_noop s r of
                  None \<Rightarrow> Inl nil_deref
                | Some t \<Rightarrow> Inr \<lparr>mp_server = srv, mp_telemetry = Some t, mp_globals = g', mp_calls = calls\<rparr>)))"

text \<open>
  What a signal does in the second program: an enabled telemetry is shut down (the list says which of
  its providers were).  The first program shuts nothing down.
\<close>

definition env_on_signal :: "gerror option \<Rightarrow> gerror option \<Rightarrow> telemetry \<Rightarrow> bool list \<times> gerror option" where
  "env_on_signal tp_result mp_result t =
     (if IsEnabled t then Shutdown tp_result mp_result t else ([], None))"

text \<open>
  The fallback is nil exactly when the resource or an instrument can not be made: then the no-op
  instance can not be made either.
\<close>

lemma nil_telemetry_iff:
  "telemetry_or_noop s (snd (tel_New s (math_config nm) g)) = None \<longleftrightarrow>
     sdk_resource s \<noteq> None \<or> sdk_histogram s \<noteq> None \<or> sdk_counter s \<noteq> None"
  by (auto simp: telemetry_or_noop_def tel_New_def math_config_def NewNoop_def Let_def split: option.splits)

section \<open>The client program\<close>

text \<open>The calls of the client, in order, each made whatever became of the one before.\<close>

definition client_calls :: "'f float_ops \<Rightarrow> (string \<times> 'f math_value) list" where
  "client_calls fl =
     [(''add'', MathRequest (fl_of_int fl 5) (fl_of_int fl 3)),
      (''multiply'', MathRequest (fl_of_int fl 4) (fl_of_int fl 6)),
      (''divide'', MathRequest (fl_of_int fl 10) (fl_of_int fl 0)),
      (''subtract'', MathRequest (fl_of_int fl 10) (fl_of_int fl 3))]"

definition client_main ::
  "sdk \<Rightarrow> otel_globals \<Rightarrow> gerror option \<Rightarrow> gerror option \<Rightarrow> gerror option \<Rightarrow>
   string + json_client \<times> adapter_call list \<times> telemetry option \<times> otel_globals" where
  "client_main s g broker traceFile metricFile =
     (case broker of
        Some e \<Rightarrow> Inl (''Failed to create MQTT client: '' @ error_text e)
      | None \<Rightarrow>
          (case traceFile of
             Some e \<Rightarrow> Inl (''Failed to open trace file: '' @ error_text e)
           | None \<Rightarrow>
               (case metricFile of
                  Some e \<Rightarrow> Inl (''Failed to open metric file: '' @ error_text e)
                | None \<Rightarrow>
                    (case (json_NewClient ''math'', tel_New s (math_config ''math-client'') g) of
                       ((cl, calls), (g', r)) \<Rightarrow> Inr (cl, calls, telemetry_or_noop s r, g')))))"

definition client_call ::
  "'f float_ops \<Rightarrow> 'f math_value json_env \<Rightarrow> ('x \<Rightarrow> (string \<rightharpoonup> string) \<Rightarrow> (string \<rightharpoonup> string)) \<Rightarrow>
   ('x \<Rightarrow> (string \<rightharpoonup> string) \<Rightarrow> 'x) \<Rightarrow> string \<Rightarrow> string \<Rightarrow> string \<times> 'f math_value \<Rightarrow> json_ending \<Rightarrow>
   message list \<times> 'f math_value json_result" where
  "client_call fl env inject extract serverID rid c ending =
     json_Call env inject extract (fst (json_NewClient ''math'')) serverID rid (fst c) (snd c)
       (MathResponse (fl_zero fl)) ending"

section \<open>What the server computes\<close>

text \<open>
  The result of a call for numbers that have a literal: the operation's value when it has one too,
  an error for a division by zero, and otherwise success with the reply untouched.
\<close>

definition math_op :: "'f float_ops \<Rightarrow> string \<Rightarrow> ('f \<Rightarrow> 'f \<Rightarrow> 'f) option" where
  "math_op fl meth =
     (if meth = ''add'' then Some (fl_add fl) else if meth = ''subtract'' then Some (fl_sub fl)
      else if meth = ''multiply'' then Some (fl_mul fl) else if meth = ''divide'' then Some (fl_div fl) else None)"

definition math_result ::
  "'f float_ops \<Rightarrow> string \<Rightarrow> ('f \<Rightarrow> 'f \<Rightarrow> 'f) \<Rightarrow> 'f \<Rightarrow> 'f \<Rightarrow> 'f math_value \<Rightarrow> 'f math_value json_result" where
  "math_result fl meth g a b reply =
     (if meth = ''divide'' \<and> fl_eq fl b (fl_zero fl) then (Some (ServerError ''division by zero''), reply)
      else (None, case fl_print fl (g a b) of Inl e \<Rightarrow> reply | Inr l \<Rightarrow> MathResponse (g a b)))"

text \<open>A literal that was written is read back; the law of \<open>strconv\<close>'s shortest format.\<close>

definition lawful_floats :: "'f float_ops \<Rightarrow> bool" where
  "lawful_floats fl \<longleftrightarrow> (\<forall>x l. fl_print fl x = Inr l \<longrightarrow> fl_parse fl l = Some x)"

lemma fold_names_math [simp]: "fold_name ''a'' = ''a''" "fold_name ''b'' = ''b''" "fold_name ''result'' = ''result''"
  by (simp_all add: fold_name_def lower_def)

lemma math_round_trip:
  assumes "lawful_floats fl" and "math_Marshal fl v = Inr j" and "is_MathRequest v = is_MathRequest v0"
  shows "math_Unmarshal fl mm j v0 = (v, None)"
  using assms
  by (cases v; cases v0)
    (auto simp: lawful_floats_def print_member_def split: sum.splits)

definition math_fun :: "'f float_ops \<Rightarrow> string \<Rightarrow> 'f \<Rightarrow> 'f \<Rightarrow> 'f math_value response" where
  "math_fun fl meth =
     (if meth = ''add'' then math_add fl else if meth = ''subtract'' then math_subtract fl
      else if meth = ''multiply'' then math_multiply fl else math_divide fl)"

lemma math_registered:
  "math_op fl meth = Some g \<Longrightarrow>
     handlerMap (registerMathOperations fl srv) meth = Some (Some (math_handler (math_fun fl meth)))"
  by (auto simp: math_op_def registerMathOperations_def Register_def math_fun_def split: if_splits)

lemma math_fun_result:
  "math_op fl meth = Some g \<Longrightarrow>
     math_fun fl meth a b =
       (if meth = ''divide'' \<and> fl_eq fl b (fl_zero fl) then error_response 400 (Some division_by_zero)
        else math_ok (g a b))"
  by (auto simp: math_op_def math_fun_def math_add_def math_subtract_def math_multiply_def math_divide_def
      RPCStatusClientError_def split: if_splits)

text \<open>The answer on the wire.\<close>

definition math_wire :: "'f float_ops \<Rightarrow> string \<Rightarrow> ('f \<Rightarrow> 'f \<Rightarrow> 'f) \<Rightarrow> 'f \<Rightarrow> 'f \<Rightarrow> json_response" where
  "math_wire fl meth g a b =
     (if meth = ''divide'' \<and> fl_eq fl b (fl_zero fl) then json_error_answer meth 400 ''division by zero''
      else json_ok_answer meth (Some (case fl_print fl (g a b) of
             Inl e \<Rightarrow> JNull | Inr l \<Rightarrow> JObject [(''result'', JNumber l)])))"

lemma math_env_simps [simp]:
  "je_Marshal (math_env fl validate tx) = math_Marshal fl"
  "je_Unmarshal (math_env fl validate tx) = math_Unmarshal fl (je_mismatch tx)"
  "je_Struct (math_env fl validate tx) = validate"
  "je_zero (math_env fl validate tx) request_type = MathRequest (fl_zero fl) (fl_zero fl)"
  by (simp_all add: math_env_def)

lemma math_response:
  assumes "math_op fl meth = Some g"
  shows "(let rs = js_Response (json_response_for (math_env fl validate tx)
             \<lparr>jd_Topic = tp, jd_Request = json_call_request meth ja\<rparr> (on_request (math_fun fl meth) (MathRequest a b)))
          in rs\<lparr>jr_Data := Some (encode_raw (jr_Data rs))\<rparr> = math_wire fl meth g a b \<and> jr_Status rs \<in> {200, 400})"
  using math_fun_result [OF assms, of a b]
  by (cases "fl_print fl (g a b)")
    (auto simp: on_request_def math_wire_def math_ok_def json_answers division_by_zero_def
      json_ok_answer_def json_error_answer_def encode_raw_def print_member_def Let_def)

lemma math_wire_result:
  assumes "lawful_floats fl"
  shows "json_answer_result (math_env fl validate tx) (MathResponse (fl_zero fl)) (math_wire fl meth g a b) =
     math_result fl meth g a b (MathResponse (fl_zero fl))"
  using assms
  by (auto simp: json_answer_result_def math_wire_def math_result_def json_ok_answer_def json_error_answer_def
      RPCStatusOK_def encode_raw_def lawful_floats_def split: sum.split)

lemma math_topic: "word_free (topic_levels ''math'' ''server-01'')"
  by (simp add: topic_levels_def topic_buf_def join_step_def is_rooted_def clean_segments_def clean_step_def
      word_free_def request_word_def sublist_Cons_right)

lemma env_registration: "env_registerMathOperations = registerMathOperations"
  by (intro ext) (simp add: env_registerMathOperations_def registerMathOperations_def)

lemma server_main_server:
  assumes "server_main fl uuid numCPU s gl None None None = Inr prog
    \<or> server_with_env_main fl uuid numCPU s getenv gl None = Inr prog"
  shows "jsv_Server (mp_server prog) = registerMathOperations fl (NewServer uuid numCPU [])"
  using assms
  by (auto simp: server_main_def server_with_env_main_def math_json_server_def json_NewServer_def
      env_registration Let_def split: prod.splits option.splits)

lemma server_main_starts: "\<exists>prog. server_main fl uuid numCPU s gl None None None = Inr prog"
  by (simp add: server_main_def split: prod.split)

lemma math_admits: "admits (registerMathOperations fl (NewServer uuid numCPU [])) True wait"
  by (simp add: admits_def registerMathOperations_def Register_def NewServer_def default_options_def Let_def)

text \<open>
  C26. The example computes: a call of the example client to either example server, for numbers that
  have a literal, is received, dispatched to the operation, answered where the client listens, and
  returns what the operation makes of the numbers.  A division by zero is the error that the
  handler replies; a result that has no literal, an overflow to infinity, is reported as success with
  the client's zero.
\<close>

theorem math_example_computes:
  fixes fl :: "'f float_ops" and tx :: "'v json_env"
    and prog :: "('f, 'x, 'u) math_program" and background :: 'x
  assumes law: "lawful_floats fl" and op: "math_op fl meth = Some g"
    and a: "fl_print fl a = Inr la" and b: "fl_print fl b = Inr lb"
    and valid: "validate (MathRequest a b) = None"
    and sent: "carries (math_env fl validate tx)
        (encode_request (json_call_request meth (JObject [(''a'', JNumber la), (''b'', JNumber lb)])))"
    and answer: "carries (math_env fl validate tx) (encode_response (math_wire fl meth g a b))"
    and topic: "plain_segment rid" "\<not> sublist request_word rid"
    and started: "server_main fl uuid numCPU s gl None None None = Inr prog
        \<or> server_with_env_main fl uuid numCPU s getenv gl None = Inr prog"
  shows "\<exists>child n st fx ans.
      json_receive (math_env fl validate tx) extr background
        (hd (fst (client_call fl (math_env fl validate tx) inject extract ''server-01'' rid (meth, MathRequest a b)
          (JCtxDone ErrTimeout)))) w = (w, Some child)
    \<and> call_run (jsv_Server (mp_server prog)) child elapsed (replicate n WorkerStep @ [MainStep])
        (call_start (jsv_Server (mp_server prog)) child True wait w) = Some st
    \<and> pc st = Returned fx \<and> world (sh st) = w @ [ans]
    \<and> m_Topic ans = json_response_topic (fst (json_NewClient ''math'')) ''server-01'' rid
    \<and> snd (client_call fl (math_env fl validate tx) inject extract ''server-01'' rid (meth, MathRequest a b)
          (JAnswered (m_Payload ans))) = math_result fl meth g a b (MathResponse (fl_zero fl))"
proof -
  let ?env = "math_env fl validate tx" and ?cl = "fst (json_NewClient ''math'')"
  let ?ja = "JObject [(''a'', JNumber la), (''b'', JNumber lb)]"
  have marshal: "je_Marshal ?env (MathRequest a b) = Inr ?ja"
    using a b by (simp add: print_member_def)
  have bound: "je_Unmarshal ?env ?ja (je_zero ?env request_type) = (MathRequest a b, None)"
    using math_round_trip [OF law, where v = "MathRequest a b" and j = ?ja and mm = "je_mismatch tx"
        and ?v0.0 = "MathRequest (fl_zero fl) (fl_zero fl)"] marshal
    by (simp del: math_Unmarshal.simps math_Marshal.simps)
  have dev: "word_free (topic_levels (jcl_topicPrefix ?cl) ''server-01'')"
    using math_topic by (simp add: json_NewClient_def)
  note srv = server_main_server [OF started]
  note rsp = math_response [OF op, of validate tx "json_request_topic ?cl ''server-01'' rid" ?ja a b, unfolded Let_def]
  show ?thesis
    unfolding client_call_def srv fst_conv snd_conv
    by (rule json_end_to_end [where f = "on_request (math_fun fl meth)" and bad = invalid_request,
          OF marshal bound _ sent topic(1) dev topic(2) math_admits _ HOL.refl])
      (use rsp answer math_wire_result [OF law, of validate tx meth g a b] valid math_registered [OF op] in
        \<open>auto simp: math_handler_def\<close>)
qed

text \<open>Integers of 64 bits as the numbers of the example.\<close>

definition int_floats :: "int float_ops" where
  "int_floats =
     \<lparr>fl_zero = 0, fl_of_int = (\<lambda>i. i), fl_add = (+), fl_sub = (-), fl_mul = (*), fl_div = (div), fl_eq = (=),
      fl_print = (\<lambda>i. if - (2 ^ 63) \<le> i \<and> i < 2 ^ 63 then Inr (format_int i) else Inl (ExtErr ''json: unsupported value'')),
      fl_parse = ParseInt\<rparr>"

lemma int_floats_lawful: "lawful_floats int_floats"
  by (auto simp: lawful_floats_def int_floats_def ParseInt_format split: if_splits)

definition math_texts :: "string json_env" where
  "math_texts = table_json
     [encode_request (json_call_request ''add'' (JObject [(''a'', JNumber ''5''), (''b'', JNumber ''3'')])),
      encode_response (math_wire int_floats ''add'' (+) 5 3)]"

lemma math_texts_carry:
  "carries (math_env int_floats v math_texts)
     (encode_request (json_call_request ''add'' (JObject [(''a'', JNumber ''5''), (''b'', JNumber ''3'')])))"
  "carries (math_env int_floats v math_texts) (encode_response (math_wire int_floats ''add'' (+) 5 3))"
  by (simp_all add: carries_def math_env_def math_texts_def table_json_def encode_request_def encode_response_def
      encode_metadata_def json_call_request_def math_wire_def json_ok_answer_def)

theorem math_example_computes_witness:
  "\<exists>ans :: message. m_Topic ans = json_response_topic (fst (json_NewClient ''math'')) ''server-01'' ''1''
    \<and> snd (client_call int_floats (math_env int_floats (\<lambda>v. None) math_texts) (\<lambda>(x :: string) kv. kv) (\<lambda>x kv. x)
        ''server-01'' ''1'' (''add'', MathRequest 5 3) (JAnswered (m_Payload ans))) = (None, MathResponse 8)"
proof -
  have lits: "fl_print int_floats 5 = Inr ''5''" "fl_print int_floats 3 = Inr ''3''"
    by (simp_all add: int_floats_def; code_simp)+
  have op: "math_op int_floats ''add'' = Some (+)" by (simp add: math_op_def int_floats_def)
  obtain prog :: "(int, string, unit) math_program" where started:
    "server_main int_floats ''s'' 4 \<lparr>sdk_resource = None, sdk_trace_exporter = None, sdk_metric_exporter = None,
       sdk_histogram = None, sdk_counter = None\<rparr> \<lparr>g_tracer = None, g_propagator = False, g_meter = None\<rparr> None None None = Inr prog"
    using server_main_starts by blast
  have one: "plain_segment ''1''" "\<not> sublist request_word ''1''" using hi_topic by simp_all
  have result: "math_result int_floats ''add'' (+) 5 3 (MathResponse (fl_zero int_floats)) = (None, MathResponse 8)"
    by (simp add: math_result_def int_floats_def)
  from math_example_computes [OF int_floats_lawful op lits HOL.refl math_texts_carry one disjI1 [OF started],
      of "\<lambda>kv. ''x''" "''x''" "\<lambda>(x :: string) kv. kv" "\<lambda>x kv. x" "[]" 0 None]
  show ?thesis unfolding result by blast
qed

end
