(* ===== verification/Adapter_Options.thy ===== *)
theory Adapter_Options
  imports Go_Std
begin

text \<open>
  The options of the broker adapter (\<open>mqttadapter/options.go\<close>).  An option is a function on
  \<open>ClientOptions\<close>, whose embedded options of the broker client are an object outside the
  repository: it is kept as the list of what was set on it, in order.  Objects of other packages
  that are only passed on (a store, a TLS configuration) are named by numbers.
\<close>

type_synonym duration = int
type_synonym foreign = nat

datatype store = UserStore foreign | FileStore string

datatype paho_setting =
    AddBroker string
  | SetClientID string
  | SetKeepAlive duration
  | SetDefaultPublishHandler
  | SetAutoReconnect bool
  | SetOnConnectHandler
  | SetConnectionLostHandler
  | SetUsername string
  | SetPassword string
  | SetConnectRetry bool
  | SetConnectRetryInterval duration
  | SetProtocolVersion nat
  | SetStore store
  | SetTLSConfig foreign
  | SetWill string string byte bool
  | SetBinaryWill string bytes byte bool
  | WillQos byte
  | SetMaxReconnectInterval duration

record client_options =
  co_ClientOptions :: "paho_setting list"
  co_enableStatus :: bool
  co_enableDebug :: bool
  co_onlineTopic :: string
  co_onlinePayload :: bytes

type_synonym client_option = "client_options \<Rightarrow> client_options"

definition set_paho :: "paho_setting list \<Rightarrow> client_option" where
  "set_paho xs o1 = o1\<lparr>co_ClientOptions := co_ClientOptions o1 @ xs\<rparr>"

definition new_options :: "paho_setting list \<Rightarrow> client_options" where
  "new_options xs =
     \<lparr>co_ClientOptions = xs, co_enableStatus = False, co_enableDebug = False,
      co_onlineTopic = [], co_onlinePayload = []\<rparr>"

section \<open>The options\<close>

definition WithDebug :: "bool \<Rightarrow> client_option" where
  "WithDebug debug o1 = o1\<lparr>co_enableDebug := debug\<rparr>"

definition WithUserPass :: "string \<Rightarrow> string \<Rightarrow> client_option" where
  "WithUserPass user pass = set_paho [SetUsername user, SetPassword pass]"

definition WithClientID :: "string \<Rightarrow> client_option" where
  "WithClientID clientID = set_paho [SetClientID clientID]"

definition WithKeepAlive :: "duration \<Rightarrow> client_option" where
  "WithKeepAlive keepalive = set_paho [SetKeepAlive keepalive]"

definition WithConnectRetryInterval :: "duration \<Rightarrow> client_option" where
  "WithConnectRetryInterval d = set_paho [SetConnectRetry True, SetConnectRetryInterval d]"

definition WithProtocolVersion :: "nat \<Rightarrow> client_option" where
  "WithProtocolVersion pv = set_paho [SetProtocolVersion pv]"

definition WithStore :: "foreign \<Rightarrow> client_option" where
  "WithStore st = set_paho [SetStore (UserStore st)]"

definition WithTlsConfig :: "foreign \<Rightarrow> client_option" where
  "WithTlsConfig cfg = set_paho [SetTLSConfig cfg]"

definition WithWill :: "string \<Rightarrow> string \<Rightarrow> byte \<Rightarrow> bool \<Rightarrow> client_option" where
  "WithWill topic payload qos retained = set_paho [SetWill topic payload qos retained]"

definition WithOfflineWill :: "string \<Rightarrow> string \<Rightarrow> client_option" where
  "WithOfflineWill topic payload = set_paho [SetWill topic payload 1 True]"

definition WithOnlineStatus :: "string \<Rightarrow> bytes \<Rightarrow> client_option" where
  "WithOnlineStatus topic payload o1 = o1\<lparr>co_onlineTopic := topic, co_onlinePayload := payload\<rparr>"

definition WithStatus :: "string \<Rightarrow> bytes \<Rightarrow> string \<Rightarrow> bytes \<Rightarrow> client_option" where
  "WithStatus onlineTopic onlinePayload offlineTopic offlinePayload o1 =
     set_paho [SetBinaryWill offlineTopic offlinePayload 1 True]
       (o1\<lparr>co_enableStatus := True, co_onlineTopic := onlineTopic, co_onlinePayload := onlinePayload\<rparr>)"

text \<open>
  The directory of temporary files and the number drawn for an empty name are arguments; the number
  is below 100000.
\<close>

definition WithFileStore :: "string \<Rightarrow> nat \<Rightarrow> string \<Rightarrow> client_option" where
  "WithFileStore os_TempDir drawn tempDir =
     set_paho [SetStore (FileStore
       (os_TempDir @ ''/'' @ (if tempDir = [] then format_uint drawn else tempDir)))]"

definition WithQos :: "byte \<Rightarrow> client_option" where
  "WithQos qos = set_paho [WillQos qos]"

definition WithMaxReconnectInterval :: "duration \<Rightarrow> client_option" where
  "WithMaxReconnectInterval interval = set_paho [SetMaxReconnectInterval interval]"

lemmas option_defs = set_paho_def WithDebug_def WithUserPass_def WithClientID_def WithKeepAlive_def
  WithConnectRetryInterval_def WithProtocolVersion_def WithStore_def WithTlsConfig_def WithWill_def
  WithOfflineWill_def WithOnlineStatus_def WithStatus_def WithFileStore_def WithQos_def
  WithMaxReconnectInterval_def

section \<open>Options as data\<close>

text \<open>
  The options a program can write, and the application of a list of them in order, as
  \<open>New\<close> does it.
\<close>

datatype option_call =
    ODebug bool
  | OUserPass string string
  | OClientID string
  | OKeepAlive duration
  | OConnectRetryInterval duration
  | OProtocolVersion nat
  | OStore foreign
  | OTlsConfig foreign
  | OWill string string byte bool
  | OOfflineWill string string
  | OOnlineStatus string bytes
  | OStatus string bytes string bytes
  | OFileStore string nat string
  | OQos byte
  | OMaxReconnectInterval duration

fun option_of :: "option_call \<Rightarrow> client_option" where
  "option_of (ODebug d) = WithDebug d"
| "option_of (OUserPass u p) = WithUserPass u p"
| "option_of (OClientID i) = WithClientID i"
| "option_of (OKeepAlive k) = WithKeepAlive k"
| "option_of (OConnectRetryInterval d) = WithConnectRetryInterval d"
| "option_of (OProtocolVersion v) = WithProtocolVersion v"
| "option_of (OStore s) = WithStore s"
| "option_of (OTlsConfig c) = WithTlsConfig c"
| "option_of (OWill t p q r) = WithWill t p q r"
| "option_of (OOfflineWill t p) = WithOfflineWill t p"
| "option_of (OOnlineStatus t p) = WithOnlineStatus t p"
| "option_of (OStatus t p t2 p2) = WithStatus t p t2 p2"
| "option_of (OFileStore dir n t) = WithFileStore dir n t"
| "option_of (OQos q) = WithQos q"
| "option_of (OMaxReconnectInterval i) = WithMaxReconnectInterval i"

definition apply_options :: "option_call list \<Rightarrow> client_options \<Rightarrow> client_options" where
  "apply_options os o1 = fold option_of os o1"

text \<open>Only \<open>WithStatus\<close> turns the announcement on, and nothing turns it off.\<close>

fun enables_status :: "option_call \<Rightarrow> bool" where
  "enables_status (OStatus t p t2 p2) = True"
| "enables_status _ = False"

text \<open>What an option says about the announcement, and the last one that says something.\<close>

fun announcement :: "option_call \<Rightarrow> (string \<times> bytes) option" where
  "announcement (OOnlineStatus t p) = Some (t, p)"
| "announcement (OStatus t p t2 p2) = Some (t, p)"
| "announcement _ = None"

definition last_announcement :: "option_call list \<Rightarrow> string \<times> bytes" where
  "last_announcement os = (case List.map_filter announcement (rev os) of [] \<Rightarrow> ([], []) | a # _ \<Rightarrow> a)"

lemma option_of_status:
  "co_enableStatus (option_of oc o1) \<longleftrightarrow> enables_status oc \<or> co_enableStatus o1"
  by (cases oc) (simp_all add: option_defs)

lemma option_of_announcement:
  "(co_onlineTopic (option_of oc o1), co_onlinePayload (option_of oc o1))
   = (case announcement oc of None \<Rightarrow> (co_onlineTopic o1, co_onlinePayload o1) | Some a \<Rightarrow> a)"
  by (cases oc) (simp_all add: option_defs)

lemma apply_options_status:
  "co_enableStatus (apply_options os o1) \<longleftrightarrow> (\<exists>oc \<in> set os. enables_status oc) \<or> co_enableStatus o1"
  unfolding apply_options_def
  by (induction os arbitrary: o1) (auto simp: option_of_status)

lemma last_announcement_snoc:
  "last_announcement (os @ [oc]) =
     (case announcement oc of None \<Rightarrow> last_announcement os | Some a \<Rightarrow> a)"
  by (simp add: last_announcement_def map_filter_simps split: option.splits)

lemma apply_options_announcement:
  "(co_onlineTopic (apply_options os (new_options xs)),
    co_onlinePayload (apply_options os (new_options xs))) = last_announcement os"
proof (induction os rule: rev_induct)
  case Nil
  show ?case by (simp add: apply_options_def new_options_def last_announcement_def map_filter_simps)
next
  case (snoc oc os)
  then show ?case
    using option_of_announcement [of oc "apply_options os (new_options xs)"]
    by (simp add: apply_options_def last_announcement_snoc split: option.splits)
qed

end
