(* ===== verification/Callback_Registry.thy ===== *)
theory Callback_Registry
  imports Prelude
begin

text \<open>
  The interface of a registry of callbacks, as the broker adapter keeps two of them: registering
  hands out the next index, a machine integer, and an index removes its callback.  The abstract
  registry is the list of all callbacks ever registered, in order, with those removed left out.
\<close>

datatype 'cb registry_op = Register 'cb | Off "64 word"

fun abs_step :: "'cb registry_op \<Rightarrow> 'cb option list \<Rightarrow> 'cb option list" where
  "abs_step (Register cb) L = L @ [Some cb]"
| "abs_step (Off i) L = L[unat i := None]"

primrec is_register :: "'cb registry_op \<Rightarrow> bool" where
  "is_register (Register cb) = True"
| "is_register (Off i) = False"

definition abs_run :: "'cb registry_op list \<Rightarrow> 'cb option list" where
  "abs_run ops = fold abs_step ops []"

lemma length_abs_step:
  "length (abs_step op1 L) = (if is_register op1 then Suc (length L) else length L)"
  by (cases op1) simp_all

lemma abs_run_snoc: "abs_run (ops @ [op1]) = abs_step op1 (abs_run ops)"
  by (simp add: abs_run_def)

lemma length_abs_run: "length (abs_run ops) = length (filter is_register ops)"
  by (induction ops rule: rev_induct) (simp_all add: abs_run_snoc length_abs_step abs_run_def [of "[]"])

locale callback_registry =
  fixes register :: "'cb \<Rightarrow> 's \<Rightarrow> 64 word \<times> 's"
    and off :: "64 word \<Rightarrow> 's \<Rightarrow> 's"
    and registered :: "'s \<Rightarrow> 64 word \<Rightarrow> 'cb option"
    and used :: "'s \<Rightarrow> 64 word"
  assumes register_index: "fst (register cb s) = used s"
    and registered_register: "registered (snd (register cb s)) = (registered s)(used s \<mapsto> cb)"
    and used_register: "used (snd (register cb s)) = used s + 1"
    and registered_off: "registered (off i s) = (registered s)(i := None)"
    and used_off: "used (off i s) = used s"
begin

primrec step :: "'cb registry_op \<Rightarrow> 's \<Rightarrow> 's" where
  "step (Register cb) s = snd (register cb s)"
| "step (Off i) s = off i s"

definition run :: "'cb registry_op list \<Rightarrow> 's \<Rightarrow> 's" where
  "run ops s = fold step ops s"

definition represents :: "'cb option list \<Rightarrow> 's \<Rightarrow> bool" where
  "represents L s \<longleftrightarrow>
     used s = of_nat (length L)
   \<and> (\<forall>i. registered s i = (if unat i < length L then L ! unat i else None))"

lemma representsD:
  "represents L s \<Longrightarrow> registered s i = (if unat i < length L then L ! unat i else None)"
  by (simp add: represents_def)

lemma unat_length: "length L < 2 ^ 64 \<Longrightarrow> unat (of_nat (length L) :: 64 word) = length L"
  by (simp add: unat_of_nat)

lemma next_index:
  "represents L s \<Longrightarrow> length L < 2 ^ 64 \<Longrightarrow> unat (fst (register cb s)) = length L"
  by (simp add: register_index represents_def unat_length)

lemma fresh_index:
  "represents L s \<Longrightarrow> length L < 2 ^ 64 \<Longrightarrow> registered s (fst (register cb s)) = None"
  using next_index [of L s cb] by (simp add: representsD)

lemma index_eq: "length L < 2 ^ 64 \<Longrightarrow> i = of_nat (length L) \<longleftrightarrow> unat (i :: 64 word) = length L"
  by (metis unat_length word_eq_iff_unsigned)

lemma represents_register:
  assumes "represents L s" and "length L < 2 ^ 64"
  shows "represents (L @ [Some cb]) (snd (register cb s))"
  unfolding represents_def
proof (intro conjI allI)
  show "used (snd (register cb s)) = of_nat (length (L @ [Some cb]))"
    using assms(1) by (simp add: used_register represents_def)
  fix i
  show "registered (snd (register cb s)) i
      = (if unat i < length (L @ [Some cb]) then (L @ [Some cb]) ! unat i else None)"
    using assms index_eq [OF assms(2), of i]
    by (auto simp: registered_register represents_def nth_append less_Suc_eq)
qed

lemma represents_off: "represents L s \<Longrightarrow> represents (L[unat i := None]) (off i s)"
proof -
  assume repr: "represents L s"
  have "(if unat j < length L then L[unat i := None] ! unat j else None) = registered (off i s) j" for j
  proof (cases "j = i")
    case False
    then have "unat i \<noteq> unat j" by (metis word_eq_iff_unsigned)
    with False show ?thesis by (simp add: registered_off representsD [OF repr])
  qed (simp add: registered_off)
  with repr show ?thesis by (simp add: represents_def used_off)
qed

lemma represents_step:
  "represents L s \<Longrightarrow> length (abs_step op1 L) \<le> 2 ^ 64 \<Longrightarrow> represents (abs_step op1 L) (step op1 s)"
  by (cases op1) (simp_all add: represents_register represents_off)

lemma represents_run:
  assumes "represents [] s" and "length (filter is_register ops) \<le> 2 ^ 64"
  shows "represents (abs_run ops) (run ops s)"
  using assms(2)
proof (induction ops rule: rev_induct)
  case Nil
  with assms(1) show ?case by (simp add: run_def abs_run_def)
next
  case (snoc op1 ops)
  then have "represents (abs_run ops) (run ops s)" by (auto split: if_splits)
  moreover have "length (abs_step op1 (abs_run ops)) \<le> 2 ^ 64"
    using snoc.prems length_abs_run [of "ops @ [op1]"] by (simp add: abs_run_snoc)
  ultimately show ?case
    by (simp add: abs_run_snoc run_def represents_step)
qed

text \<open>
  Histories: every registration before the machine integer wraps around gets the number of
  registrations before it as its index, and what is stored is what the abstract registry has.
\<close>

lemma run_index:
  assumes "represents [] s" and "length (filter is_register ops) < 2 ^ 64"
  shows "unat (fst (register cb (run ops s))) = length (filter is_register ops)"
  using next_index [OF represents_run [OF assms(1)], of ops cb] assms(2)
  by (simp add: length_abs_run)

lemma run_registered:
  assumes "represents [] s" and "length (filter is_register ops) \<le> 2 ^ 64"
  shows "registered (run ops s) i
    = (if unat i < length (abs_run ops) then abs_run ops ! unat i else None)"
  by (rule representsD [OF represents_run [OF assms]])

text \<open>One registration more, and the first index is handed out again.\<close>

lemma run_wraps:
  assumes "represents [] s" and "length (filter is_register ops) = 2 ^ 64"
  shows "fst (register cb (run ops s)) = 0"
proof -
  have "(of_nat (2 ^ 64) :: 64 word) = 0" by simp
  then show ?thesis
    using represents_run [OF assms(1), of ops] assms(2)
    by (simp add: register_index represents_def length_abs_run)
qed

end

end
