(* ===== verification/Mqtt_Adapter.thy ===== *)
theory Mqtt_Adapter
  imports Broker Adapter_Options Callback_Registry
begin

text \<open>
  The adapter over the MQTT client library (\<open>mqttadapter/mqtt.go\<close>): the callbacks for
  connections and lost connections, connecting with retries, the record of subscribed topics, and
  publishing.

  The library's client is outside the repository.  What the adapter calls on it is logged, in
  order, and what it answers is an argument of the operation: whether it is connected, and how
  waiting for one of its tokens ended.
\<close>

section \<open>State\<close>

text \<open>
  Callbacks that are registered: the announcement that \<open>New\<close> registers, a function of the
  caller, and the wrapper that \<open>OnConnectOnce\<close> and \<open>OnConnectLostOnce\<close> put around one:
  it captures a variable \<open>subID\<close>, named by its position among all captured variables.
\<close>

datatype 'f on_connect_callback = Announce | UserConnect 'f | OnceConnect nat 'f

datatype 'f on_lost_callback = UserLost 'f | OnceLost nat 'f

datatype paho_call =
    PahoConnect
  | PahoDisconnect nat
  | PahoSubscribe string byte
  | PahoSubscribeMultiple "string \<Rightarrow> byte option"
  | PahoUnsubscribe "string list"
  | PahoPublish message

text \<open>
  The fields of \<open>MQTTClientAdapterImpl\<close>; then the captured variables, and the calls of user
  functions, those for lost connections with their error.
\<close>

record 'f adapter =
  ad_client :: "paho_call list"
  ad_clientOptions :: client_options
  ad_subscribeMap :: "string set"
  ad_onConnectCallbakCount :: "64 word"
  ad_onConnectCallbaks :: "64 word \<Rightarrow> 'f on_connect_callback option"
  ad_onConnectLostCallbakCount :: "64 word"
  ad_onConnectLostCallbaks :: "64 word \<Rightarrow> 'f on_lost_callback option"
  ad_stopRetryConnect :: bool
  ad_printableURL :: string
  ad_subIDs :: "64 word list"
  ad_called :: "'f list"
  ad_calledLost :: "('f \<times> gerror) list"

text \<open>The select that waits for a token: the context ended first, or the token is done.\<close>

datatype wait = CtxDone gerror | TokenDone "gerror option"

fun await :: "wait \<Rightarrow> gerror option" where
  "await (CtxDone e) = Some e"
| "await (TokenDone r) = r"

definition paho :: "paho_call \<Rightarrow> 'f adapter \<Rightarrow> 'f adapter" where
  "paho c s = s\<lparr>ad_client := ad_client s @ [c]\<rparr>"

section \<open>Publishing\<close>

definition PublishBytes :: "string \<Rightarrow> byte \<Rightarrow> bool \<Rightarrow> bytes \<Rightarrow> 'f adapter \<Rightarrow> 'f adapter" where
  "PublishBytes topic qos retained data =
     paho (PahoPublish \<lparr>m_Topic = topic, m_QoS = qos, m_Retained = retained, m_Payload = data\<rparr>)"

definition PublishBytesWait ::
  "wait \<Rightarrow> string \<Rightarrow> byte \<Rightarrow> bool \<Rightarrow> bytes \<Rightarrow> 'f adapter \<Rightarrow> gerror option \<times> 'f adapter" where
  "PublishBytesWait w topic qos retained data s =
     (await w, PublishBytes topic qos retained data s)"

text \<open>
  The payload of the object publishers is marshalled by \<open>encoding/json\<close>, given here by what it
  returns for the payload.  The \<open>retained\<close> argument of the two public functions is not passed
  on.
\<close>

definition publishObject ::
  "string \<Rightarrow> byte \<Rightarrow> gerror + bytes \<Rightarrow> 'f adapter \<Rightarrow> gerror option \<times> 'f adapter" where
  "publishObject topic qos marshalled s =
     (case marshalled of
        Inl e \<Rightarrow> (Some e, s)
      | Inr data \<Rightarrow> (None, PublishBytes topic qos False data s))"

definition PublishObject ::
  "string \<Rightarrow> byte \<Rightarrow> bool \<Rightarrow> gerror + bytes \<Rightarrow> 'f adapter \<Rightarrow> gerror option \<times> 'f adapter" where
  "PublishObject topic qos retained marshalled s = publishObject topic qos marshalled s"

definition PublishObjectWait ::
  "wait \<Rightarrow> string \<Rightarrow> byte \<Rightarrow> bool \<Rightarrow> gerror + bytes \<Rightarrow> 'f adapter \<Rightarrow> gerror option \<times> 'f adapter" where
  "PublishObjectWait w topic qos retained marshalled s =
     (case publishObject topic qos marshalled s of
        (Some e, s') \<Rightarrow> (Some e, s')
      | (None, s') \<Rightarrow> (await w, s'))"

section \<open>Callbacks\<close>

definition OffConnect :: "64 word \<Rightarrow> 'f adapter \<Rightarrow> 'f adapter" where
  "OffConnect idx s = s\<lparr>ad_onConnectCallbaks := (ad_onConnectCallbaks s)(idx := None)\<rparr>"

definition OffConnectLost :: "64 word \<Rightarrow> 'f adapter \<Rightarrow> 'f adapter" where
  "OffConnectLost idx s = s\<lparr>ad_onConnectLostCallbaks := (ad_onConnectLostCallbaks s)(idx := None)\<rparr>"

text \<open>The announcement publishes what the options say.\<close>

definition announce :: "'f adapter \<Rightarrow> 'f adapter" where
  "announce s =
     PublishBytes (co_onlineTopic (ad_clientOptions s)) 1 True (co_onlinePayload (ad_clientOptions s)) s"

text \<open>The call of a callback: the wrapper reads its variable when it runs.\<close>

fun run_connect_callback :: "'f on_connect_callback \<Rightarrow> 'f adapter \<Rightarrow> 'f adapter" where
  "run_connect_callback Announce s = announce s"
| "run_connect_callback (UserConnect f) s = s\<lparr>ad_called := ad_called s @ [f]\<rparr>"
| "run_connect_callback (OnceConnect v f) s =
     (let s1 = OffConnect (ad_subIDs s ! v) s in s1\<lparr>ad_called := ad_called s1 @ [f]\<rparr>)"

fun run_lost :: "gerror \<Rightarrow> 'f on_lost_callback \<Rightarrow> 'f adapter \<Rightarrow> 'f adapter" where
  "run_lost e (UserLost f) s = s\<lparr>ad_calledLost := ad_calledLost s @ [(f, e)]\<rparr>"
| "run_lost e (OnceLost v f) s =
     (let s1 = OffConnectLost (ad_subIDs s ! v) s
      in s1\<lparr>ad_calledLost := ad_calledLost s1 @ [(f, e)]\<rparr>)"

text \<open>
  Storing a callback under the next index, under the lock; the first argument of
  \<open>OnConnect\<close> is what the library says about being connected.
\<close>

definition store_on_connect ::
  "'f on_connect_callback \<Rightarrow> 'f adapter \<Rightarrow> 64 word \<times> 'f adapter" where
  "store_on_connect cb s =
     (let idx = ad_onConnectCallbakCount s
      in (idx, s\<lparr>ad_onConnectCallbakCount := idx + 1,
                 ad_onConnectCallbaks := (ad_onConnectCallbaks s)(idx \<mapsto> cb)\<rparr>))"

definition OnConnect ::
  "bool \<Rightarrow> 'f on_connect_callback \<Rightarrow> 'f adapter \<Rightarrow> 64 word \<times> 'f adapter" where
  "OnConnect connected cb s = store_on_connect cb (if connected then run_connect_callback cb s else s)"

definition OnConnectLost :: "'f on_lost_callback \<Rightarrow> 'f adapter \<Rightarrow> 64 word \<times> 'f adapter" where
  "OnConnectLost cb s =
     (let idx = ad_onConnectLostCallbakCount s
      in (idx, s\<lparr>ad_onConnectLostCallbakCount := idx + 1,
                 ad_onConnectLostCallbaks := (ad_onConnectLostCallbaks s)(idx \<mapsto> cb)\<rparr>))"

text \<open>
  \<open>OnConnectOnce\<close> asks twice whether the client is connected, once itself and once in
  \<open>OnConnect\<close>; the captured variable is zero until \<open>OnConnect\<close> has returned.
\<close>

definition OnConnectOnce :: "bool \<Rightarrow> bool \<Rightarrow> 'f \<Rightarrow> 'f adapter \<Rightarrow> 'f adapter" where
  "OnConnectOnce connected connected2 f s =
     (if connected then s\<lparr>ad_called := ad_called s @ [f]\<rparr>
      else
        let v = length (ad_subIDs s);
            (idx, s2) = OnConnect connected2 (OnceConnect v f) (s\<lparr>ad_subIDs := ad_subIDs s @ [0]\<rparr>)
        in s2\<lparr>ad_subIDs := (ad_subIDs s2)[v := idx]\<rparr>)"

definition OnConnectLostOnce :: "'f \<Rightarrow> 'f adapter \<Rightarrow> 'f adapter" where
  "OnConnectLostOnce f s =
     (let v = length (ad_subIDs s);
          (idx, s2) = OnConnectLost (OnceLost v f) (s\<lparr>ad_subIDs := ad_subIDs s @ [0]\<rparr>)
      in s2\<lparr>ad_subIDs := (ad_subIDs s2)[v := idx]\<rparr>)"

text \<open>
  The two handlers that \<open>New\<close> installs start a goroutine for each registered callback, in the
  order in which the map is walked: the first argument, the indices in that order.  The goroutines
  are run one after the other.
\<close>

definition connect_handler :: "64 word list \<Rightarrow> 'f adapter \<Rightarrow> 'f adapter" where
  "connect_handler ks s = fold run_connect_callback (List.map_filter (ad_onConnectCallbaks s) ks) s"

definition lost_handler :: "64 word list \<Rightarrow> gerror \<Rightarrow> 'f adapter \<Rightarrow> 'f adapter" where
  "lost_handler ks e s = fold (run_lost e) (List.map_filter (ad_onConnectLostCallbaks s) ks) s"

section \<open>Creating the adapter\<close>

text \<open>
  The first argument is what \<open>url.Parse\<close> makes of the URI: an error, or its text without the
  user.  The library's client is new and the second argument is what it says about being connected.
\<close>

definition default_settings :: "string \<Rightarrow> string \<Rightarrow> paho_setting list" where
  "default_settings uri clientID =
     [AddBroker uri, SetClientID clientID, SetKeepAlive 60000000000, SetDefaultPublishHandler,
      SetAutoReconnect True, SetOnConnectHandler, SetConnectionLostHandler]"

definition New ::
  "gerror + string \<Rightarrow> bool \<Rightarrow> string \<Rightarrow> string \<Rightarrow> option_call list \<Rightarrow> gerror + 'f adapter" where
  "New parsed connected uri clientID os =
     (case parsed of
        Inl e \<Rightarrow> Inl e
      | Inr printable \<Rightarrow>
          let copts = apply_options os (new_options (default_settings uri clientID));
              s = \<lparr>ad_client = [], ad_clientOptions = copts, ad_subscribeMap = {},
                   ad_onConnectCallbakCount = 0, ad_onConnectCallbaks = Map.empty,
                   ad_onConnectLostCallbakCount = 0, ad_onConnectLostCallbaks = Map.empty,
                   ad_stopRetryConnect = False, ad_printableURL = printable,
                   ad_subIDs = [], ad_called = [], ad_calledLost = []\<rparr>
          in Inr (if co_enableStatus copts then snd (OnConnect connected Announce s) else s))"

section \<open>Connecting\<close>

definition Connect :: "wait \<Rightarrow> 'f adapter \<Rightarrow> gerror option \<times> 'f adapter" where
  "Connect w s = (await w, paho PahoConnect s)"

definition Disconnect :: "'f adapter \<Rightarrow> 'f adapter" where
  "Disconnect s = paho (PahoDisconnect 1000) (s\<lparr>ad_stopRetryConnect := True\<rparr>)"

text \<open>
  The loop of \<open>ConnectAndWaitForSuccess\<close>: before its round \<open>n\<close> other goroutines have
  changed the adapter by \<open>env n\<close>, in it the connection is open as \<open>opn n\<close> says, and its
  attempt to connect ends as \<open>res n\<close>.  The loop may go on for ever.
\<close>

datatype connect_end = StoppedRetrying | AlreadyOpen | ConnectedNow

partial_function (option) connect_loop ::
  "(nat \<Rightarrow> 'f adapter \<Rightarrow> 'f adapter) \<Rightarrow> (nat \<Rightarrow> bool) \<Rightarrow> (nat \<Rightarrow> gerror option) \<Rightarrow> nat \<Rightarrow> 'f adapter
    \<Rightarrow> (connect_end \<times> 'f adapter) option" where
  "connect_loop env opn res n s0 =
     (let s = env n s0 in
      if ad_stopRetryConnect s then Some (StoppedRetrying, s)
      else if opn n then Some (AlreadyOpen, s)
      else (case Connect (TokenDone (res n)) s of
              (None, s') \<Rightarrow> Some (ConnectedNow, s')
            | (Some e, s') \<Rightarrow> connect_loop env opn res (Suc n) s'))"

definition ConnectAndWaitForSuccess ::
  "bool \<Rightarrow> (nat \<Rightarrow> 'f adapter \<Rightarrow> 'f adapter) \<Rightarrow> (nat \<Rightarrow> bool) \<Rightarrow> (nat \<Rightarrow> gerror option) \<Rightarrow> 'f adapter
    \<Rightarrow> (connect_end \<times> 'f adapter) option" where
  "ConnectAndWaitForSuccess opened env opn res s =
     (if opened then Some (AlreadyOpen, s) else connect_loop env opn res 0 s)"

section \<open>Subscribing\<close>

text \<open>
  The topics are stored and deleted whatever came of the request: in a deferred call, or after it.
  \<open>UnsubscribeAll\<close> walks the stored topics first: the argument is the order it meets them in.
\<close>

definition Subscribe :: "string \<Rightarrow> byte \<Rightarrow> 'f adapter \<Rightarrow> 'f adapter" where
  "Subscribe topic qos s =
     (let s1 = paho (PahoSubscribe topic qos) s
      in s1\<lparr>ad_subscribeMap := insert topic (ad_subscribeMap s1)\<rparr>)"

definition SubscribeWait :: "wait \<Rightarrow> string \<Rightarrow> byte \<Rightarrow> 'f adapter \<Rightarrow> gerror option \<times> 'f adapter" where
  "SubscribeWait w topic qos s = (await w, Subscribe topic qos s)"

definition SubscribeMultiple :: "(string \<Rightarrow> byte option) \<Rightarrow> 'f adapter \<Rightarrow> 'f adapter" where
  "SubscribeMultiple filters s =
     (let s1 = paho (PahoSubscribeMultiple filters) s
      in s1\<lparr>ad_subscribeMap := ad_subscribeMap s1 \<union> dom filters\<rparr>)"

definition SubscribeMultipleWait ::
  "wait \<Rightarrow> (string \<Rightarrow> byte option) \<Rightarrow> 'f adapter \<Rightarrow> gerror option \<times> 'f adapter" where
  "SubscribeMultipleWait w filters s = (await w, SubscribeMultiple filters s)"

definition UnsubscribeAll :: "string list \<Rightarrow> 'f adapter \<Rightarrow> 'f adapter" where
  "UnsubscribeAll topics s =
     (let s1 = paho (PahoUnsubscribe topics) s
      in s1\<lparr>ad_subscribeMap := ad_subscribeMap s1 - set topics\<rparr>)"

definition UnsubscribeAllWait :: "wait \<Rightarrow> string list \<Rightarrow> 'f adapter \<Rightarrow> gerror option \<times> 'f adapter" where
  "UnsubscribeAllWait w topics s = (await w, UnsubscribeAll topics s)"

definition Unsubscribe :: "string \<Rightarrow> 'f adapter \<Rightarrow> 'f adapter" where
  "Unsubscribe topic s =
     (let s1 = paho (PahoUnsubscribe [topic]) s
      in s1\<lparr>ad_subscribeMap := ad_subscribeMap s1 - {topic}\<rparr>)"

definition UnsubscribeWait :: "wait \<Rightarrow> string \<Rightarrow> 'f adapter \<Rightarrow> gerror option \<times> 'f adapter" where
  "UnsubscribeWait w topic s = (await w, Unsubscribe topic s)"

section \<open>The two registries\<close>

interpretation connect_callbacks: callback_registry
  store_on_connect OffConnect ad_onConnectCallbaks ad_onConnectCallbakCount
  by unfold_locales (simp_all add: store_on_connect_def OffConnect_def Let_def)

interpretation lost_callbacks: callback_registry
  OnConnectLost OffConnectLost ad_onConnectLostCallbaks ad_onConnectLostCallbakCount
  by unfold_locales (simp_all add: OnConnectLost_def OffConnectLost_def Let_def)

lemma New_lost_empty:
  "New parsed connected uri clientID os = Inr s \<Longrightarrow> lost_callbacks.represents [] s"
  by (auto simp: New_def Let_def lost_callbacks.represents_def OnConnect_def store_on_connect_def
    announce_def PublishBytes_def paho_def split: sum.splits if_splits)

primrec lost_op :: "'f on_lost_callback registry_op \<Rightarrow> 'f adapter \<Rightarrow> 'f adapter" where
  "lost_op (Register cb) s = snd (OnConnectLost cb s)"
| "lost_op (Off i) s = OffConnectLost i s"

lemma lost_run:
  fixes ops :: "'f on_lost_callback registry_op list"
  shows "fold lost_op ops s = lost_callbacks.run ops s"
proof -
  have "lost_op op1 s1 = lost_callbacks.step op1 s1"
    for op1 :: "'f on_lost_callback registry_op" and s1 :: "'f adapter"
    by (cases op1) simp_all
  then have "lost_op = (lost_callbacks.step :: _ \<Rightarrow> 'f adapter \<Rightarrow> _)" by (intro ext)
  then show ?thesis by (simp add: lost_callbacks.run_def)
qed

text \<open>
  The index of a callback for lost connections is the number of callbacks registered before it
  on this adapter, and the registered callbacks are those of the list of all registrations less the
  ones taken off, as long as fewer than \<open>2 ^ 64\<close> were registered.  At \<open>2 ^ 64\<close> the index
  wraps around to zero, the index of the first one.
\<close>

lemma lost_callback_indexes:
  assumes "New parsed connected uri clientID os = Inr s"
  shows "(length (filter is_register ops) < 2 ^ 64 \<longrightarrow>
      unat (fst (OnConnectLost cb (fold lost_op ops s))) = length (filter is_register ops)
    \<and> (\<forall>i. ad_onConnectLostCallbaks (fold lost_op ops s) i
         = (if unat i < length (abs_run ops) then abs_run ops ! unat i else None)))
  \<and> (length (filter is_register ops) = 2 ^ 64 \<longrightarrow>
      fst (OnConnectLost cb (fold lost_op ops s)) = 0)"
  using New_lost_empty [OF assms]
  by (auto simp: lost_run lost_callbacks.run_index lost_callbacks.run_wraps
    lost_callbacks.run_registered)

section \<open>Callbacks that run once\<close>

text \<open>What running a list of callbacks does to the fields of the registry.\<close>

fun user_of :: "'f on_connect_callback \<Rightarrow> 'f option" where
  "user_of Announce = None"
| "user_of (UserConnect f) = Some f"
| "user_of (OnceConnect v f) = Some f"

fun wrapper_index :: "64 word list \<Rightarrow> 'f on_connect_callback \<Rightarrow> 64 word option" where
  "wrapper_index ids (OnceConnect v f) = Some (ids ! v)"
| "wrapper_index ids _ = None"

lemma run_connect_fields:
  "ad_called (run_connect_callback cb s) = ad_called s @ List.map_filter user_of [cb]"
  "ad_subIDs (run_connect_callback cb s) = ad_subIDs s"
  "ad_onConnectCallbakCount (run_connect_callback cb s) = ad_onConnectCallbakCount s"
  "ad_onConnectCallbaks (run_connect_callback cb s) =
     (\<lambda>j. if wrapper_index (ad_subIDs s) cb = Some j then None else ad_onConnectCallbaks s j)"
  by (cases cb; auto simp: announce_def PublishBytes_def paho_def OffConnect_def Let_def map_filter_simps)+

lemma map_filter_Cons1: "List.map_filter g (x # xs) = List.map_filter g [x] @ List.map_filter g xs"
  by (simp add: map_filter_simps split: option.splits)

lemma run_callbacks_fields:
  "ad_called (fold run_connect_callback cbs s) = ad_called s @ List.map_filter user_of cbs"
  "ad_subIDs (fold run_connect_callback cbs s) = ad_subIDs s"
  "ad_onConnectCallbakCount (fold run_connect_callback cbs s) = ad_onConnectCallbakCount s"
  "ad_onConnectCallbaks (fold run_connect_callback cbs s) =
     (\<lambda>j. if \<exists>cb \<in> set cbs. wrapper_index (ad_subIDs s) cb = Some j then None
           else ad_onConnectCallbaks s j)"
proof (induction cbs arbitrary: s)
  case Nil
  {
    case 1 show ?case by (simp add: map_filter_simps)
  next
    case 2 show ?case by simp
  next
    case 3 show ?case by simp
  next
    case 4 show ?case by simp
  }
next
  case (Cons cb cbs)
  {
    case 1 show ?case
      using map_filter_Cons1 [of user_of cb cbs] by (simp add: Cons.IH run_connect_fields)
  next
    case 2 show ?case by (simp add: Cons.IH run_connect_fields)
  next
    case 3 show ?case by (simp add: Cons.IH run_connect_fields)
  next
    case 4 show ?case by (auto simp: Cons.IH run_connect_fields fun_eq_iff)
  }
qed

text \<open>
  A registry is in order when every wrapper's variable holds the wrapper's own index, and the
  indices in use are below the count.
\<close>

definition registry_ok :: "'f adapter \<Rightarrow> bool" where
  "registry_ok s \<longleftrightarrow>
     (\<forall>j v g. ad_onConnectCallbaks s j = Some (OnceConnect v g) \<longrightarrow>
        v < length (ad_subIDs s) \<and> ad_subIDs s ! v = j)
   \<and> (\<forall>j. ad_onConnectCallbaks s j \<noteq> None \<longrightarrow> unat j < unat (ad_onConnectCallbakCount s))"

definition not_registered :: "'f \<Rightarrow> 'f adapter \<Rightarrow> bool" where
  "not_registered f s \<longleftrightarrow> (\<forall>j cb. ad_onConnectCallbaks s j = Some cb \<longrightarrow> user_of cb \<noteq> Some f)"

lemma New_registry_ok:
  "New parsed connected uri clientID os = Inr s \<Longrightarrow> registry_ok s"
  by (auto simp: New_def Let_def registry_ok_def OnConnect_def store_on_connect_def announce_def PublishBytes_def
    paho_def split: sum.splits if_splits)

text \<open>With an order of the walk that meets every index once, the wrappers are gone afterwards.\<close>

lemma handler_callbaks:
  assumes "registry_ok s" and "set ks = dom (ad_onConnectCallbaks s)"
  shows "ad_onConnectCallbaks (connect_handler ks s) j =
    (case ad_onConnectCallbaks s j of Some (OnceConnect v g) \<Rightarrow> None | x \<Rightarrow> x)"
proof -
  have walked: "set (List.map_filter (ad_onConnectCallbaks s) ks) = {cb. \<exists>j. ad_onConnectCallbaks s j = Some cb}"
    using assms(2) by (auto simp: map_filter_def image_iff dom_def) (metis option.sel option.simps(3))
  have "(\<exists>cb. (\<exists>j. ad_onConnectCallbaks s j = Some cb) \<and> wrapper_index (ad_subIDs s) cb = Some j)
      \<longleftrightarrow> (\<exists>v g. ad_onConnectCallbaks s j = Some (OnceConnect v g))"
    using assms(1) unfolding registry_ok_def
    by (metis wrapper_index.elims option.distinct(1) option.inject wrapper_index.simps(1))
  then show ?thesis
    unfolding connect_handler_def run_callbacks_fields walked
    by (auto split: option.splits on_connect_callback.splits)
qed

lemma count_map_filter:
  "distinct ks \<Longrightarrow> count_list (List.map_filter g ks) f = card {k \<in> set ks. g k = Some f}"
proof (induction ks)
  case (Cons k ks)
  have "{x \<in> set (k # ks). g x = Some f}
      = (if g k = Some f then insert k {x \<in> set ks. g x = Some f} else {x \<in> set ks. g x = Some f})"
    by auto
  with Cons show ?case by (auto simp: map_filter_simps split: option.splits)
qed (simp add: map_filter_simps)

lemma map_filter_map_filter:
  "List.map_filter h (List.map_filter g xs) = List.map_filter (\<lambda>x. Option.bind (g x) h) xs"
  by (induction xs) (auto simp: map_filter_simps split: option.splits)

lemma handler_calls:
  assumes "distinct ks" and "set ks = dom (ad_onConnectCallbaks s)"
  shows "count_list (ad_called (connect_handler ks s)) f = count_list (ad_called s) f
    + card {j. \<exists>cb. ad_onConnectCallbaks s j = Some cb \<and> user_of cb = Some f}"
proof -
  have "{k \<in> set ks. Option.bind (ad_onConnectCallbaks s k) user_of = Some f}
      = {j. \<exists>cb. ad_onConnectCallbaks s j = Some cb \<and> user_of cb = Some f}"
    using assms(2) by (auto simp: bind_eq_Some_conv)
  then show ?thesis
    by (simp add: connect_handler_def run_callbacks_fields map_filter_map_filter
      count_map_filter [OF assms(1)])
qed

text \<open>
  What can happen to the registry of connection callbacks: a function is registered, to run on
  every connection or once, an index is taken off, and the client connects.  The two answers about
  being connected that \<open>OnConnectOnce\<close> gets are the same here.
\<close>

datatype 'f connect_event =
    EvOnConnect bool 'f
  | EvOnConnectOnce bool 'f
  | EvOffConnect "64 word"
  | EvConnected "64 word list"

primrec connect_ev :: "'f connect_event \<Rightarrow> 'f adapter \<Rightarrow> 'f adapter" where
  "connect_ev (EvOnConnect c f) s = snd (OnConnect c (UserConnect f) s)"
| "connect_ev (EvOnConnectOnce c f) s = OnConnectOnce c c f s"
| "connect_ev (EvOffConnect i) s = OffConnect i s"
| "connect_ev (EvConnected ks) s = connect_handler ks s"

primrec is_connected_ev :: "'f connect_event \<Rightarrow> bool" where
  "is_connected_ev (EvOnConnect c f) = False"
| "is_connected_ev (EvOnConnectOnce c f) = False"
| "is_connected_ev (EvOffConnect i) = False"
| "is_connected_ev (EvConnected ks) = True"

text \<open>
  Events that leave the index \<open>i\<close> and the function \<open>f\<close> alone; a connection walks all
  registered indices, each once.
\<close>

primrec ev_ok :: "64 word \<Rightarrow> 'f \<Rightarrow> 'f adapter \<Rightarrow> 'f connect_event \<Rightarrow> bool" where
  "ev_ok i f s (EvOnConnect c g) \<longleftrightarrow> g \<noteq> f"
| "ev_ok i f s (EvOnConnectOnce c g) \<longleftrightarrow> g \<noteq> f"
| "ev_ok i f s (EvOffConnect j) \<longleftrightarrow> j \<noteq> i"
| "ev_ok i f s (EvConnected ks) \<longleftrightarrow> distinct ks \<and> set ks = dom (ad_onConnectCallbaks s)"

fun evs_ok :: "64 word \<Rightarrow> 'f \<Rightarrow> 'f adapter \<Rightarrow> 'f connect_event list \<Rightarrow> bool" where
  "evs_ok i f s [] \<longleftrightarrow> True"
| "evs_ok i f s (e # es) \<longleftrightarrow> ev_ok i f s e \<and> evs_ok i f (connect_ev e s) es"

text \<open>
  While a wrapper of \<open>f\<close> waits at \<open>i\<close> it is the only callback with \<open>f\<close>; afterwards
  there is none.
\<close>

definition once_inv :: "64 word \<Rightarrow> 'f \<Rightarrow> bool \<Rightarrow> 'f adapter \<Rightarrow> bool" where
  "once_inv i f waiting s \<longleftrightarrow>
     registry_ok s
   \<and> {j. \<exists>cb. ad_onConnectCallbaks s j = Some cb \<and> user_of cb = Some f} = (if waiting then {i} else {})
   \<and> (waiting \<longrightarrow> (\<exists>v. ad_onConnectCallbaks s i = Some (OnceConnect v f)))"

lemma no_wrap: "unat (x :: 64 word) + 1 < 2 ^ 64 \<Longrightarrow> unat (x + 1) = unat x + 1"
  by (simp add: unat_word_ariths)

text \<open>Storing a callback, with the variables of wrappers growing by the stored index.\<close>

lemma registry_ok_store:
  assumes "registry_ok s" and "unat (ad_onConnectCallbakCount s) + 1 < 2 ^ 64"
    and "ad_onConnectCallbakCount s' = ad_onConnectCallbakCount s + 1"
    and "ad_onConnectCallbaks s' = (ad_onConnectCallbaks s)(ad_onConnectCallbakCount s \<mapsto> cb)"
    and "ad_subIDs s' = ad_subIDs s @ ids"
    and "\<And>v g. cb = OnceConnect v g \<Longrightarrow> v = length (ad_subIDs s) \<and> ids = [ad_onConnectCallbakCount s]"
  shows "registry_ok s'"
  unfolding registry_ok_def
proof (intro conjI allI impI)
  fix j v g
  assume "ad_onConnectCallbaks s' j = Some (OnceConnect v g)"
  then consider "j = ad_onConnectCallbakCount s" "cb = OnceConnect v g"
    | "ad_onConnectCallbaks s j = Some (OnceConnect v g)"
    using assms(4) by (auto split: if_splits)
  then have "v < length (ad_subIDs s') \<and> ad_subIDs s' ! v = j"
  proof cases
    case 1
    then show ?thesis using assms(6) [OF 1(2)] by (simp add: assms(5))
  next
    case 2
    then have "v < length (ad_subIDs s) \<and> ad_subIDs s ! v = j"
      using assms(1) unfolding registry_ok_def by blast
    then show ?thesis by (simp add: assms(5) nth_append)
  qed
  then show "v < length (ad_subIDs s')" "ad_subIDs s' ! v = j" by simp_all
next
  fix j
  assume "ad_onConnectCallbaks s' j \<noteq> None"
  then show "unat j < unat (ad_onConnectCallbakCount s')"
    using assms(1,3,4) no_wrap [OF assms(2)] by (auto simp: registry_ok_def less_Suc_eq split: if_splits)
qed

lemma registry_ok_fresh:
  "registry_ok s \<Longrightarrow> ad_onConnectCallbaks s (ad_onConnectCallbakCount s) = None"
  by (auto simp: registry_ok_def)

lemma once_inv_store:
  assumes "once_inv i f w s" and "unat (ad_onConnectCallbakCount s) + 1 < 2 ^ 64"
    and "ad_onConnectCallbakCount s' = ad_onConnectCallbakCount s + 1"
    and "ad_onConnectCallbaks s' = (ad_onConnectCallbaks s)(ad_onConnectCallbakCount s \<mapsto> cb)"
    and "ad_subIDs s' = ad_subIDs s @ ids"
    and "\<And>v g. cb = OnceConnect v g \<Longrightarrow> v = length (ad_subIDs s) \<and> ids = [ad_onConnectCallbakCount s]"
    and "user_of cb \<noteq> Some f"
  shows "once_inv i f w s'"
proof -
  have reg: "registry_ok s" using assms(1) by (simp add: once_inv_def)
  have "registry_ok s'" by (rule registry_ok_store [OF reg assms(2-6)])
  moreover have "{j. \<exists>cb. ad_onConnectCallbaks s' j = Some cb \<and> user_of cb = Some f}
      = {j. \<exists>cb. ad_onConnectCallbaks s j = Some cb \<and> user_of cb = Some f}"
    using assms(4,7) registry_ok_fresh [OF reg] by auto
  moreover have "i \<noteq> ad_onConnectCallbakCount s" if w
    using assms(1) that registry_ok_fresh [OF reg] by (auto simp: once_inv_def)
  ultimately show ?thesis
    using assms(1,4) unfolding once_inv_def by simp
qed

lemma OnConnect_user_fields:
  "ad_called (snd (OnConnect c (UserConnect g) s)) = ad_called s @ (if c then [g] else [])"
  "ad_subIDs (snd (OnConnect c (UserConnect g) s)) = ad_subIDs s @ []"
  "ad_onConnectCallbakCount (snd (OnConnect c (UserConnect g) s)) = ad_onConnectCallbakCount s + 1"
  "ad_onConnectCallbaks (snd (OnConnect c (UserConnect g) s)) =
     (ad_onConnectCallbaks s)(ad_onConnectCallbakCount s \<mapsto> UserConnect g)"
  by (simp_all add: OnConnect_def store_on_connect_def Let_def)

lemma OnConnectOnce_fields:
  "ad_called (OnConnectOnce False False g s) = ad_called s"
  "ad_subIDs (OnConnectOnce False False g s) = ad_subIDs s @ [ad_onConnectCallbakCount s]"
  "ad_onConnectCallbakCount (OnConnectOnce False False g s) = ad_onConnectCallbakCount s + 1"
  "ad_onConnectCallbaks (OnConnectOnce False False g s) =
     (ad_onConnectCallbaks s)(ad_onConnectCallbakCount s \<mapsto> OnceConnect (length (ad_subIDs s)) g)"
  by (simp_all add: OnConnectOnce_def OnConnect_def store_on_connect_def Let_def)

lemma OnConnectOnce_connected:
  "OnConnectOnce True c g s = s\<lparr>ad_called := ad_called s @ [g]\<rparr>"
  by (simp add: OnConnectOnce_def)

lemma handler_other_fields:
  "ad_subIDs (connect_handler ks s) = ad_subIDs s"
  "ad_onConnectCallbakCount (connect_handler ks s) = ad_onConnectCallbakCount s"
  by (simp_all add: connect_handler_def run_callbacks_fields)

lemma registry_ok_removed:
  assumes "registry_ok s" and "ad_subIDs s' = ad_subIDs s"
    and "ad_onConnectCallbakCount s' = ad_onConnectCallbakCount s"
    and "\<And>j. ad_onConnectCallbaks s' j = ad_onConnectCallbaks s j \<or> ad_onConnectCallbaks s' j = None"
  shows "registry_ok s'"
proof -
  have "ad_onConnectCallbaks s j = Some cb" if "ad_onConnectCallbaks s' j = Some cb" for j cb
    using assms(4) [of j] that by simp
  then show ?thesis
    using assms(1-3) unfolding registry_ok_def by (metis not_None_eq)
qed

lemma once_inv_handler:
  assumes "once_inv i f w s" and "set ks = dom (ad_onConnectCallbaks s)"
  shows "once_inv i f False (connect_handler ks s)"
proof -
  have reg: "registry_ok s" using assms(1) by (simp add: once_inv_def)
  note cbs = handler_callbaks [OF reg assms(2)]
  have "registry_ok (connect_handler ks s)"
    by (rule registry_ok_removed [OF reg handler_other_fields])
      (simp add: cbs split: option.splits on_connect_callback.splits)
  moreover have "\<not> (ad_onConnectCallbaks (connect_handler ks s) j = Some cb \<and> user_of cb = Some f)" for j cb
  proof
    assume found: "ad_onConnectCallbaks (connect_handler ks s) j = Some cb \<and> user_of cb = Some f"
    then have "ad_onConnectCallbaks s j = Some cb" and kept: "\<And>v g. cb \<noteq> OnceConnect v g"
      by (auto simp: cbs split: option.splits on_connect_callback.splits)
    with found have "j \<in> (if w then {i} else {})"
      using assms(1) unfolding once_inv_def by blast
    with assms(1) kept \<open>ad_onConnectCallbaks s j = Some cb\<close> show False
      by (auto simp: once_inv_def split: if_splits)
  qed
  ultimately show ?thesis by (auto simp: once_inv_def)
qed

lemma once_inv_off:
  assumes "once_inv i f w s" and "j \<noteq> i"
  shows "once_inv i f w (OffConnect j s)"
proof -
  have "registry_ok s" using assms(1) by (simp add: once_inv_def)
  then have "registry_ok (OffConnect j s)"
    by (rule registry_ok_removed) (simp_all add: OffConnect_def)
  moreover have "{k. \<exists>cb. ad_onConnectCallbaks (OffConnect j s) k = Some cb \<and> user_of cb = Some f}
      = {k. \<exists>cb. ad_onConnectCallbaks s k = Some cb \<and> user_of cb = Some f} - {j}"
    by (auto simp: OffConnect_def)
  moreover have "ad_onConnectCallbaks (OffConnect j s) i = ad_onConnectCallbaks s i"
    using assms(2) by (simp add: OffConnect_def)
  ultimately show ?thesis
    using assms by (simp add: once_inv_def)
qed

lemma once_inv_called:
  "once_inv i f w (s\<lparr>ad_called := cs\<rparr>) \<longleftrightarrow> once_inv i f w s"
  by (simp add: once_inv_def registry_ok_def)

text \<open>One event.\<close>

lemma once_step:
  assumes "once_inv i f w s" and "ev_ok i f s e"
    and "unat (ad_onConnectCallbakCount s) + 1 < 2 ^ 64"
  shows "once_inv i f (w \<and> \<not> is_connected_ev e) (connect_ev e s)"
    and "count_list (ad_called (connect_ev e s)) f
      = count_list (ad_called s) f + (if w \<and> is_connected_ev e then 1 else 0)"
    and "unat (ad_onConnectCallbakCount (connect_ev e s)) \<le> unat (ad_onConnectCallbakCount s) + 1"
proof -
  have "once_inv i f (w \<and> \<not> is_connected_ev e) (connect_ev e s) \<and>
    count_list (ad_called (connect_ev e s)) f
      = count_list (ad_called s) f + (if w \<and> is_connected_ev e then 1 else 0) \<and>
    unat (ad_onConnectCallbakCount (connect_ev e s)) \<le> unat (ad_onConnectCallbakCount s) + 1"
  proof (cases e)
    case (EvOnConnect c g)
    with assms(2) show ?thesis
      using once_inv_store [OF assms(1,3) OnConnect_user_fields(3,4,2), of g]
      by (simp add: OnConnect_user_fields no_wrap [OF assms(3)])
  next
    case (EvOnConnectOnce c g)
    with assms(2) show ?thesis
      using once_inv_store [OF assms(1,3) OnConnectOnce_fields(3,4,2), of g] assms(1)
      by (cases c)
        (simp_all add: OnConnectOnce_fields OnConnectOnce_connected once_inv_called no_wrap [OF assms(3)])
  next
    case (EvOffConnect j)
    with assms show ?thesis
      by (simp add: once_inv_off) (simp add: OffConnect_def)
  next
    case (EvConnected ks)
    with assms(2) have ks: "distinct ks" "set ks = dom (ad_onConnectCallbaks s)" by simp_all
    have "card {j. \<exists>cb. ad_onConnectCallbaks s j = Some cb \<and> user_of cb = Some f} = (if w then 1 else 0)"
      using assms(1) by (simp add: once_inv_def)
    with EvConnected once_inv_handler [OF assms(1) ks(2)] handler_calls [OF ks, of f] show ?thesis
      by (simp add: handler_other_fields)
  qed
  then show "once_inv i f (w \<and> \<not> is_connected_ev e) (connect_ev e s)"
    and "count_list (ad_called (connect_ev e s)) f
      = count_list (ad_called s) f + (if w \<and> is_connected_ev e then 1 else 0)"
    and "unat (ad_onConnectCallbakCount (connect_ev e s)) \<le> unat (ad_onConnectCallbakCount s) + 1"
    by simp_all
qed

lemma once_history:
  assumes "once_inv i f w s" and "evs_ok i f s es"
    and "unat (ad_onConnectCallbakCount s) + length es < 2 ^ 64"
  shows "count_list (ad_called (fold connect_ev es s)) f = count_list (ad_called s) f
    + (if w \<and> (\<exists>e \<in> set es. is_connected_ev e) then 1 else 0)"
  using assms
proof (induction es arbitrary: s w)
  case (Cons e es)
  then have ok: "ev_ok i f s e" "unat (ad_onConnectCallbakCount s) + 1 < 2 ^ 64" by simp_all
  note step1 = once_step [OF Cons.prems(1) ok]
  have "unat (ad_onConnectCallbakCount (connect_ev e s)) + length es < 2 ^ 64"
    using step1(3) Cons.prems(3) by simp
  with Cons.IH [OF step1(1)] Cons.prems(2) step1(2) show ?case by auto
qed simp


text \<open>An adapter with a function to run on every connection, and one to run once.\<close>

definition demo_adapter :: "nat adapter" where
  "demo_adapter =
     (case New (Inr ''tcp://broker'') False ''tcp://broker'' ''c'' [] of Inr s \<Rightarrow> s)"

lemma demo_New: "New (Inr ''tcp://broker'') False ''tcp://broker'' ''c'' [] = Inr demo_adapter"
  by (simp add: demo_adapter_def New_def Let_def)

lemma demo_fields:
  "ad_onConnectCallbakCount demo_adapter = 0" "ad_onConnectCallbaks demo_adapter = Map.empty"
  "ad_subIDs demo_adapter = []" "ad_called demo_adapter = []"
  by (simp_all add: demo_adapter_def New_def Let_def apply_options_def new_options_def)

definition demo_user :: "nat adapter" where
  "demo_user = connect_ev (EvOnConnect False 2) demo_adapter"

lemma demo_user_fields:
  "ad_onConnectCallbakCount demo_user = 1" "ad_onConnectCallbaks demo_user = [0 \<mapsto> UserConnect 2]"
  "ad_subIDs demo_user = []" "ad_called demo_user = []"
  by (simp_all add: demo_user_def OnConnect_user_fields demo_fields)

lemma demo_user_ok: "registry_ok demo_user" "not_registered 7 demo_user"
  by (auto simp: registry_ok_def not_registered_def demo_user_fields split: if_splits)


lemma lost_callback_indexes_witness:
  "unat (fst (OnConnectLost (UserLost 5)
     (fold lost_op [Register (UserLost 3), Off 0, Register (UserLost 4)] demo_adapter))) = 2"
  using lost_callback_indexes [OF demo_New,
    where ops = "[Register (UserLost 3), Off 0, Register (UserLost 4)]" and cb = "UserLost 5"]
  by simp

section \<open>The announcement\<close>

text \<open>
  An adapter announces itself on every connection exactly when its options have
  \<open>WithStatus\<close>: with a retained message of quality 1 on the topic and with the payload of the
  last option that gave them.  \<open>WithOnlineStatus\<close> alone announces nothing.
\<close>

lemma announces_iff_WithStatus:
  assumes "New (Inr url) False uri clientID os = Inr s"
  shows "ad_client (connect_handler [0] s) =
    (if \<exists>oc \<in> set os. enables_status oc
     then [PahoPublish \<lparr>m_Topic = fst (last_announcement os), m_QoS = 1, m_Retained = True,
             m_Payload = snd (last_announcement os)\<rparr>]
     else [])"
proof -
  let ?o = "apply_options os (new_options (default_settings uri clientID))"
  have "co_enableStatus ?o \<longleftrightarrow> (\<exists>oc \<in> set os. enables_status oc)"
    by (simp add: apply_options_status new_options_def)
  moreover have "co_onlineTopic ?o = fst (last_announcement os)"
      "co_onlinePayload ?o = snd (last_announcement os)"
    using apply_options_announcement [of os "default_settings uri clientID"]
    by (metis fst_conv) (metis apply_options_announcement snd_conv)
  ultimately show ?thesis
    using assms
    by (auto simp: New_def Let_def connect_handler_def map_filter_simps OnConnect_def
      store_on_connect_def announce_def PublishBytes_def paho_def)
qed

lemma announces_iff_WithStatus_witness:
  "\<exists>s :: nat adapter. New (Inr ''u'') False ''u'' ''c'' [OStatus ''on'' [1] ''off'' [0], OOnlineStatus ''t'' [2]] = Inr s
    \<and> ad_client (connect_handler [0] s)
      = [PahoPublish \<lparr>m_Topic = ''t'', m_QoS = 1, m_Retained = True, m_Payload = [2]\<rparr>]"
proof -
  obtain s :: "nat adapter" where s:
    "New (Inr ''u'') False ''u'' ''c'' [OStatus ''on'' [1] ''off'' [0], OOnlineStatus ''t'' [2]] = Inr s"
    by (simp add: New_def Let_def)
  from announces_iff_WithStatus [OF s] s show ?thesis
    by (auto simp: last_announcement_def map_filter_simps)
qed

end
