(* ===== verification/Adapter_Sessions.thy ===== *)
theory Adapter_Sessions
  imports Mqtt_Adapter
begin

text \<open>
  Sessions of the broker adapter over time: when its connecting loop returns, and how the topics it
  keeps relate to what it asked the broker for and to what the broker granted.
\<close>

text \<open>The equations of the operations, for the proofs that go through all of them.\<close>

lemmas operation_defs [adapter_simps] = paho_def Subscribe_def SubscribeWait_def SubscribeMultiple_def
  SubscribeMultipleWait_def Unsubscribe_def UnsubscribeWait_def UnsubscribeAll_def
  UnsubscribeAllWait_def PublishBytes_def OnConnect_def store_on_connect_def OffConnect_def
  announce_def Connect_def Disconnect_def Let_def

section \<open>The connecting loop\<close>

text \<open>
  The adapter at the start of a round, when no round before it ended the loop; the rounds that end
  it, and what they return.
\<close>

primrec retry_state :: "(nat \<Rightarrow> 'f adapter \<Rightarrow> 'f adapter) \<Rightarrow> 'f adapter \<Rightarrow> nat \<Rightarrow> 'f adapter" where
  "retry_state env s 0 = s"
| "retry_state env s (Suc n) = paho PahoConnect (env n (retry_state env s n))"

definition round_ends ::
  "(nat \<Rightarrow> 'f adapter \<Rightarrow> 'f adapter) \<Rightarrow> (nat \<Rightarrow> bool) \<Rightarrow> (nat \<Rightarrow> gerror option) \<Rightarrow> 'f adapter \<Rightarrow> nat \<Rightarrow> bool" where
  "round_ends env opn res s n \<longleftrightarrow>
     ad_stopRetryConnect (env n (retry_state env s n)) \<or> opn n \<or> res n = None"

definition round_result ::
  "(nat \<Rightarrow> 'f adapter \<Rightarrow> 'f adapter) \<Rightarrow> (nat \<Rightarrow> bool) \<Rightarrow> 'f adapter \<Rightarrow> nat \<Rightarrow> connect_end \<times> 'f adapter" where
  "round_result env opn s n =
     (let s1 = env n (retry_state env s n) in
      if ad_stopRetryConnect s1 then (StoppedRetrying, s1)
      else if opn n then (AlreadyOpen, s1)
      else (ConnectedNow, paho PahoConnect s1))"

lemma connect_loop_round:
  "connect_loop env opn res n (retry_state env s n) =
     (if round_ends env opn res s n then Some (round_result env opn s n)
      else connect_loop env opn res (Suc n) (retry_state env s (Suc n)))"
  by (subst connect_loop.simps)
    (simp add: round_ends_def round_result_def Connect_def Let_def split: option.splits)

lemma connect_loop_skip:
  "(\<And>m. m < n \<Longrightarrow> \<not> round_ends env opn res s m) \<Longrightarrow>
   connect_loop env opn res 0 s = connect_loop env opn res n (retry_state env s n)"
proof (induction n)
  case (Suc n)
  then show ?case using connect_loop_round [of env opn res n s] by simp
qed simp

lemma connect_loop_ends:
  assumes "connect_loop env opn res n s1 = Some r" and "s1 = retry_state env s n"
  shows "\<exists>m. round_ends env opn res s m"
proof -
  have "\<forall>s. s1 = retry_state env s n \<longrightarrow> (\<exists>m. round_ends env opn res s m)"
  proof (rule connect_loop.raw_induct
      [where P = "\<lambda>env opn res n s1 r. \<forall>s. s1 = retry_state env s n \<longrightarrow> (\<exists>m. round_ends env opn res s m)",
        OF _ assms(1)], intro allI impI)
    fix loop :: "(nat \<Rightarrow> 'a adapter \<Rightarrow> 'a adapter) \<Rightarrow> (nat \<Rightarrow> bool) \<Rightarrow> (nat \<Rightarrow> gerror option) \<Rightarrow> nat
        \<Rightarrow> 'a adapter \<Rightarrow> (connect_end \<times> 'a adapter) option"
      and env opn res n s1 y s
    assume IH: "\<And>env opn res n s1 r. loop env opn res n s1 = Some r \<Longrightarrow>
        \<forall>s. s1 = retry_state env s n \<longrightarrow> (\<exists>m. round_ends env opn res s m)"
      and step: "(let s = env n s1 in
        if ad_stopRetryConnect s then Some (StoppedRetrying, s)
        else if opn n then Some (AlreadyOpen, s)
        else (case Connect (TokenDone (res n)) s of
                (None, s') \<Rightarrow> Some (ConnectedNow, s')
              | (Some e, s') \<Rightarrow> loop env opn res (Suc n) s')) = Some y"
      and here: "s1 = retry_state env s n"
    show "\<exists>m. round_ends env opn res s m"
    proof (cases "round_ends env opn res s n")
      case False
      with step here have "loop env opn res (Suc n) (retry_state env s (Suc n)) = Some y"
        by (auto simp: round_ends_def Connect_def Let_def)
      from IH [OF this] show ?thesis by blast
    qed blast
  qed
  with assms(2) show ?thesis by blast
qed

lemma connect_first_end:
  assumes "round_ends env opn res s k"
  shows "ConnectAndWaitForSuccess False env opn res s
    = Some (round_result env opn s (LEAST n. round_ends env opn res s n))"
proof -
  define n where "n = (LEAST n. round_ends env opn res s n)"
  have "round_ends env opn res s n"
    unfolding n_def using assms by (rule LeastI)
  moreover have "connect_loop env opn res 0 s = connect_loop env opn res n (retry_state env s n)"
    by (rule connect_loop_skip) (auto simp: n_def dest: not_less_Least)
  ultimately show ?thesis
    by (simp add: ConnectAndWaitForSuccess_def connect_loop_round n_def [symmetric])
qed

text \<open>
  C17. \<open>ConnectAndWaitForSuccess\<close> on an adapter that is not connected returns exactly when some
  round finds that retrying was stopped, finds the connection open, or connects; it returns in the
  first such round, having tried to connect once in every round before it.  Otherwise it never
  returns.
\<close>

theorem connecting_returns_iff:
  "ConnectAndWaitForSuccess False env opn res s =
    (if \<exists>n. round_ends env opn res s n
     then Some (round_result env opn s (LEAST n. round_ends env opn res s n))
     else None)"
proof (cases "\<exists>n. round_ends env opn res s n")
  case True
  then obtain k where "round_ends env opn res s k" ..
  from connect_first_end [OF this] True show ?thesis by simp
next
  case False
  then have "connect_loop env opn res 0 s = None"
    using connect_loop_ends [of env opn res 0 s _ s] by (cases "connect_loop env opn res 0 s") auto
  with False show ?thesis by (simp add: ConnectAndWaitForSuccess_def)
qed

text \<open>Nothing clears the flag that \<open>Disconnect\<close> sets.\<close>

lemma stop_simps [simp]:
  "ad_stopRetryConnect (Disconnect s)"
  "ad_stopRetryConnect (paho c s) = ad_stopRetryConnect s"
  "ad_stopRetryConnect (Subscribe t q s) = ad_stopRetryConnect s"
  "ad_stopRetryConnect (SubscribeMultiple m s) = ad_stopRetryConnect s"
  "ad_stopRetryConnect (Unsubscribe t s) = ad_stopRetryConnect s"
  "ad_stopRetryConnect (UnsubscribeAll ts s) = ad_stopRetryConnect s"
  "ad_stopRetryConnect (PublishBytes t q rt d s) = ad_stopRetryConnect s"
  "ad_stopRetryConnect (OffConnect i s) = ad_stopRetryConnect s"
  by (simp_all add: adapter_simps)

text \<open>
  A \<open>Disconnect\<close> by another goroutine ends the loop: no round after the one that sees it
  tries to connect, whatever the broker does.
\<close>

lemma Disconnect_ends_connecting:
  assumes "\<And>s1. env k s1 = Disconnect s1"
  shows "\<exists>n \<le> k. ConnectAndWaitForSuccess False env opn res s = Some (round_result env opn s n)"
proof -
  have k: "round_ends env opn res s k" by (simp add: round_ends_def assms)
  then have "(LEAST n. round_ends env opn res s n) \<le> k" by (rule Least_le)
  with connect_first_end [OF k] show ?thesis by blast
qed

lemma Disconnect_ends_connecting_witness:
  "\<exists>n \<le> 3. ConnectAndWaitForSuccess False (\<lambda>n s. if n = 3 then Disconnect s else s) (\<lambda>n. False)
     (\<lambda>n. Some (ExtErr ''refused'')) demo_adapter
   = Some (round_result (\<lambda>n s. if n = 3 then Disconnect s else s) (\<lambda>n. False) demo_adapter n)"
  by (rule Disconnect_ends_connecting) simp

section \<open>Subscribed topics\<close>

text \<open>The operations on subscriptions, with publishing among them, as events.\<close>

datatype sub_event =
    EvSubscribe string byte
  | EvSubscribeWait wait string byte
  | EvSubscribeMultiple "string \<Rightarrow> byte option"
  | EvSubscribeMultipleWait wait "string \<Rightarrow> byte option"
  | EvUnsubscribe string
  | EvUnsubscribeWait wait string
  | EvUnsubscribeAll "string list"
  | EvUnsubscribeAllWait wait "string list"
  | EvPublishBytes string byte bool bytes
  | EvConnect wait
  | EvDisconnect

primrec sub_ev :: "sub_event \<Rightarrow> 'f adapter \<Rightarrow> 'f adapter" where
  "sub_ev (EvSubscribe t q) s = Subscribe t q s"
| "sub_ev (EvSubscribeWait w t q) s = snd (SubscribeWait w t q s)"
| "sub_ev (EvSubscribeMultiple m) s = SubscribeMultiple m s"
| "sub_ev (EvSubscribeMultipleWait w m) s = snd (SubscribeMultipleWait w m s)"
| "sub_ev (EvUnsubscribe t) s = Unsubscribe t s"
| "sub_ev (EvUnsubscribeWait w t) s = snd (UnsubscribeWait w t s)"
| "sub_ev (EvUnsubscribeAll ts) s = UnsubscribeAll ts s"
| "sub_ev (EvUnsubscribeAllWait w ts) s = snd (UnsubscribeAllWait w ts s)"
| "sub_ev (EvPublishBytes t q r d) s = PublishBytes t q r d s"
| "sub_ev (EvConnect w) s = snd (Connect w s)"
| "sub_ev EvDisconnect s = Disconnect s"

text \<open>
  The specification: what one request changes in the set of topics, the topics asked for by all
  requests, and those that a broker holds which granted some of them.
\<close>

fun request_topics :: "paho_call \<Rightarrow> string set \<Rightarrow> string set" where
  "request_topics (PahoSubscribe t q) T = insert t T"
| "request_topics (PahoSubscribeMultiple m) T = T \<union> dom m"
| "request_topics (PahoUnsubscribe ts) T = T - set ts"
| "request_topics _ T = T"

fun is_unsubscribe :: "paho_call \<Rightarrow> bool" where
  "is_unsubscribe (PahoUnsubscribe ts) = True"
| "is_unsubscribe _ = False"

definition asked_for :: "paho_call list \<Rightarrow> string set" where
  "asked_for cs = fold request_topics cs {}"

definition held :: "(paho_call \<times> bool) list \<Rightarrow> string set" where
  "held gs = fold (\<lambda>(c, granted) T. if granted then request_topics c T else T) gs {}"

lemma asked_for_snoc [simp]: "asked_for (cs @ [c]) = request_topics c (asked_for cs)"
  by (simp add: asked_for_def)

lemma held_snoc: "held (gs @ [(c, g)]) = (if g then request_topics c (held gs) else held gs)"
  by (simp add: held_def)

lemma sub_ev_asked_for:
  "ad_subscribeMap s = asked_for (ad_client s) \<Longrightarrow>
   ad_subscribeMap (sub_ev e s) = asked_for (ad_client (sub_ev e s))"
  by (cases e) (simp_all add: adapter_simps)

lemma New_asked_for:
  "New parsed connected uri clientID os = Inr s \<Longrightarrow> ad_subscribeMap s = asked_for (ad_client s)"
  by (auto simp: New_def asked_for_def adapter_simps split: sum.splits if_splits)

lemma subscribeMap_asked_for:
  "New parsed connected uri clientID os = Inr s \<Longrightarrow>
   ad_subscribeMap (fold sub_ev es s) = asked_for (ad_client (fold sub_ev es s))"
proof (induction es rule: rev_induct)
  case Nil
  then show ?case using New_asked_for by simp
next
  case (snoc e es)
  then show ?case using sub_ev_asked_for by simp
qed

text \<open>A broker that grants every request to unsubscribe holds no topic that was not asked for.\<close>

lemma held_subset:
  "length gs = length cs \<Longrightarrow> (\<And>c. (c, False) \<in> set (zip cs gs) \<Longrightarrow> \<not> is_unsubscribe c) \<Longrightarrow>
   held (zip cs gs) \<subseteq> asked_for cs"
proof (induction cs arbitrary: gs rule: rev_induct)
  case Nil
  show ?case by (simp add: held_def)
next
  case (snoc c cs)
  then obtain gs' g where gs: "gs = gs' @ [g]" "length gs' = length cs"
    by (cases gs rule: rev_cases) auto
  have IH: "held (zip cs gs') \<subseteq> asked_for cs"
    by (rule snoc.IH) (use snoc.prems gs in auto)
  have "g \<or> \<not> is_unsubscribe c"
    using snoc.prems(2) [of c] gs by (cases g) auto
  with IH gs(2) show ?case
    unfolding gs(1) by (cases c) (auto simp: held_snoc)
qed

text \<open>
  \<open>UnsubscribeAll\<close> releases everything: when the broker refused no request to unsubscribe
  and grants this one, it holds no topic afterwards, whatever it did with the subscriptions.
\<close>

lemma UnsubscribeAll_releases:
  assumes "New parsed connected uri clientID os = Inr s" and "s1 = fold sub_ev es s"
    and "length gs = length (ad_client s1)"
    and "\<And>c. (c, False) \<in> set (zip (ad_client s1) gs) \<Longrightarrow> \<not> is_unsubscribe c"
    and "set ts = ad_subscribeMap s1"
  shows "held (zip (ad_client (UnsubscribeAll ts s1)) (gs @ [True])) = {}"
proof -
  have "ad_client (UnsubscribeAll ts s1) = ad_client s1 @ [PahoUnsubscribe ts]"
    by (simp add: UnsubscribeAll_def paho_def Let_def)
  moreover have "held (zip (ad_client s1) gs) \<subseteq> ad_subscribeMap s1"
    using held_subset [OF assms(3,4)] subscribeMap_asked_for [OF assms(1)] assms(2) by simp
  ultimately show ?thesis
    using assms(3,5) by (auto simp: held_snoc)
qed

text \<open>
  A refused request to unsubscribe leaks its topic: the adapter forgets a topic that the broker
  still holds, and no later \<open>UnsubscribeAll\<close> releases it.
\<close>

lemma refused_unsubscribe_leaks:
  assumes "length gs = length (ad_client s1)" and "topic \<in> held (zip (ad_client s1) gs)"
    and "set ts = ad_subscribeMap (snd (UnsubscribeWait w topic s1))"
  shows "topic \<in> held (zip (ad_client (UnsubscribeAll ts (snd (UnsubscribeWait w topic s1))))
    (gs @ [False, True]))"
proof -
  let ?s2 = "snd (UnsubscribeWait w topic s1)"
  have "ad_client (UnsubscribeAll ts ?s2)
      = (ad_client s1 @ [PahoUnsubscribe [topic]]) @ [PahoUnsubscribe ts]"
    and "topic \<notin> set ts"
    using assms(3) by (simp_all add: adapter_simps)
  then show ?thesis
    using assms(1,2) by (simp add: held_def)
qed

lemma UnsubscribeAll_releases_witness:
  "held (zip (ad_client (UnsubscribeAll [''a''] (Subscribe ''a'' 0 demo_adapter))) ([True] @ [True])) = {}"
  by (rule UnsubscribeAll_releases [OF demo_New, where es = "[EvSubscribe ''a'' 0]"])
    (simp_all add: adapter_simps demo_adapter_def New_def apply_options_def new_options_def)

lemma refused_unsubscribe_leaks_witness:
  "''a'' \<in> held (zip (ad_client (UnsubscribeAll []
     (snd (UnsubscribeWait (TokenDone (Some ErrTimeout)) ''a'' (Subscribe ''a'' 0 demo_adapter)))))
     ([True] @ [False, True]))"
  by (rule refused_unsubscribe_leaks)
    (simp_all add: adapter_simps held_def demo_adapter_def New_def apply_options_def new_options_def)

end
