(* ===== verification/Adapter_Interface.thy ===== *)
theory Adapter_Interface
  imports Adapter_Sessions
begin

text \<open>
  The interface of the broker adapter (\<open>mqttadapter/interface.go\<close>) as one type of calls, with the
  goroutines that its methods start, over arbitrary histories of calls and of what the broker
  client does; and the specification of such an adapter, which keeps lists of callbacks and no
  indices, captured variables or topics.
\<close>

section \<open>The calls of the interface\<close>

text \<open>
  One constructor per method, in the order of the interface.  A call comes with what the broker
  client and \<open>encoding/json\<close> answer to it, as the operations of the adapter take it.
\<close>

datatype 'f adapter_method =
    M_GetMqttClient
  | M_GetClientOptions
  | M_OnConnectOnce bool bool 'f
  | M_OnConnectLostOnce 'f
  | M_OnConnect bool 'f
  | M_OffConnect "64 word"
  | M_OnConnectLost 'f
  | M_OffConnectLost "64 word"
  | M_Connect wait
  | M_EnsureConnected
  | M_ConnectAndWaitForSuccess
  | M_Disconnect
  | M_IsConnected bool
  | M_Subscribe string byte
  | M_SubscribeWait wait string byte
  | M_SubscribeMultiple "string \<Rightarrow> byte option"
  | M_SubscribeMultipleWait wait "string \<Rightarrow> byte option"
  | M_Unsubscribe string
  | M_UnsubscribeWait wait string
  | M_UnsubscribeAll "string list"
  | M_UnsubscribeAllWait wait "string list"
  | M_PublishBytes string byte bool bytes
  | M_PublishBytesWait wait string byte bool bytes
  | M_PublishObject string byte bool "gerror + bytes"
  | M_PublishObjectWait wait string byte bool "gerror + bytes"

datatype adapter_answer =
    NoAnswer
  | AnIndex "64 word"
  | AnError "gerror option"
  | ABool bool
  | AClient "paho_call list"
  | AnOptions "paho_setting list"

definition GetMqttClient :: "'f adapter \<Rightarrow> paho_call list" where
  "GetMqttClient s = ad_client s"

definition GetClientOptions :: "'f adapter \<Rightarrow> paho_setting list" where
  "GetClientOptions s = co_ClientOptions (ad_clientOptions s)"

definition IsConnected :: "bool \<Rightarrow> 'f adapter \<Rightarrow> bool" where
  "IsConnected connectionOpen s = connectionOpen"

section \<open>Connecting goroutines\<close>

text \<open>
  A goroutine in \<open>ConnectAndWaitForSuccess\<close>: at its first question whether the client is
  connected, at the condition of the loop, at the question in the loop, and at the call of
  \<open>Connect\<close>; or it has returned.  The sleep after a failed attempt changes nothing.
\<close>

datatype connecting = Starting | Checking | Asking | Dialling | Returned connect_end

fun connecting_step ::
  "bool \<Rightarrow> gerror option \<Rightarrow> connecting \<Rightarrow> 'f adapter \<Rightarrow> connecting \<times> 'f adapter" where
  "connecting_step opn res Starting s =
     (if IsConnected opn s then Returned AlreadyOpen else Checking, s)"
| "connecting_step opn res Checking s =
     (if ad_stopRetryConnect s then Returned StoppedRetrying else Asking, s)"
| "connecting_step opn res Asking s =
     (if IsConnected opn s then Returned AlreadyOpen else Dialling, s)"
| "connecting_step opn res Dialling s =
     (case Connect (TokenDone res) s of
        (None, s') \<Rightarrow> (Returned ConnectedNow, s')
      | (Some e, s') \<Rightarrow> (Checking, s'))"
| "connecting_step opn res (Returned e) s = (Returned e, s)"

record 'f session =
  se_adapter :: "'f adapter"
  se_goroutines :: "connecting list"

definition EnsureConnected :: "'f session \<Rightarrow> 'f session" where
  "EnsureConnected s = s\<lparr>se_goroutines := se_goroutines s @ [Starting]\<rparr>"

text \<open>
  A call: most change the adapter only.  \<open>ConnectAndWaitForSuccess\<close> occupies the goroutine of
  its caller, and \<open>EnsureConnected\<close> starts one of its own.
\<close>

fun adapter_call_on :: "'f adapter_method \<Rightarrow> 'f adapter \<Rightarrow> adapter_answer \<times> 'f adapter" where
  "adapter_call_on M_GetMqttClient s = (AClient (GetMqttClient s), s)"
| "adapter_call_on M_GetClientOptions s = (AnOptions (GetClientOptions s), s)"
| "adapter_call_on (M_OnConnectOnce c c2 f) s = (NoAnswer, OnConnectOnce c c2 f s)"
| "adapter_call_on (M_OnConnectLostOnce f) s = (NoAnswer, OnConnectLostOnce f s)"
| "adapter_call_on (M_OnConnect c f) s = map_prod AnIndex (\<lambda>s. s) (OnConnect c (UserConnect f) s)"
| "adapter_call_on (M_OffConnect i) s = (NoAnswer, OffConnect i s)"
| "adapter_call_on (M_OnConnectLost f) s = map_prod AnIndex (\<lambda>s. s) (OnConnectLost (UserLost f) s)"
| "adapter_call_on (M_OffConnectLost i) s = (NoAnswer, OffConnectLost i s)"
| "adapter_call_on (M_Connect w) s = map_prod AnError (\<lambda>s. s) (Connect w s)"
| "adapter_call_on M_EnsureConnected s = (NoAnswer, s)"
| "adapter_call_on M_ConnectAndWaitForSuccess s = (NoAnswer, s)"
| "adapter_call_on M_Disconnect s = (NoAnswer, Disconnect s)"
| "adapter_call_on (M_IsConnected b) s = (ABool (IsConnected b s), s)"
| "adapter_call_on (M_Subscribe t q) s = (NoAnswer, Subscribe t q s)"
| "adapter_call_on (M_SubscribeWait w t q) s = map_prod AnError (\<lambda>s. s) (SubscribeWait w t q s)"
| "adapter_call_on (M_SubscribeMultiple m) s = (NoAnswer, SubscribeMultiple m s)"
| "adapter_call_on (M_SubscribeMultipleWait w m) s = map_prod AnError (\<lambda>s. s) (SubscribeMultipleWait w m s)"
| "adapter_call_on (M_Unsubscribe t) s = (NoAnswer, Unsubscribe t s)"
| "adapter_call_on (M_UnsubscribeWait w t) s = map_prod AnError (\<lambda>s. s) (UnsubscribeWait w t s)"
| "adapter_call_on (M_UnsubscribeAll ts) s = (NoAnswer, UnsubscribeAll ts s)"
| "adapter_call_on (M_UnsubscribeAllWait w ts) s = map_prod AnError (\<lambda>s. s) (UnsubscribeAllWait w ts s)"
| "adapter_call_on (M_PublishBytes t q r d) s = (NoAnswer, PublishBytes t q r d s)"
| "adapter_call_on (M_PublishBytesWait w t q r d) s = map_prod AnError (\<lambda>s. s) (PublishBytesWait w t q r d s)"
| "adapter_call_on (M_PublishObject t q r p) s = map_prod AnError (\<lambda>s. s) (PublishObject t q r p s)"
| "adapter_call_on (M_PublishObjectWait w t q r p) s = map_prod AnError (\<lambda>s. s) (PublishObjectWait w t q r p s)"

fun starts_goroutine :: "'f adapter_method \<Rightarrow> bool" where
  "starts_goroutine M_EnsureConnected = True"
| "starts_goroutine M_ConnectAndWaitForSuccess = True"
| "starts_goroutine _ = False"

text \<open>
  What happens to an adapter: a method is called, a connecting goroutine takes a step, and the
  client reports a connection or the loss of one, with the order in which the handler meets the
  registered indices.
\<close>

datatype 'f adapter_event =
    Invoke "'f adapter_method"
  | Goroutine nat bool "gerror option"
  | ConnectionUp "64 word list"
  | ConnectionLost "64 word list" gerror

fun session_step :: "'f adapter_event \<Rightarrow> 'f session \<Rightarrow> adapter_answer \<times> 'f session" where
  "session_step (Invoke m) s =
     (case adapter_call_on m (se_adapter s) of (r, a) \<Rightarrow>
        let s1 = s\<lparr>se_adapter := a\<rparr> in (r, if starts_goroutine m then EnsureConnected s1 else s1))"
| "session_step (Goroutine k opn res) s =
     (if k < length (se_goroutines s) then
        (case connecting_step opn res (se_goroutines s ! k) (se_adapter s) of (g, a) \<Rightarrow>
           (NoAnswer, s\<lparr>se_adapter := a, se_goroutines := (se_goroutines s)[k := g]\<rparr>))
      else (NoAnswer, s))"
| "session_step (ConnectionUp ks) s =
     (NoAnswer, s\<lparr>se_adapter := connect_handler ks (se_adapter s)\<rparr>)"
| "session_step (ConnectionLost ks e) s =
     (NoAnswer, s\<lparr>se_adapter := lost_handler ks e (se_adapter s)\<rparr>)"

primrec session_run :: "'f adapter_event list \<Rightarrow> 'f session \<Rightarrow> adapter_answer list \<times> 'f session" where
  "session_run [] s = ([], s)"
| "session_run (e # es) s =
     (case session_step e s of (r, s1) \<Rightarrow> case session_run es s1 of (rs, s2) \<Rightarrow> (r # rs, s2))"

definition new_session :: "'f adapter \<Rightarrow> 'f session" where
  "new_session a = \<lparr>se_adapter = a, se_goroutines = []\<rparr>"

text \<open>
  Alone, three steps of a goroutine at the condition of the loop are a round of
  \<open>connect_loop\<close>.
\<close>

lemma connecting_round:
  "(let (g1, s1) = connecting_step opn res Checking s;
        (g2, s2) = connecting_step opn res g1 s1
    in connecting_step opn res g2 s2) =
   (if round_ends (\<lambda>n s. s) (\<lambda>n. opn) (\<lambda>n. res) s 0
    then map_prod Returned (\<lambda>s. s) (round_result (\<lambda>n s. s) (\<lambda>n. opn) s 0)
    else (Checking, retry_state (\<lambda>n s. s) s 1))"
  by (auto simp: round_ends_def round_result_def Connect_def IsConnected_def Let_def split: option.splits)

section \<open>After Disconnect\<close>

fun past_check :: "connecting \<Rightarrow> bool" where
  "past_check Asking = True"
| "past_check Dialling = True"
| "past_check _ = False"

fun steps_left :: "connecting \<Rightarrow> nat" where
  "steps_left Starting = 2"
| "steps_left Checking = 1"
| "steps_left Asking = 3"
| "steps_left Dialling = 2"
| "steps_left (Returned e) = 0"

fun is_step_of :: "nat \<Rightarrow> 'f adapter_event \<Rightarrow> bool" where
  "is_step_of k (Goroutine j opn res) = (j = k)"
| "is_step_of k _ = False"

lemma steps_left_0: "steps_left g = 0 \<longleftrightarrow> (\<exists>e. g = Returned e)"
  by (cases g) simp_all

definition attempts :: "'f adapter \<Rightarrow> nat" where
  "attempts a = count_list (ad_client a) PahoConnect"

definition attempts_bound :: "'f session \<Rightarrow> nat" where
  "attempts_bound s = attempts (se_adapter s) + length (filter past_check (se_goroutines s))"

lemma attempts_paho [simp]: "attempts (paho c a) = attempts a + (if c = PahoConnect then 1 else 0)"
  by (simp add: attempts_def paho_def)

lemma attempts_cong: "ad_client a = ad_client b \<Longrightarrow> attempts a = attempts b"
  by (simp add: attempts_def)

lemma connect_callback_attempts:
  "attempts (run_connect_callback cb a) = attempts a \<and>
   ad_stopRetryConnect (run_connect_callback cb a) = ad_stopRetryConnect a"
  by (cases cb) (simp_all add: announce_def PublishBytes_def OffConnect_def Let_def attempts_def paho_def)

lemma lost_callback_attempts:
  "attempts (run_lost e cb a) = attempts a \<and>
   ad_stopRetryConnect (run_lost e cb a) = ad_stopRetryConnect a"
  by (cases cb) (simp_all add: OffConnectLost_def Let_def attempts_def)

lemma handlers_attempts:
  "attempts (connect_handler ks a) = attempts a"
  "ad_stopRetryConnect (connect_handler ks a) = ad_stopRetryConnect a"
  "attempts (lost_handler ks e a) = attempts a"
  "ad_stopRetryConnect (lost_handler ks e a) = ad_stopRetryConnect a"
proof -
  have "attempts (fold run_connect_callback cbs a) = attempts a \<and>
      ad_stopRetryConnect (fold run_connect_callback cbs a) = ad_stopRetryConnect a" for cbs
    by (induction cbs arbitrary: a) (simp_all add: connect_callback_attempts)
  then show "attempts (connect_handler ks a) = attempts a"
    "ad_stopRetryConnect (connect_handler ks a) = ad_stopRetryConnect a"
    by (simp_all add: connect_handler_def)
  have "attempts (fold (run_lost e) cbs a) = attempts a \<and>
      ad_stopRetryConnect (fold (run_lost e) cbs a) = ad_stopRetryConnect a" for cbs
    by (induction cbs arbitrary: a) (simp_all add: lost_callback_attempts)
  then show "attempts (lost_handler ks e a) = attempts a"
    "ad_stopRetryConnect (lost_handler ks e a) = ad_stopRetryConnect a"
    by (simp_all add: lost_handler_def)
qed

lemma call_attempts:
  assumes "\<And>w. m \<noteq> M_Connect w"
  shows "attempts (snd (adapter_call_on m a)) = attempts a"
    and "ad_stopRetryConnect a \<Longrightarrow> ad_stopRetryConnect (snd (adapter_call_on m a))"
proof -
  have "attempts (snd (adapter_call_on m a)) = attempts a \<and>
    (ad_stopRetryConnect a \<longrightarrow> ad_stopRetryConnect (snd (adapter_call_on m a)))"
    using assms
    by (cases m; auto simp: attempts_def paho_def Subscribe_def SubscribeWait_def SubscribeMultiple_def
      SubscribeMultipleWait_def Unsubscribe_def UnsubscribeWait_def UnsubscribeAll_def
      UnsubscribeAllWait_def PublishBytes_def PublishBytesWait_def PublishObject_def publishObject_def
      PublishObjectWait_def Disconnect_def OnConnectOnce_def OnConnect_def store_on_connect_def OffConnect_def
      OnConnectLostOnce_def OnConnectLost_def OffConnectLost_def Let_def split: sum.splits)
  then show "attempts (snd (adapter_call_on m a)) = attempts a"
    and "ad_stopRetryConnect a \<Longrightarrow> ad_stopRetryConnect (snd (adapter_call_on m a))" by simp_all
qed

text \<open>A step of a goroutine, when retrying was stopped.\<close>

lemma stopped_connecting_step:
  assumes "ad_stopRetryConnect a" and "connecting_step opn res g a = (g', a')"
  shows "ad_stopRetryConnect a'"
    and "attempts a' + (if past_check g' then 1 else 0) \<le> attempts a + (if past_check g then 1 else 0)"
    and "steps_left g' \<le> steps_left g - 1"
  using assms
  by (cases g; auto simp: Connect_def split: option.splits if_splits)+

lemma filter_update_length:
  "k < length gs \<Longrightarrow> length (filter P (gs[k := g])) + (if P (gs ! k) then 1 else 0)
    = length (filter P gs) + (if P g then 1 else 0)"
proof (induction gs arbitrary: k)
  case (Cons x gs)
  then show ?case by (cases k) auto
qed simp

lemma stopped_step:
  assumes "ad_stopRetryConnect (se_adapter s)" and "\<And>w. e \<noteq> Invoke (M_Connect w)"
    and "s' = snd (session_step e s)"
  shows "ad_stopRetryConnect (se_adapter s')"
    and "attempts_bound s' \<le> attempts_bound s"
    and "length (se_goroutines s) \<le> length (se_goroutines s')"
    and "k < length (se_goroutines s) \<Longrightarrow>
      steps_left (se_goroutines s' ! k)
        \<le> steps_left (se_goroutines s ! k) - (if is_step_of k e then 1 else 0)"
proof -
  have "ad_stopRetryConnect (se_adapter s') \<and> attempts_bound s' \<le> attempts_bound s
    \<and> length (se_goroutines s) \<le> length (se_goroutines s')
    \<and> (k < length (se_goroutines s) \<longrightarrow> steps_left (se_goroutines s' ! k)
        \<le> steps_left (se_goroutines s ! k) - (if is_step_of k e then 1 else 0))"
  proof (cases e)
    case (Invoke m)
    with assms(2) have "\<And>w. m \<noteq> M_Connect w" by simp
    note call = call_attempts [OF this, of "se_adapter s"]
    from Invoke call assms(1) show ?thesis
      by (cases "adapter_call_on m (se_adapter s)")
        (simp add: assms(3) attempts_bound_def EnsureConnected_def nth_append Let_def)
  next
    case (Goroutine j opn res)
    show ?thesis
    proof (cases "j < length (se_goroutines s)")
      case True
      obtain g a where g: "connecting_step opn res (se_goroutines s ! j) (se_adapter s) = (g, a)"
        by (cases "connecting_step opn res (se_goroutines s ! j) (se_adapter s)")
      note one = stopped_connecting_step [OF assms(1) g]
      have s': "s' = s\<lparr>se_adapter := a, se_goroutines := (se_goroutines s)[j := g]\<rparr>"
        using Goroutine True g by (simp add: assms(3))
      show ?thesis
        using one filter_update_length [OF True, of past_check g] True
        by (auto simp: s' Goroutine attempts_bound_def nth_list_update split: if_splits)
    qed (use assms Goroutine in auto)
  next
    case (ConnectionUp ks)
    with assms show ?thesis by (simp add: attempts_bound_def handlers_attempts)
  next
    case (ConnectionLost ks err)
    with assms show ?thesis by (simp add: attempts_bound_def handlers_attempts)
  qed
  then show "ad_stopRetryConnect (se_adapter s')"
    and "attempts_bound s' \<le> attempts_bound s"
    and "length (se_goroutines s) \<le> length (se_goroutines s')"
    and "k < length (se_goroutines s) \<Longrightarrow>
      steps_left (se_goroutines s' ! k)
        \<le> steps_left (se_goroutines s ! k) - (if is_step_of k e then 1 else 0)"
    by simp_all
qed

lemma session_run_Cons:
  "session_run (e # es) s =
    (fst (session_step e s) # fst (session_run es (snd (session_step e s))),
     snd (session_run es (snd (session_step e s))))"
  by (simp split: prod.splits)

lemma stopped_history:
  assumes "ad_stopRetryConnect (se_adapter s)" and "\<And>w. Invoke (M_Connect w) \<notin> set es"
  shows "attempts_bound (snd (session_run es s)) \<le> attempts_bound s
    \<and> (k < length (se_goroutines s) \<longrightarrow> steps_left (se_goroutines (snd (session_run es s)) ! k)
        \<le> steps_left (se_goroutines s ! k) - length (filter (is_step_of k) es))"
  using assms
proof (induction es arbitrary: s)
  case (Cons e es)
  have "\<And>w. e \<noteq> Invoke (M_Connect w)" using Cons.prems(2) by auto
  note step1 = stopped_step [OF Cons.prems(1) this HOL.refl]
  have "attempts_bound (snd (session_run es (snd (session_step e s)))) \<le> attempts_bound (snd (session_step e s))
    \<and> (k < length (se_goroutines s) \<longrightarrow> steps_left (se_goroutines (snd (session_run es (snd (session_step e s)))) ! k)
        \<le> steps_left (se_goroutines (snd (session_step e s)) ! k) - length (filter (is_step_of k) es))"
    using Cons.IH [OF step1(1)] Cons.prems(2) step1(3) by auto
  with step1(2) step1(4) [of k] show ?case
    unfolding session_run_Cons by (auto simp: le_diff_conv)
qed simp

text \<open>
  C18. When \<open>Disconnect\<close> was called, no goroutine goes on connecting for ever, whatever the broker
  does and whatever is called on the adapter, \<open>Connect\<close> itself apart: each returns within three of its own steps.  They make no
  more attempts to connect than there were goroutines past the condition of the loop, each at most
  one.
\<close>

theorem stopped_adapter_stops_connecting:
  assumes "ad_stopRetryConnect (se_adapter s)" and "\<And>w. Invoke (M_Connect w) \<notin> set es"
  shows "count_list (ad_client (se_adapter (snd (session_run es s)))) PahoConnect
      \<le> count_list (ad_client (se_adapter s)) PahoConnect + length (filter past_check (se_goroutines s))
    \<and> (\<forall>k < length (se_goroutines s). 3 \<le> length (filter (is_step_of k) es) \<longrightarrow>
        (\<exists>r. se_goroutines (snd (session_run es s)) ! k = Returned r))"
proof (intro conjI allI impI)
  show "count_list (ad_client (se_adapter (snd (session_run es s)))) PahoConnect
      \<le> count_list (ad_client (se_adapter s)) PahoConnect + length (filter past_check (se_goroutines s))"
    using stopped_history [OF assms, of 0] by (simp add: attempts_bound_def attempts_def)
  fix k
  assume "k < length (se_goroutines s)" and "3 \<le> length (filter (is_step_of k) es)"
  moreover have "steps_left (se_goroutines s ! k) \<le> 3" by (cases "se_goroutines s ! k") simp_all
  ultimately have "steps_left (se_goroutines (snd (session_run es s)) ! k) = 0"
    using stopped_history [OF assms, of k] by auto
  then show "\<exists>r. se_goroutines (snd (session_run es s)) ! k = Returned r"
    by (simp add: steps_left_0)
qed

text \<open>
  The bound is met: a goroutine that found the flag clear, and then the client not connected,
  connects after the client was disconnected, and returns.
\<close>

definition dialling_session :: "nat session" where
  "dialling_session = snd (session_run
     [Invoke M_EnsureConnected, Goroutine 0 False None, Goroutine 0 False None, Invoke M_Disconnect]
     (new_session demo_adapter))"

definition late_connect :: "nat adapter_event list" where
  "late_connect = [Goroutine 0 False None, Goroutine 0 False None, Goroutine 0 False None]"

lemma dialling_session_fields:
  "ad_stopRetryConnect (se_adapter dialling_session)"
  "ad_client (se_adapter dialling_session) = [PahoDisconnect 1000]"
  "se_goroutines dialling_session = [Asking]"
  by (simp_all add: dialling_session_def new_session_def EnsureConnected_def IsConnected_def demo_adapter_def
    New_def apply_options_def new_options_def Disconnect_def paho_def Let_def)

theorem stopped_adapter_stops_connecting_witness:
  "ad_client (se_adapter (snd (session_run late_connect dialling_session))) = [PahoDisconnect 1000, PahoConnect]
    \<and> count_list (ad_client (se_adapter (snd (session_run late_connect dialling_session)))) PahoConnect \<le> 1
    \<and> (\<exists>r. se_goroutines (snd (session_run late_connect dialling_session)) ! 0 = Returned r)"
proof -
  have "ad_client (se_adapter (snd (session_run late_connect dialling_session))) = [PahoDisconnect 1000, PahoConnect]"
    by (simp add: late_connect_def dialling_session_fields IsConnected_def Connect_def paho_def)
  then show ?thesis
    using stopped_adapter_stops_connecting [OF dialling_session_fields(1), of late_connect]
    by (simp add: dialling_session_fields late_connect_def)
qed

end
