(* ===== verification/Adapter_Refinement.thy ===== *)
theory Adapter_Refinement
  imports Adapter_Interface
begin

text \<open>
  The specification of the broker adapter and the proof that the adapter of \<open>mqttadapter/mqtt.go\<close>
  implements it over every history.  The specification keeps, in a list, every callback ever
  registered until it is taken off, and says itself which of them run once; it has no machine
  indices, no captured variables and no record of topics.
\<close>

section \<open>The specification\<close>

datatype 'f spec_callback = SpAnnounce | SpAlways 'f | SpOnce 'f

record 'f spec_adapter =
  sp_requests :: "paho_call list"
  sp_options :: client_options
  sp_connect :: "'f spec_callback option list"
  sp_lost :: "'f spec_callback option list"
  sp_stopped :: bool
  sp_called :: "'f list"
  sp_calledLost :: "('f \<times> gerror) list"
  sp_goroutines :: "connecting list"

fun sp_user :: "'f spec_callback \<Rightarrow> 'f option" where
  "sp_user SpAnnounce = None"
| "sp_user (SpAlways f) = Some f"
| "sp_user (SpOnce f) = Some f"

fun sp_kept :: "'f spec_callback option \<Rightarrow> 'f spec_callback option" where
  "sp_kept (Some (SpOnce f)) = None"
| "sp_kept x = x"

definition sp_announcement :: "client_options \<Rightarrow> paho_call" where
  "sp_announcement co =
     PahoPublish \<lparr>m_Topic = co_onlineTopic co, m_QoS = 1, m_Retained = True, m_Payload = co_onlinePayload co\<rparr>"

text \<open>The entries that a walk meets, in its order.\<close>

definition walk :: "'a option list \<Rightarrow> 64 word list \<Rightarrow> 'a list" where
  "walk L ks = List.map_filter (\<lambda>k. L ! unat k) ks"

definition sp_request :: "paho_call \<Rightarrow> 'f spec_adapter \<Rightarrow> 'f spec_adapter" where
  "sp_request c A = A\<lparr>sp_requests := sp_requests A @ [c]\<rparr>"

definition sp_call :: "'f \<Rightarrow> 'f spec_adapter \<Rightarrow> 'f spec_adapter" where
  "sp_call f A = A\<lparr>sp_called := sp_called A @ [f]\<rparr>"

definition sp_publish :: "string \<Rightarrow> byte \<Rightarrow> bool \<Rightarrow> bytes \<Rightarrow> 'f spec_adapter \<Rightarrow> 'f spec_adapter" where
  "sp_publish t q r d =
     sp_request (PahoPublish \<lparr>m_Topic = t, m_QoS = q, m_Retained = r, m_Payload = d\<rparr>)"

fun sp_invoke :: "'f adapter_method \<Rightarrow> 'f spec_adapter \<Rightarrow> adapter_answer \<times> 'f spec_adapter" where
  "sp_invoke M_GetMqttClient A = (AClient (sp_requests A), A)"
| "sp_invoke M_GetClientOptions A = (AnOptions (co_ClientOptions (sp_options A)), A)"
| "sp_invoke (M_OnConnectOnce c c2 f) A =
     (NoAnswer, if c then sp_call f A else A\<lparr>sp_connect := sp_connect A @ [Some (SpOnce f)]\<rparr>)"
| "sp_invoke (M_OnConnectLostOnce f) A = (NoAnswer, A\<lparr>sp_lost := sp_lost A @ [Some (SpOnce f)]\<rparr>)"
| "sp_invoke (M_OnConnect c f) A =
     (AnIndex (of_nat (length (sp_connect A))),
      (if c then sp_call f A else A)\<lparr>sp_connect := sp_connect A @ [Some (SpAlways f)]\<rparr>)"
| "sp_invoke (M_OffConnect i) A = (NoAnswer, A\<lparr>sp_connect := (sp_connect A)[unat i := None]\<rparr>)"
| "sp_invoke (M_OnConnectLost f) A =
     (AnIndex (of_nat (length (sp_lost A))), A\<lparr>sp_lost := sp_lost A @ [Some (SpAlways f)]\<rparr>)"
| "sp_invoke (M_OffConnectLost i) A = (NoAnswer, A\<lparr>sp_lost := (sp_lost A)[unat i := None]\<rparr>)"
| "sp_invoke (M_Connect w) A = (AnError (await w), sp_request PahoConnect A)"
| "sp_invoke M_EnsureConnected A = (NoAnswer, A\<lparr>sp_goroutines := sp_goroutines A @ [Starting]\<rparr>)"
| "sp_invoke M_ConnectAndWaitForSuccess A = (NoAnswer, A\<lparr>sp_goroutines := sp_goroutines A @ [Starting]\<rparr>)"
| "sp_invoke M_Disconnect A = (NoAnswer, sp_request (PahoDisconnect 1000) (A\<lparr>sp_stopped := True\<rparr>))"
| "sp_invoke (M_IsConnected b) A = (ABool b, A)"
| "sp_invoke (M_Subscribe t q) A = (NoAnswer, sp_request (PahoSubscribe t q) A)"
| "sp_invoke (M_SubscribeWait w t q) A = (AnError (await w), sp_request (PahoSubscribe t q) A)"
| "sp_invoke (M_SubscribeMultiple m) A = (NoAnswer, sp_request (PahoSubscribeMultiple m) A)"
| "sp_invoke (M_SubscribeMultipleWait w m) A = (AnError (await w), sp_request (PahoSubscribeMultiple m) A)"
| "sp_invoke (M_Unsubscribe t) A = (NoAnswer, sp_request (PahoUnsubscribe [t]) A)"
| "sp_invoke (M_UnsubscribeWait w t) A = (AnError (await w), sp_request (PahoUnsubscribe [t]) A)"
| "sp_invoke (M_UnsubscribeAll ts) A = (NoAnswer, sp_request (PahoUnsubscribe ts) A)"
| "sp_invoke (M_UnsubscribeAllWait w ts) A = (AnError (await w), sp_request (PahoUnsubscribe ts) A)"
| "sp_invoke (M_PublishBytes t q r d) A = (NoAnswer, sp_publish t q r d A)"
| "sp_invoke (M_PublishBytesWait w t q r d) A = (AnError (await w), sp_publish t q r d A)"
| "sp_invoke (M_PublishObject t q r p) A =
     (case p of Inl e \<Rightarrow> (AnError (Some e), A) | Inr d \<Rightarrow> (AnError None, sp_publish t q False d A))"
| "sp_invoke (M_PublishObjectWait w t q r p) A =
     (case p of Inl e \<Rightarrow> (AnError (Some e), A) | Inr d \<Rightarrow> (AnError (await w), sp_publish t q False d A))"

fun sp_connecting :: "bool \<Rightarrow> gerror option \<Rightarrow> connecting \<Rightarrow> 'f spec_adapter \<Rightarrow> connecting \<times> 'f spec_adapter" where
  "sp_connecting opn res Starting A = (if opn then Returned AlreadyOpen else Checking, A)"
| "sp_connecting opn res Checking A = (if sp_stopped A then Returned StoppedRetrying else Asking, A)"
| "sp_connecting opn res Asking A = (if opn then Returned AlreadyOpen else Dialling, A)"
| "sp_connecting opn res Dialling A =
     (if res = None then Returned ConnectedNow else Checking, sp_request PahoConnect A)"
| "sp_connecting opn res (Returned e) A = (Returned e, A)"

text \<open>
  A connection runs every callback once, announcements included, and forgets those that run once;
  the loss of one does the same for the other list.
\<close>

fun sp_step :: "'f adapter_event \<Rightarrow> 'f spec_adapter \<Rightarrow> adapter_answer \<times> 'f spec_adapter" where
  "sp_step (Invoke m) A = sp_invoke m A"
| "sp_step (Goroutine k opn res) A =
     (if k < length (sp_goroutines A) then
        (case sp_connecting opn res (sp_goroutines A ! k) A of (g, A') \<Rightarrow>
           (NoAnswer, A'\<lparr>sp_goroutines := (sp_goroutines A)[k := g]\<rparr>))
      else (NoAnswer, A))"
| "sp_step (ConnectionUp ks) A =
     (NoAnswer,
      A\<lparr>sp_requests := sp_requests A @
           map (\<lambda>cb. sp_announcement (sp_options A)) (filter (\<lambda>cb. cb = SpAnnounce) (walk (sp_connect A) ks)),
        sp_called := sp_called A @ List.map_filter sp_user (walk (sp_connect A) ks),
        sp_connect := map sp_kept (sp_connect A)\<rparr>)"
| "sp_step (ConnectionLost ks e) A =
     (NoAnswer,
      A\<lparr>sp_calledLost := sp_calledLost A @ map (\<lambda>f. (f, e)) (List.map_filter sp_user (walk (sp_lost A) ks)),
        sp_lost := map sp_kept (sp_lost A)\<rparr>)"

primrec sp_run :: "'f adapter_event list \<Rightarrow> 'f spec_adapter \<Rightarrow> adapter_answer list \<times> 'f spec_adapter" where
  "sp_run [] A = ([], A)"
| "sp_run (e # es) A =
     (case sp_step e A of (r, A1) \<Rightarrow> case sp_run es A1 of (rs, A2) \<Rightarrow> (r # rs, A2))"

section \<open>The invariant\<close>

text \<open>
  A registry is in order when the variable of every wrapper in it holds the wrapper's own index, and
  the indices in use are below the count; \<open>var\<close> names the variable of a wrapper.
\<close>

definition indexed_ok ::
  "('cb \<Rightarrow> nat option) \<Rightarrow> 64 word list \<Rightarrow> (64 word \<Rightarrow> 'cb option) \<Rightarrow> 64 word \<Rightarrow> bool" where
  "indexed_ok var ids m n \<longleftrightarrow>
     (\<forall>j cb v. m j = Some cb \<longrightarrow> var cb = Some v \<longrightarrow> v < length ids \<and> ids ! v = j)
   \<and> (\<forall>j. m j \<noteq> None \<longrightarrow> unat j < unat n)"

lemma indexed_ok_below: "indexed_ok var ids m n \<Longrightarrow> m j = Some cb \<Longrightarrow> unat j < unat n"
  by (auto simp: indexed_ok_def)

lemma indexed_ok_sub:
  assumes "indexed_ok var ids m n" and "\<And>j. m' j = m j \<or> m' j = None"
  shows "indexed_ok var (ids @ xs) m' n"
proof -
  have "m j = Some cb" if "m' j = Some cb" for j cb
    using assms(2) [of j] that by simp
  then have "m j = Some cb" "m j \<noteq> None" if "m' j = Some cb" for j cb
    using that by auto
  then show ?thesis
    using assms(1) unfolding indexed_ok_def by (fastforce simp: nth_append)
qed

lemma indexed_ok_off: "indexed_ok var ids m n \<Longrightarrow> indexed_ok var ids (m(i := None)) n"
  using indexed_ok_sub [of var ids m n "m(i := None)" "[]"] by simp

lemma indexed_ok_store:
  assumes "indexed_ok var ids m n" and "unat n + 1 < 2 ^ 64"
    and "\<And>v. var cb = Some v \<Longrightarrow> v = length ids \<and> xs = [n]"
  shows "indexed_ok var (ids @ xs) (m(n \<mapsto> cb)) (n + 1)"
proof -
  have "indexed_ok var (ids @ xs) m n" by (rule indexed_ok_sub [OF assms(1)]) simp
  with assms(3) no_wrap [OF assms(2)] show ?thesis
    unfolding indexed_ok_def by (auto simp: less_Suc_eq split: if_splits)
qed

text \<open>The entries that a walk of all wrappers takes off are the wrappers.\<close>

lemma indexed_ok_walked:
  assumes "indexed_ok var ids m n"
  shows "(\<exists>cb \<in> ran m. \<exists>v. var cb = Some v \<and> ids ! v = j) \<longleftrightarrow>
    (\<exists>cb. m j = Some cb \<and> var cb \<noteq> None)"
  using assms unfolding indexed_ok_def ran_def by auto

section \<open>The abstraction\<close>

definition registry_list :: "(64 word \<Rightarrow> 'a option) \<Rightarrow> 64 word \<Rightarrow> 'a option list" where
  "registry_list m n = map (\<lambda>i. m (of_nat i)) [0..<unat n]"

lemma length_registry_list [simp]: "length (registry_list m n) = unat n"
  by (simp add: registry_list_def)

lemma nth_registry_list: "unat j < unat n \<Longrightarrow> registry_list m n ! unat j = m j"
  by (simp add: registry_list_def)

lemma registry_list_eqI:
  assumes "length L = unat n" and "\<And>j. unat j < unat n \<Longrightarrow> L ! unat j = m j"
  shows "registry_list m n = L"
proof (rule nth_equalityI)
  fix i
  assume "i < length (registry_list m n)"
  then have i: "i < unat n" by simp
  moreover have "unat n < 2 ^ 64"
    using unsigned_less [of n] by simp
  ultimately have "unat (of_nat i :: 64 word) = i"
    by (simp add: unat_of_nat)
  with i assms(2) [of "of_nat i"] show "registry_list m n ! i = L ! i"
    by (simp add: registry_list_def)
qed (simp add: assms(1))

lemma registry_list_store:
  assumes "unat n + 1 < 2 ^ 64"
  shows "registry_list (m(n \<mapsto> x)) (n + 1) = registry_list m n @ [Some x]"
proof (rule registry_list_eqI)
  fix j :: "64 word"
  assume "unat j < unat (n + 1)"
  then consider "unat j < unat n" "j \<noteq> n" | "j = n"
    using no_wrap [OF assms] by (metis less_antisym add.commute plus_1_eq_Suc word_eq_iff_unsigned)
  then show "(registry_list m n @ [Some x]) ! unat j = (m(n \<mapsto> x)) j"
    by cases (simp_all add: nth_append nth_registry_list)
qed (simp add: no_wrap [OF assms])

lemma registry_list_off: "registry_list (m(i := None)) n = (registry_list m n)[unat i := None]"
proof (rule registry_list_eqI)
  fix j :: "64 word"
  assume "unat j < unat n"
  moreover have "unat j = unat i \<longleftrightarrow> j = i" by (metis word_eq_iff_unsigned)
  ultimately show "(registry_list m n)[unat i := None] ! unat j = (m(i := None)) j"
    by (cases "j = i") (auto simp: nth_registry_list)
qed simp

lemma registry_list_kept:
  assumes "\<And>j. map_option f (m' j) = g (map_option f (m j))"
  shows "map (map_option f) (registry_list m' n) = map g (map (map_option f) (registry_list m n))"
  using assms by (simp add: registry_list_def)

lemma walk_registry_list:
  assumes "\<And>k. k \<in> set ks \<Longrightarrow> unat k < unat n"
  shows "walk (map (map_option f) (registry_list m n)) ks = map f (List.map_filter m ks)"
  using assms
proof (induction ks)
  case (Cons k ks)
  then have "registry_list m n ! unat k = m k" by (simp add: nth_registry_list)
  with Cons show ?case by (simp add: walk_def map_filter_simps split: option.splits)
qed (simp add: walk_def map_filter_simps)

fun once_var :: "'f on_connect_callback \<Rightarrow> nat option" where
  "once_var (OnceConnect v f) = Some v"
| "once_var _ = None"

fun lost_var :: "'f on_lost_callback \<Rightarrow> nat option" where
  "lost_var (OnceLost v f) = Some v"
| "lost_var (UserLost f) = None"

fun abs_connect :: "'f on_connect_callback \<Rightarrow> 'f spec_callback" where
  "abs_connect Announce = SpAnnounce"
| "abs_connect (UserConnect f) = SpAlways f"
| "abs_connect (OnceConnect v f) = SpOnce f"

fun abs_lost :: "'f on_lost_callback \<Rightarrow> 'f spec_callback" where
  "abs_lost (UserLost f) = SpAlways f"
| "abs_lost (OnceLost v f) = SpOnce f"

definition adapter_abs :: "connecting list \<Rightarrow> 'f adapter \<Rightarrow> 'f spec_adapter" where
  "adapter_abs gs a =
     \<lparr>sp_requests = ad_client a, sp_options = ad_clientOptions a,
      sp_connect = map (map_option abs_connect)
        (registry_list (ad_onConnectCallbaks a) (ad_onConnectCallbakCount a)),
      sp_lost = map (map_option abs_lost)
        (registry_list (ad_onConnectLostCallbaks a) (ad_onConnectLostCallbakCount a)),
      sp_stopped = ad_stopRetryConnect a, sp_called = ad_called a, sp_calledLost = ad_calledLost a,
      sp_goroutines = gs\<rparr>"

definition session_abs :: "'f session \<Rightarrow> 'f spec_adapter" where
  "session_abs s = adapter_abs (se_goroutines s) (se_adapter s)"

definition adapter_inv :: "'f adapter \<Rightarrow> bool" where
  "adapter_inv a \<longleftrightarrow>
     indexed_ok once_var (ad_subIDs a) (ad_onConnectCallbaks a) (ad_onConnectCallbakCount a)
   \<and> indexed_ok lost_var (ad_subIDs a) (ad_onConnectLostCallbaks a) (ad_onConnectLostCallbakCount a)
   \<and> ad_subscribeMap a = asked_for (ad_client a)"

lemma abs_connect_announce [simp]: "abs_connect cb = SpAnnounce \<longleftrightarrow> cb = Announce"
  by (cases cb) simp_all

lemma sp_user_abs [simp]: "sp_user (abs_connect cb) = user_of cb"
  by (cases cb) simp_all

fun lost_user :: "'f on_lost_callback \<Rightarrow> 'f" where
  "lost_user (UserLost f) = f"
| "lost_user (OnceLost v f) = f"

lemma sp_user_abs_lost [simp]: "sp_user (abs_lost cb) = Some (lost_user cb)"
  by (cases cb) simp_all

lemma sp_kept_abs:
  "sp_kept (Some (abs_connect cb)) = (if once_var cb = None then Some (abs_connect cb) else None)"
  by (cases cb) simp_all

lemma sp_kept_abs_lost:
  "sp_kept (Some (abs_lost cb)) = (if lost_var cb = None then Some (abs_lost cb) else None)"
  by (cases cb) simp_all

lemma map_filter_map: "List.map_filter g (map h xs) = List.map_filter (\<lambda>x. g (h x)) xs"
  by (induction xs) (simp_all add: map_filter_simps split: option.splits)

section \<open>The handlers\<close>

text \<open>Running callbacks one after the other, as one update.\<close>

lemma run_callbacks_update:
  "fold run_connect_callback cbs a = a\<lparr>
     ad_client := ad_client a @ map (\<lambda>cb. sp_announcement (ad_clientOptions a)) (filter (\<lambda>cb. cb = Announce) cbs),
     ad_called := ad_called a @ List.map_filter user_of cbs,
     ad_onConnectCallbaks := (\<lambda>j. if \<exists>cb \<in> set cbs. \<exists>v. once_var cb = Some v \<and> ad_subIDs a ! v = j
        then None else ad_onConnectCallbaks a j)\<rparr>"
proof (induction cbs arbitrary: a)
  case (Cons cb cbs)
  show ?case
    by (rule adapter.equality; cases cb)
      (auto simp: Cons.IH map_filter_simps announce_def PublishBytes_def paho_def sp_announcement_def
        OffConnect_def Let_def fun_eq_iff)
qed (simp add: map_filter_simps)

lemma run_lost_update:
  "fold (run_lost e) cbs a = a\<lparr>
     ad_calledLost := ad_calledLost a @ map (\<lambda>cb. (lost_user cb, e)) cbs,
     ad_onConnectLostCallbaks := (\<lambda>j. if \<exists>cb \<in> set cbs. \<exists>v. lost_var cb = Some v \<and> ad_subIDs a ! v = j
        then None else ad_onConnectLostCallbaks a j)\<rparr>"
proof (induction cbs arbitrary: a)
  case (Cons cb cbs)
  show ?case
    by (rule adapter.equality; cases cb)
      (auto simp: Cons.IH OffConnectLost_def Let_def fun_eq_iff)
qed simp

lemma set_walked: "set ks = dom m \<Longrightarrow> set (List.map_filter m ks) = ran m"
  by (auto simp: map_filter_def ran_def image_iff dom_def) (metis option.sel option.simps(3))

lemma asked_for_published:
  "asked_for (cs @ map (\<lambda>cb. sp_announcement co) xs) = asked_for cs"
proof (induction xs rule: rev_induct)
  case (snoc x xs)
  then show ?case by (simp add: sp_announcement_def flip: append_assoc)
qed simp

lemma connection_up_refines:
  assumes inv: "adapter_inv a" and ks: "set ks = dom (ad_onConnectCallbaks a)"
  shows "sp_step (ConnectionUp ks) (adapter_abs gs a) = (NoAnswer, adapter_abs gs (connect_handler ks a))"
    and "adapter_inv (connect_handler ks a)"
proof -
  let ?m = "ad_onConnectCallbaks a" and ?cbs = "List.map_filter (ad_onConnectCallbaks a) ks"
  have ok: "indexed_ok once_var (ad_subIDs a) ?m (ad_onConnectCallbakCount a)"
    using inv by (simp add: adapter_inv_def)
  have gone: "(\<exists>cb \<in> set ?cbs. \<exists>v. once_var cb = Some v \<and> ad_subIDs a ! v = j)
      \<longleftrightarrow> (\<exists>cb. ?m j = Some cb \<and> once_var cb \<noteq> None)" for j
    unfolding set_walked [OF ks] by (rule indexed_ok_walked [OF ok])
  define m' where "m' = (\<lambda>j. if \<exists>cb. ?m j = Some cb \<and> once_var cb \<noteq> None then None else ?m j)"
  have handler: "connect_handler ks a = a\<lparr>
     ad_client := ad_client a @ map (\<lambda>cb. sp_announcement (ad_clientOptions a)) (filter (\<lambda>cb. cb = Announce) ?cbs),
     ad_called := ad_called a @ List.map_filter user_of ?cbs, ad_onConnectCallbaks := m'\<rparr>"
    unfolding connect_handler_def run_callbacks_update gone m'_def ..
  have walk: "walk (map (map_option abs_connect) (registry_list ?m (ad_onConnectCallbakCount a))) ks
      = map abs_connect ?cbs"
    by (rule walk_registry_list) (use indexed_ok_below [OF ok] ks in auto)
  have kept: "map (map_option abs_connect) (registry_list m' (ad_onConnectCallbakCount a))
      = map sp_kept (map (map_option abs_connect) (registry_list ?m (ad_onConnectCallbakCount a)))"
  proof (rule registry_list_kept)
    fix j
    show "map_option abs_connect (m' j) = sp_kept (map_option abs_connect (?m j))"
      by (cases "?m j") (auto simp: m'_def sp_kept_abs)
  qed
  show "sp_step (ConnectionUp ks) (adapter_abs gs a) = (NoAnswer, adapter_abs gs (connect_handler ks a))"
    unfolding handler by (simp add: adapter_abs_def walk kept filter_map comp_def map_filter_map)
  have "indexed_ok once_var (ad_subIDs a) m' (ad_onConnectCallbakCount a)"
    using indexed_ok_sub [OF ok, of m' "[]"] by (simp add: m'_def)
  with inv show "adapter_inv (connect_handler ks a)"
    unfolding handler adapter_inv_def by (simp add: asked_for_published)
qed

lemma connection_lost_refines:
  assumes inv: "adapter_inv a" and ks: "set ks = dom (ad_onConnectLostCallbaks a)"
  shows "sp_step (ConnectionLost ks e) (adapter_abs gs a) = (NoAnswer, adapter_abs gs (lost_handler ks e a))"
    and "adapter_inv (lost_handler ks e a)"
proof -
  let ?m = "ad_onConnectLostCallbaks a" and ?cbs = "List.map_filter (ad_onConnectLostCallbaks a) ks"
  have ok: "indexed_ok lost_var (ad_subIDs a) ?m (ad_onConnectLostCallbakCount a)"
    using inv by (simp add: adapter_inv_def)
  have gone: "(\<exists>cb \<in> set ?cbs. \<exists>v. lost_var cb = Some v \<and> ad_subIDs a ! v = j)
      \<longleftrightarrow> (\<exists>cb. ?m j = Some cb \<and> lost_var cb \<noteq> None)" for j
    unfolding set_walked [OF ks] by (rule indexed_ok_walked [OF ok])
  define m' where "m' = (\<lambda>j. if \<exists>cb. ?m j = Some cb \<and> lost_var cb \<noteq> None then None else ?m j)"
  have handler: "lost_handler ks e a = a\<lparr>
     ad_calledLost := ad_calledLost a @ map (\<lambda>cb. (lost_user cb, e)) ?cbs, ad_onConnectLostCallbaks := m'\<rparr>"
    unfolding lost_handler_def run_lost_update gone m'_def ..
  have walk: "walk (map (map_option abs_lost) (registry_list ?m (ad_onConnectLostCallbakCount a))) ks
      = map abs_lost ?cbs"
    by (rule walk_registry_list) (use indexed_ok_below [OF ok] ks in auto)
  have kept: "map (map_option abs_lost) (registry_list m' (ad_onConnectLostCallbakCount a))
      = map sp_kept (map (map_option abs_lost) (registry_list ?m (ad_onConnectLostCallbakCount a)))"
  proof (rule registry_list_kept)
    fix j
    show "map_option abs_lost (m' j) = sp_kept (map_option abs_lost (?m j))"
      by (cases "?m j") (auto simp: m'_def sp_kept_abs_lost)
  qed
  have users: "List.map_filter (\<lambda>cb. Some (lost_user cb)) cbs = map lost_user cbs" for cbs :: "'a on_lost_callback list"
    by (induction cbs) (simp_all add: map_filter_simps)
  show "sp_step (ConnectionLost ks e) (adapter_abs gs a) = (NoAnswer, adapter_abs gs (lost_handler ks e a))"
    unfolding handler by (simp add: adapter_abs_def walk kept map_filter_map users comp_def)
  have "indexed_ok lost_var (ad_subIDs a) m' (ad_onConnectLostCallbakCount a)"
    using indexed_ok_sub [OF ok, of m' "[]"] by (simp add: m'_def)
  with inv show "adapter_inv (lost_handler ks e a)"
    unfolding handler adapter_inv_def by simp
qed

section \<open>The calls\<close>

text \<open>
  Storing callbacks, on the two lists; \<open>xs\<close> is what the captured variables grow by.
\<close>

lemma adapter_inv_store:
  assumes "adapter_inv a" and "unat (ad_onConnectCallbakCount a) + 1 < 2 ^ 64"
    and "\<And>v. once_var cb = Some v \<Longrightarrow> v = length (ad_subIDs a) \<and> xs = [ad_onConnectCallbakCount a]"
  shows "adapter_inv (a\<lparr>ad_onConnectCallbakCount := ad_onConnectCallbakCount a + 1,
      ad_onConnectCallbaks := (ad_onConnectCallbaks a)(ad_onConnectCallbakCount a \<mapsto> cb),
      ad_subIDs := ad_subIDs a @ xs, ad_called := fs\<rparr>)"
proof -
  have "indexed_ok once_var (ad_subIDs a @ xs)
      ((ad_onConnectCallbaks a)(ad_onConnectCallbakCount a \<mapsto> cb)) (ad_onConnectCallbakCount a + 1)"
    by (rule indexed_ok_store [OF _ assms(2,3)]) (use assms(1) in \<open>simp_all add: adapter_inv_def\<close>)
  then show ?thesis
    using assms(1) indexed_ok_sub [of lost_var "ad_subIDs a" "ad_onConnectLostCallbaks a"]
    by (simp add: adapter_inv_def)
qed

lemma adapter_inv_store_lost:
  assumes "adapter_inv a" and "unat (ad_onConnectLostCallbakCount a) + 1 < 2 ^ 64"
    and "\<And>v. lost_var cb = Some v \<Longrightarrow> v = length (ad_subIDs a) \<and> xs = [ad_onConnectLostCallbakCount a]"
  shows "adapter_inv (a\<lparr>ad_onConnectLostCallbakCount := ad_onConnectLostCallbakCount a + 1,
      ad_onConnectLostCallbaks := (ad_onConnectLostCallbaks a)(ad_onConnectLostCallbakCount a \<mapsto> cb),
      ad_subIDs := ad_subIDs a @ xs\<rparr>)"
proof -
  have "indexed_ok lost_var (ad_subIDs a @ xs)
      ((ad_onConnectLostCallbaks a)(ad_onConnectLostCallbakCount a \<mapsto> cb)) (ad_onConnectLostCallbakCount a + 1)"
    by (rule indexed_ok_store [OF _ assms(2,3)]) (use assms(1) in \<open>simp_all add: adapter_inv_def\<close>)
  then show ?thesis
    using assms(1) indexed_ok_sub [of once_var "ad_subIDs a" "ad_onConnectCallbaks a"]
    by (simp add: adapter_inv_def)
qed

text \<open>
  The histories for which the specification is claimed: \<open>OnConnectOnce\<close> gets the same answer
  both times, and a handler walks the registered indices.
\<close>

fun event_ok :: "'f session \<Rightarrow> 'f adapter_event \<Rightarrow> bool" where
  "event_ok s (Invoke (M_OnConnectOnce c c2 f)) \<longleftrightarrow> c2 = c"
| "event_ok s (ConnectionUp ks) \<longleftrightarrow> set ks = dom (ad_onConnectCallbaks (se_adapter s))"
| "event_ok s (ConnectionLost ks e) \<longleftrightarrow> set ks = dom (ad_onConnectLostCallbaks (se_adapter s))"
| "event_ok s _ \<longleftrightarrow> True"

fun history_ok :: "'f session \<Rightarrow> 'f adapter_event list \<Rightarrow> bool" where
  "history_ok s [] \<longleftrightarrow> True"
| "history_ok s (e # es) \<longleftrightarrow> event_ok s e \<and> history_ok (snd (session_step e s)) es"

definition room :: "nat \<Rightarrow> 'f adapter \<Rightarrow> bool" where
  "room n a \<longleftrightarrow> unat (ad_onConnectCallbakCount a) + n < 2 ^ 64
             \<and> unat (ad_onConnectLostCallbakCount a) + n < 2 ^ 64"

lemma OnConnect_update:
  "OnConnect c (UserConnect f) a = (ad_onConnectCallbakCount a,
    a\<lparr>ad_onConnectCallbakCount := ad_onConnectCallbakCount a + 1,
      ad_onConnectCallbaks := (ad_onConnectCallbaks a)(ad_onConnectCallbakCount a \<mapsto> UserConnect f),
      ad_subIDs := ad_subIDs a @ [], ad_called := ad_called a @ (if c then [f] else [])\<rparr>)"
  by (simp add: OnConnect_def store_on_connect_def Let_def)

lemma OnConnectOnce_update:
  "OnConnectOnce False False f a =
    a\<lparr>ad_onConnectCallbakCount := ad_onConnectCallbakCount a + 1,
      ad_onConnectCallbaks := (ad_onConnectCallbaks a)(ad_onConnectCallbakCount a \<mapsto> OnceConnect (length (ad_subIDs a)) f),
      ad_subIDs := ad_subIDs a @ [ad_onConnectCallbakCount a], ad_called := ad_called a\<rparr>"
  by (simp add: OnConnectOnce_def OnConnect_def store_on_connect_def Let_def)

lemma OnConnectLost_update:
  "OnConnectLost (UserLost f) a = (ad_onConnectLostCallbakCount a,
    a\<lparr>ad_onConnectLostCallbakCount := ad_onConnectLostCallbakCount a + 1,
      ad_onConnectLostCallbaks := (ad_onConnectLostCallbaks a)(ad_onConnectLostCallbakCount a \<mapsto> UserLost f),
      ad_subIDs := ad_subIDs a @ []\<rparr>)"
  by (simp add: OnConnectLost_def Let_def)

lemma OnConnectLostOnce_update:
  "OnConnectLostOnce f a =
    a\<lparr>ad_onConnectLostCallbakCount := ad_onConnectLostCallbakCount a + 1,
      ad_onConnectLostCallbaks := (ad_onConnectLostCallbaks a)(ad_onConnectLostCallbakCount a \<mapsto> OnceLost (length (ad_subIDs a)) f),
      ad_subIDs := ad_subIDs a @ [ad_onConnectLostCallbakCount a]\<rparr>"
  by (simp add: OnConnectLostOnce_def OnConnectLost_def Let_def)

lemmas registration_updates =
  OnConnect_update OnConnectOnce_update OnConnectLost_update OnConnectLostOnce_update

lemmas request_defs = paho_def Subscribe_def SubscribeWait_def SubscribeMultiple_def
  SubscribeMultipleWait_def Unsubscribe_def UnsubscribeWait_def UnsubscribeAll_def
  UnsubscribeAllWait_def PublishBytes_def PublishBytesWait_def PublishObject_def publishObject_def
  PublishObjectWait_def Connect_def Disconnect_def sp_request_def sp_publish_def

fun registers :: "'f adapter_method \<Rightarrow> bool" where
  "registers (M_OnConnectOnce c c2 f) = True"
| "registers (M_OnConnectLostOnce f) = True"
| "registers (M_OnConnect c f) = True"
| "registers (M_OnConnectLost f) = True"
| "registers _ = False"

fun unregisters :: "'f adapter_method \<Rightarrow> bool" where
  "unregisters (M_OffConnect i) = True"
| "unregisters (M_OffConnectLost i) = True"
| "unregisters _ = False"

definition call_refines :: "'f adapter_method \<Rightarrow> 'f adapter \<Rightarrow> bool" where
  "call_refines m a \<longleftrightarrow>
     (\<forall>gs. sp_invoke m (adapter_abs gs a) =
        (fst (adapter_call_on m a),
         adapter_abs (gs @ (if starts_goroutine m then [Starting] else [])) (snd (adapter_call_on m a))))
   \<and> adapter_inv (snd (adapter_call_on m a))"

lemma request_refines:
  assumes "adapter_inv a" and "\<not> registers m" and "\<not> unregisters m"
  shows "call_refines m a"
  using assms
  by (cases m)
    (simp_all add: call_refines_def adapter_inv_def adapter_abs_def request_defs GetMqttClient_def
      GetClientOptions_def IsConnected_def Let_def split: sum.splits)

lemma unregister_refines:
  assumes "adapter_inv a" and "unregisters m"
  shows "call_refines m a"
  using assms
  by (cases m)
    (simp_all add: call_refines_def adapter_inv_def adapter_abs_def OffConnect_def OffConnectLost_def
      registry_list_off map_update indexed_ok_off)

lemma register_refines:
  assumes "adapter_inv a" and "registers m" and "\<And>c c2 f. m = M_OnConnectOnce c c2 f \<Longrightarrow> c2 = c"
    and "room 1 a"
  shows "call_refines m a"
proof -
  have small: "unat (ad_onConnectCallbakCount a) + 1 < 2 ^ 64" "unat (ad_onConnectLostCallbakCount a) + 1 < 2 ^ 64"
    using assms(4) by (simp_all add: room_def)
  note stored = adapter_inv_store [OF assms(1) small(1)] adapter_inv_store_lost [OF assms(1) small(2)]
  note lists = registry_list_store [OF small(1)] registry_list_store [OF small(2)]
  show ?thesis
  proof (cases m)
    case (M_OnConnectOnce c c2 f)
    with assms(1,3) stored(1) [of "OnceConnect (length (ad_subIDs a)) f"] show ?thesis
      by (cases c)
        (auto simp: call_refines_def adapter_abs_def lists OnConnectOnce_update OnConnectOnce_connected
          sp_call_def adapter_inv_def)
  next
    case (M_OnConnect c f)
    with stored(1) [of "UserConnect f" "[]"] show ?thesis
      by (simp add: call_refines_def adapter_abs_def lists OnConnect_update sp_call_def)
  next
    case (M_OnConnectLost f)
    with stored(2) [of "UserLost f" "[]"] show ?thesis
      by (simp add: call_refines_def adapter_abs_def lists OnConnectLost_update)
  next
    case (M_OnConnectLostOnce f)
    with stored(2) [of "OnceLost (length (ad_subIDs a)) f"] show ?thesis
      by (simp add: call_refines_def adapter_abs_def lists OnConnectLostOnce_update)
  qed (use assms(2) in simp_all)
qed

section \<open>Histories\<close>

lemma goroutine_refines:
  assumes "connecting_step opn res g a = (g', a')"
  shows "sp_connecting opn res g (adapter_abs gs a) = (g', adapter_abs gs a')"
    and "adapter_inv a \<Longrightarrow> adapter_inv a'"
proof -
  have "sp_connecting opn res g (adapter_abs gs a) = (g', adapter_abs gs a') \<and>
    (adapter_inv a \<longrightarrow> adapter_inv a')"
    using assms
    by (cases g)
      (auto simp: Connect_def paho_def IsConnected_def adapter_abs_def sp_request_def adapter_inv_def
        split: option.splits)
  then show "sp_connecting opn res g (adapter_abs gs a) = (g', adapter_abs gs a')"
    and "adapter_inv a \<Longrightarrow> adapter_inv a'" by simp_all
qed

lemma event_refines:
  assumes inv: "adapter_inv (se_adapter s)" and ok: "event_ok s e" and "room 1 (se_adapter s)"
  shows "sp_step e (session_abs s) = map_prod (\<lambda>r. r) session_abs (session_step e s)"
    and "adapter_inv (se_adapter (snd (session_step e s)))"
proof -
  have "sp_step e (session_abs s) = map_prod (\<lambda>r. r) session_abs (session_step e s)
    \<and> adapter_inv (se_adapter (snd (session_step e s)))"
  proof (cases e)
    case (Invoke m)
    have "\<And>c c2 f. m = M_OnConnectOnce c c2 f \<Longrightarrow> c2 = c" using ok Invoke by simp
    then have "call_refines m (se_adapter s)"
      using request_refines [OF inv] unregister_refines [OF inv] register_refines [OF inv] assms(3) by blast
    then show ?thesis
      using Invoke
      by (auto simp: call_refines_def session_abs_def EnsureConnected_def Let_def split: prod.splits)
  next
    case (Goroutine k opn res)
    show ?thesis
    proof (cases "k < length (se_goroutines s)")
      case True
      obtain g a where g: "connecting_step opn res (se_goroutines s ! k) (se_adapter s) = (g, a)"
        by (cases "connecting_step opn res (se_goroutines s ! k) (se_adapter s)")
      from goroutine_refines [OF g] inv True Goroutine g show ?thesis
        by (simp add: session_abs_def) (simp add: adapter_abs_def)
    qed (use inv Goroutine in \<open>simp_all add: session_abs_def adapter_abs_def\<close>)
  next
    case (ConnectionUp ks)
    with connection_up_refines [OF inv] ok show ?thesis
      by (simp add: session_abs_def del: sp_step.simps)
  next
    case (ConnectionLost ks err)
    with connection_lost_refines [OF inv] ok show ?thesis
      by (simp add: session_abs_def del: sp_step.simps)
  qed
  then show "sp_step e (session_abs s) = map_prod (\<lambda>r. r) session_abs (session_step e s)"
    and "adapter_inv (se_adapter (snd (session_step e s)))" by simp_all
qed

text \<open>Events take up no more than one index each.\<close>

lemma counts_step:
  assumes "room (Suc n) (se_adapter s)"
  shows "room n (se_adapter (snd (session_step e s)))"
proof -
  let ?c = "\<lambda>a. ad_onConnectCallbakCount a" and ?l = "\<lambda>a. ad_onConnectLostCallbakCount a"
  have small: "unat (?c (se_adapter s)) + 1 < 2 ^ 64" "unat (?l (se_adapter s)) + 1 < 2 ^ 64"
    using assms by (simp_all add: room_def)
  note next_counts = no_wrap [OF small(1)] no_wrap [OF small(2)]
  have call: "room n (snd (adapter_call_on m (se_adapter s)))" for m
    using assms next_counts
    by (cases m; auto simp: room_def request_defs OnConnectOnce_def OnConnect_def store_on_connect_def
      OffConnect_def OnConnectLostOnce_def OnConnectLost_def OffConnectLost_def Let_def split: sum.splits)
  have step: "room n (snd (connecting_step opn res g (se_adapter s)))" for opn res g
    using assms by (cases g) (auto simp: room_def Connect_def paho_def split: option.splits)
  have same: "room n (se_adapter s)" using assms by (simp add: room_def)
  show ?thesis
  proof (cases e)
    case (Invoke m)
    with call [of m] show ?thesis
      by (cases "adapter_call_on m (se_adapter s)") (simp add: EnsureConnected_def Let_def)
  next
    case (Goroutine k opn res)
    with step [of opn res "se_goroutines s ! k"] same show ?thesis
      by (cases "connecting_step opn res (se_goroutines s ! k) (se_adapter s)") simp
  next
    case (ConnectionUp ks)
    with same show ?thesis by (simp add: room_def connect_handler_def run_callbacks_update)
  next
    case (ConnectionLost ks err)
    with same show ?thesis by (simp add: room_def lost_handler_def run_lost_update)
  qed
qed

lemma history_refines:
  assumes "adapter_inv (se_adapter s)" and "history_ok s es" and "room (length es) (se_adapter s)"
  shows "sp_run es (session_abs s) = map_prod (\<lambda>rs. rs) session_abs (session_run es s)
    \<and> adapter_inv (se_adapter (snd (session_run es s)))"
  using assms
proof (induction es arbitrary: s)
  case (Cons e es)
  let ?s1 = "snd (session_step e s)"
  have ok: "event_ok s e" "history_ok ?s1 es" using Cons.prems(2) by simp_all
  have "room 1 (se_adapter s)" using Cons.prems(3) by (simp add: room_def)
  note step1 = event_refines [OF Cons.prems(1) ok(1) this]
  have "room (length es) (se_adapter ?s1)" by (rule counts_step) (use Cons.prems(3) in simp)
  note rest = Cons.IH [OF step1(2) ok(2) this]
  have "sp_step e (session_abs s) = (fst (session_step e s), session_abs ?s1)"
    using step1(1) by (simp add: map_prod_def split: prod.splits)
  moreover have "sp_run es (session_abs ?s1) = (fst (session_run es ?s1), session_abs (snd (session_run es ?s1)))"
    using rest by (simp add: map_prod_def split: prod.splits)
  ultimately show ?case
    using rest unfolding session_run_Cons by simp
qed simp

lemma New_inv:
  assumes "New parsed connected uri clientID os = Inr a"
  shows "adapter_inv a"
    and "unat (ad_onConnectCallbakCount a) \<le> 1 \<and> unat (ad_onConnectLostCallbakCount a) = 0"
proof -
  have "adapter_inv a \<and> unat (ad_onConnectCallbakCount a) \<le> 1 \<and> unat (ad_onConnectLostCallbakCount a) = 0"
    using assms
    by (auto simp: New_def Let_def adapter_inv_def indexed_ok_def OnConnect_def store_on_connect_def
      announce_def PublishBytes_def paho_def asked_for_def split: sum.splits if_splits)
  then show "adapter_inv a"
    and "unat (ad_onConnectCallbakCount a) \<le> 1 \<and> unat (ad_onConnectLostCallbakCount a) = 0" by simp_all
qed


text \<open>
  A function to run once, and one on every loss; two connections, one loss, and a subscription given
  up by its caller.
\<close>

definition demo_history :: "nat adapter_event list" where
  "demo_history =
     [Invoke (M_OnConnectOnce False False 7), Invoke (M_OnConnectLost 5), ConnectionUp [0], ConnectionUp [],
      Invoke (M_SubscribeWait (CtxDone ErrTimeout) ''a'' 1), ConnectionLost [0] ErrEOF,
      Invoke (M_OnConnect True 8)]"

lemma demo_lost_fields:
  "ad_onConnectLostCallbakCount demo_adapter = 0" "ad_onConnectLostCallbaks demo_adapter = Map.empty"
  "ad_calledLost demo_adapter = []" "ad_client demo_adapter = []"
  by (simp_all add: demo_adapter_def New_def Let_def apply_options_def new_options_def)

lemma demo_history_ok: "history_ok (new_session demo_adapter) demo_history"
  by (simp add: demo_history_def new_session_def demo_fields demo_lost_fields OnConnectOnce_update
    OnConnectLost_update connect_handler_def OffConnect_def map_filter_simps SubscribeWait_def
    Subscribe_def paho_def Let_def dom_def)


end
