(* ===== verification/Once_Window.thy ===== *)
theory Once_Window
  imports Mqtt_Adapter
begin

text \<open>
  The window that \<open>OnConnectOnce\<close> leaves open (\<open>mqttadapter/mqtt.go\<close>): the wrapper is registered
  by \<open>OnConnect\<close>, and its variable \<open>subID\<close> is assigned when \<open>OnConnect\<close> has returned.
  Here the two are separate steps, and other goroutines register and take off callbacks, and
  connections come up, between them.
\<close>

section \<open>The two steps\<close>

definition once_store :: "bool \<Rightarrow> 'f \<Rightarrow> 'f adapter \<Rightarrow> 64 word \<times> 'f adapter" where
  "once_store connected2 f s =
     OnConnect connected2 (OnceConnect (length (ad_subIDs s)) f) (s\<lparr>ad_subIDs := ad_subIDs s @ [0]\<rparr>)"

definition once_assign :: "nat \<Rightarrow> 64 word \<Rightarrow> 'f adapter \<Rightarrow> 'f adapter" where
  "once_assign v idx s = s\<lparr>ad_subIDs := (ad_subIDs s)[v := idx]\<rparr>"

text \<open>Without anything between them the steps are \<open>OnConnectOnce\<close>.\<close>

lemma OnConnectOnce_steps:
  "OnConnectOnce False c f s =
    (case once_store c f s of (idx, s1) \<Rightarrow> once_assign (length (ad_subIDs s)) idx s1)"
  by (simp add: OnConnectOnce_def once_store_def once_assign_def Let_def split: prod.splits)

lemma once_assign_fields [simp]:
  "ad_onConnectCallbaks (once_assign v i s) = ad_onConnectCallbaks s"
  "ad_onConnectCallbakCount (once_assign v i s) = ad_onConnectCallbakCount s"
  "ad_called (once_assign v i s) = ad_called s"
  "ad_subIDs (once_assign v i s) = (ad_subIDs s)[v := i]"
  by (simp_all add: once_assign_def)

lemma once_store_fields:
  "fst (once_store c f s) = ad_onConnectCallbakCount s"
  "ad_onConnectCallbakCount (snd (once_store c f s)) = ad_onConnectCallbakCount s + 1"
  "ad_subIDs (snd (once_store c f s)) = ad_subIDs s @ [0]"
  "ad_called (snd (once_store c f s)) = ad_called s @ (if c then [f] else [])"
  "ad_onConnectCallbaks (snd (once_store c f s)) =
     (if c then (ad_onConnectCallbaks s)(0 := None) else ad_onConnectCallbaks s)
       (ad_onConnectCallbakCount s \<mapsto> OnceConnect (length (ad_subIDs s)) f)"
  by (simp_all add: once_store_def OnConnect_def store_on_connect_def OffConnect_def Let_def)

section \<open>Between the steps\<close>

text \<open>
  In the window the wrapper of \<open>f\<close> at \<open>i\<close> is the only callback with \<open>f\<close>, its variable
  \<open>v\<close> is still zero, and once the variable is assigned the registry is in order.
\<close>

definition window_inv :: "64 word \<Rightarrow> nat \<Rightarrow> 'f \<Rightarrow> 'f adapter \<Rightarrow> bool" where
  "window_inv i v f s \<longleftrightarrow>
     once_inv i f True (once_assign v i s)
   \<and> ad_onConnectCallbaks s i = Some (OnceConnect v f)
   \<and> v < length (ad_subIDs s) \<and> ad_subIDs s ! v = 0"

lemma window_inv_wrapper:
  assumes "window_inv i v f s" and "ad_onConnectCallbaks s j = Some (OnceConnect u g)"
  shows "u < length (ad_subIDs s) \<and> (if j = i then u = v else u \<noteq> v \<and> ad_subIDs s ! u = j)"
proof -
  have "u < length (ad_subIDs s)" "(ad_subIDs s)[v := i] ! u = j"
    using assms unfolding window_inv_def once_inv_def registry_ok_def by auto
  with assms show ?thesis
    by (auto simp: window_inv_def nth_list_update split: if_splits)
qed

lemma wrapper_index_Some:
  "wrapper_index ids cb = Some j \<longleftrightarrow> (\<exists>u g. cb = OnceConnect u g \<and> ids ! u = j)"
  by (cases cb) auto

text \<open>A connection in the window takes off the index zero, and leaves the wrapper.\<close>

lemma window_handler_callbaks:
  assumes "window_inv i v f s" and "set ks = dom (ad_onConnectCallbaks s)" and "i \<noteq> 0"
  shows "ad_onConnectCallbaks (connect_handler ks s) j =
    (if j = i then Some (OnceConnect v f) else if j = 0 then None
     else case ad_onConnectCallbaks s j of Some (OnceConnect u g) \<Rightarrow> None | x \<Rightarrow> x)"
proof -
  have walked: "set (List.map_filter (ad_onConnectCallbaks s) ks) = {cb. \<exists>j. ad_onConnectCallbaks s j = Some cb}"
    using assms(2) by (auto simp: map_filter_def image_iff dom_def) (metis option.sel option.simps(3))
  have here: "ad_onConnectCallbaks s i = Some (OnceConnect v f)" "ad_subIDs s ! v = 0"
    using assms(1) by (simp_all add: window_inv_def)
  have "(\<exists>cb. (\<exists>k. ad_onConnectCallbaks s k = Some cb) \<and> wrapper_index (ad_subIDs s) cb = Some j)
      \<longleftrightarrow> j = 0 \<or> j \<noteq> i \<and> (\<exists>u g. ad_onConnectCallbaks s j = Some (OnceConnect u g))"
    (is "?L \<longleftrightarrow> ?R")
  proof
    assume ?L
    then obtain k u g where k: "ad_onConnectCallbaks s k = Some (OnceConnect u g)" "ad_subIDs s ! u = j"
      by (auto simp: wrapper_index_Some)
    with window_inv_wrapper [OF assms(1) k(1)] here show ?R by (cases "k = i") auto
  next
    assume ?R
    then show ?L
    proof (elim disjE conjE exE)
      assume "j = 0"
      with here show ?L by (intro exI [of _ "OnceConnect v f"]) auto
    next
      fix u g
      assume "j \<noteq> i" and j: "ad_onConnectCallbaks s j = Some (OnceConnect u g)"
      with window_inv_wrapper [OF assms(1) j] show ?L
        by (intro exI [of _ "OnceConnect u g"]) auto
    qed
  qed
  then show ?thesis
    unfolding connect_handler_def run_callbacks_fields walked
    using here assms(3) by (auto split: option.splits on_connect_callback.splits)
qed

lemma window_handler:
  assumes "window_inv i v f s" and "set ks = dom (ad_onConnectCallbaks s)" and "i \<noteq> 0"
  shows "window_inv i v f (connect_handler ks s)"
proof -
  let ?s' = "connect_handler ks s"
  note cbs = window_handler_callbaks [OF assms]
  have kept: "ad_onConnectCallbaks ?s' j = ad_onConnectCallbaks s j \<or> ad_onConnectCallbaks ?s' j = None" for j
    using assms(1) by (auto simp: cbs window_inv_def split: option.splits on_connect_callback.splits)
  have i: "ad_onConnectCallbaks ?s' i = Some (OnceConnect v f)" by (simp add: cbs)
  have old: "once_inv i f True (once_assign v i s)" using assms(1) by (simp add: window_inv_def)
  have "registry_ok (once_assign v i ?s')"
    by (rule registry_ok_removed [where s = "once_assign v i s"])
      (use old kept in \<open>simp_all add: once_inv_def handler_other_fields\<close>)
  moreover have "{j. \<exists>cb. ad_onConnectCallbaks ?s' j = Some cb \<and> user_of cb = Some f} = {i}"
  proof (intro equalityI subsetI)
    fix j
    assume "j \<in> {j. \<exists>cb. ad_onConnectCallbaks ?s' j = Some cb \<and> user_of cb = Some f}"
    then have "j \<in> {j. \<exists>cb. ad_onConnectCallbaks s j = Some cb \<and> user_of cb = Some f}"
      using kept [of j] by auto
    with old show "j \<in> {i}" by (simp add: once_inv_def)
  next
    fix j
    assume "j \<in> {i}"
    with i show "j \<in> {j. \<exists>cb. ad_onConnectCallbaks ?s' j = Some cb \<and> user_of cb = Some f}" by simp
  qed
  ultimately show ?thesis
    using i assms(1) by (simp add: window_inv_def once_inv_def handler_other_fields)
qed

text \<open>The other events do not look at the variable.\<close>

lemma connect_ev_assign:
  assumes "\<not> is_connected_ev e" and "v < length (ad_subIDs s)"
  shows "connect_ev e (once_assign v i s) = once_assign v i (connect_ev e s)"
  using assms
  by (cases e)
    (simp_all add: once_assign_def OnConnect_def OnConnectOnce_def store_on_connect_def OffConnect_def
      Let_def list_update_append nth_append list_update_length)

lemma connect_ev_keeps_variable:
  assumes "\<not> is_connected_ev e" and "v < length (ad_subIDs s)"
  shows "v < length (ad_subIDs (connect_ev e s)) \<and> ad_subIDs (connect_ev e s) ! v = ad_subIDs s ! v"
  using assms
  by (cases e)
    (simp_all add: OnConnect_def OnConnectOnce_def store_on_connect_def OffConnect_def Let_def nth_append
      list_update_append)

lemma connect_ev_keeps_entry:
  assumes "\<not> is_connected_ev e" and "e \<noteq> EvOffConnect j"
    and "j \<noteq> ad_onConnectCallbakCount s"
  shows "ad_onConnectCallbaks (connect_ev e s) j = ad_onConnectCallbaks s j"
proof (cases e)
  case (EvOnConnectOnce c g)
  with assms(3) show ?thesis by (cases c) (simp_all add: OnConnectOnce_fields OnConnectOnce_connected)
qed (use assms in \<open>simp_all add: OnConnect_user_fields OffConnect_def\<close>)

lemma window_step:
  assumes "window_inv i v f s" and "ev_ok i f s e" and "i \<noteq> 0"
    and "unat (ad_onConnectCallbakCount s) + 1 < 2 ^ 64"
  shows "window_inv i v f (connect_ev e s)"
    and "count_list (ad_called (connect_ev e s)) f
      = count_list (ad_called s) f + (if is_connected_ev e then 1 else 0)"
    and "unat (ad_onConnectCallbakCount (connect_ev e s)) \<le> unat (ad_onConnectCallbakCount s) + 1"
proof -
  have inv: "once_inv i f True (once_assign v i s)" "ad_onConnectCallbaks s i = Some (OnceConnect v f)"
    "v < length (ad_subIDs s)" "ad_subIDs s ! v = 0"
    using assms(1) by (simp_all add: window_inv_def)
  have "window_inv i v f (connect_ev e s) \<and>
    count_list (ad_called (connect_ev e s)) f
      = count_list (ad_called s) f + (if is_connected_ev e then 1 else 0) \<and>
    unat (ad_onConnectCallbakCount (connect_ev e s)) \<le> unat (ad_onConnectCallbakCount s) + 1"
  proof (cases "is_connected_ev e")
    case True
    then obtain ks where e: "e = EvConnected ks" by (cases e) simp_all
    with assms(2) have ks: "distinct ks" "set ks = dom (ad_onConnectCallbaks s)" by simp_all
    have "card {j. \<exists>cb. ad_onConnectCallbaks s j = Some cb \<and> user_of cb = Some f} = 1"
      using inv(1) by (simp add: once_inv_def)
    with window_handler [OF assms(1) ks(2) assms(3)] handler_calls [OF ks, of f] e True show ?thesis
      by (simp add: handler_other_fields)
  next
    case False
    have ok: "ev_ok i f (once_assign v i s) e"
      using assms(2) False by (cases e) simp_all
    have small: "unat (ad_onConnectCallbakCount (once_assign v i s)) + 1 < 2 ^ 64"
      using assms(4) by simp
    note moved = connect_ev_assign [OF False inv(3), of i]
    have "i \<noteq> ad_onConnectCallbakCount s"
      using inv(1,2) registry_ok_fresh [of "once_assign v i s"] by (auto simp: once_inv_def)
    moreover have "e \<noteq> EvOffConnect i" using assms(2) by auto
    ultimately have "ad_onConnectCallbaks (connect_ev e s) i = Some (OnceConnect v f)"
      using connect_ev_keeps_entry [OF False] inv(2) by metis
    then show ?thesis
      using once_step [OF inv(1) ok small] connect_ev_keeps_variable [OF False inv(3)] inv(4) False
      by (simp add: moved window_inv_def)
  qed
  then show "window_inv i v f (connect_ev e s)"
    and "count_list (ad_called (connect_ev e s)) f
      = count_list (ad_called s) f + (if is_connected_ev e then 1 else 0)"
    and "unat (ad_onConnectCallbakCount (connect_ev e s)) \<le> unat (ad_onConnectCallbakCount s) + 1"
    by simp_all
qed

lemma window_history:
  assumes "window_inv i v f s" and "evs_ok i f s es" and "i \<noteq> 0"
    and "unat (ad_onConnectCallbakCount s) + length es < 2 ^ 64"
  shows "window_inv i v f (fold connect_ev es s)
    \<and> count_list (ad_called (fold connect_ev es s)) f
      = count_list (ad_called s) f + length (filter is_connected_ev es)
    \<and> unat (ad_onConnectCallbakCount (fold connect_ev es s))
      \<le> unat (ad_onConnectCallbakCount s) + length es"
  using assms
proof (induction es arbitrary: s)
  case (Cons e es)
  then have ok: "ev_ok i f s e" "unat (ad_onConnectCallbakCount s) + 1 < 2 ^ 64" by simp_all
  note step1 = window_step [OF Cons.prems(1) ok(1) assms(3) ok(2)]
  have "unat (ad_onConnectCallbakCount (connect_ev e s)) + length es < 2 ^ 64"
    using step1(3) Cons.prems(4) by simp
  with Cons.IH [OF step1(1)] Cons.prems(2,3) step1(2,3) show ?case by auto
qed simp

section \<open>The callback with index zero\<close>

text \<open>
  A function registered at the index zero, to run on every connection: what the window, and what
  other events make of it.
\<close>

lemma connect_ev_count_pos:
  assumes "unat (ad_onConnectCallbakCount s) + 1 < 2 ^ 64" and "0 < unat (ad_onConnectCallbakCount s)"
  shows "0 < unat (ad_onConnectCallbakCount (connect_ev e s))"
  using no_wrap [OF assms(1)] assms(2)
  by (cases e) (auto simp: OnConnect_user_fields OnConnectOnce_def OnConnect_def store_on_connect_def
    OffConnect_def handler_other_fields Let_def)

lemma window_zero:
  assumes "window_inv i v f s" and "evs_ok i f s es" and "i \<noteq> 0"
    and "unat (ad_onConnectCallbakCount s) + length es < 2 ^ 64"
    and "EvOffConnect 0 \<notin> set es" and "0 < unat (ad_onConnectCallbakCount s)"
    and "ad_onConnectCallbaks s 0 = entry" and "\<And>u h. entry \<noteq> Some (OnceConnect u h)"
  shows "ad_onConnectCallbaks (fold connect_ev es s) 0
    = (if \<exists>e \<in> set es. is_connected_ev e then None else entry)"
  using assms(1,2,4-8)
proof (induction es arbitrary: s entry)
  case (Cons e es)
  then have ok: "ev_ok i f s e" "unat (ad_onConnectCallbakCount s) + 1 < 2 ^ 64" by simp_all
  note step1 = window_step [OF Cons.prems(1) ok(1) assms(3) ok(2)]
  have small: "unat (ad_onConnectCallbakCount (connect_ev e s)) + length es < 2 ^ 64"
    using step1(3) Cons.prems(3) by simp
  note pos = connect_ev_count_pos [OF ok(2) Cons.prems(5), of e]
  let ?entry = "if is_connected_ev e then None else entry"
  have "ad_onConnectCallbaks (connect_ev e s) 0 = ?entry"
  proof (cases "is_connected_ev e")
    case True
    then obtain ks where e: "e = EvConnected ks" by (cases e) simp_all
    with ok(1) have "set ks = dom (ad_onConnectCallbaks s)" by simp
    from window_handler_callbaks [OF Cons.prems(1) this assms(3)] e True assms(3) show ?thesis by simp
  next
    case False
    have "0 \<noteq> ad_onConnectCallbakCount s" "e \<noteq> EvOffConnect 0" using Cons.prems(4,5) by auto
    then show ?thesis using connect_ev_keeps_entry [OF False] False Cons.prems(6) by simp
  qed
  with Cons.IH [OF step1(1) _ small _ pos, of ?entry] Cons.prems(2,4,7) show ?case by auto
qed simp

lemma once_zero:
  assumes "once_inv i f w s" and "evs_ok i f s es"
    and "unat (ad_onConnectCallbakCount s) + length es < 2 ^ 64"
    and "EvOffConnect 0 \<notin> set es" and "0 < unat (ad_onConnectCallbakCount s)"
    and "ad_onConnectCallbaks s 0 = entry" and "\<And>u h. entry \<noteq> Some (OnceConnect u h)"
  shows "ad_onConnectCallbaks (fold connect_ev es s) 0 = entry"
  using assms
proof (induction es arbitrary: s w)
  case (Cons e es)
  then have ok: "ev_ok i f s e" "unat (ad_onConnectCallbakCount s) + 1 < 2 ^ 64" by simp_all
  note step1 = once_step [OF Cons.prems(1) ok]
  have small: "unat (ad_onConnectCallbakCount (connect_ev e s)) + length es < 2 ^ 64"
    using step1(3) Cons.prems(3) by simp
  note pos = connect_ev_count_pos [OF ok(2) Cons.prems(5), of e]
  have "ad_onConnectCallbaks (connect_ev e s) 0 = entry"
  proof (cases "is_connected_ev e")
    case True
    then obtain ks where e: "e = EvConnected ks" by (cases e) simp_all
    with ok(1) have "set ks = dom (ad_onConnectCallbaks s)" by simp
    moreover have "registry_ok s" using Cons.prems(1) by (simp add: once_inv_def)
    ultimately show ?thesis
      using handler_callbaks [of s ks 0] e Cons.prems(6,7)
      by (cases entry) (auto split: on_connect_callback.splits)
  next
    case False
    have "0 \<noteq> ad_onConnectCallbakCount s" "e \<noteq> EvOffConnect 0" using Cons.prems(4,5) by auto
    then show ?thesis using connect_ev_keeps_entry [OF False] Cons.prems(6) by simp
  qed
  with Cons.IH [OF step1(1) _ small _ pos] Cons.prems(2,4,7) show ?case by auto
qed simp

section \<open>What the window costs\<close>

text \<open>
  C34. \<open>OnConnectOnce\<close> of a function \<open>f\<close> in two steps, with other events in the window between
  them and after it, on an adapter whose first callback \<open>g\<close> is to run on every connection.  The
  window costs exactly this: \<open>f\<close> is called for every connection in the window, and again by
  the first connection after it; and \<open>g\<close> is taken off if there was such a connection, or if
  the client had become connected when \<open>OnConnect\<close> asked, and stays registered otherwise.
\<close>

theorem once_window_costs:
  assumes "registry_ok s" and "not_registered f s" and "ad_onConnectCallbaks s 0 = Some (UserConnect g)"
    and "once_store connected2 f s = (i, s1)" and "s2 = once_assign (length (ad_subIDs s)) i (fold connect_ev es s1)"
    and "evs_ok i f s1 es" and "evs_ok i f s2 es'"
    and "unat (ad_onConnectCallbakCount s) + Suc (length es + length es') < 2 ^ 64"
    and "EvOffConnect 0 \<notin> set (es @ es')"
  shows "count_list (ad_called (fold connect_ev es' s2)) f = count_list (ad_called s) f
      + (if connected2 then 1 else 0) + length (filter is_connected_ev es)
      + (if \<exists>e \<in> set es'. is_connected_ev e then 1 else 0)
    \<and> ad_onConnectCallbaks (fold connect_ev es' s2) 0
      = (if connected2 \<or> (\<exists>e \<in> set es. is_connected_ev e) then None else Some (UserConnect g))"
proof -
  let ?v = "length (ad_subIDs s)"
  have s1: "s1 = snd (once_store connected2 f s)" and i: "i = ad_onConnectCallbakCount s"
    using assms(4) once_store_fields(1) [of connected2 f s] by simp_all
  have pos: "0 < unat i"
    using assms(1,3) i by (auto simp: registry_ok_def)
  have small: "unat i + 1 < 2 ^ 64" using assms(8) i by simp
  have used: "unat (ad_onConnectCallbakCount s1) = unat i + 1"
    using no_wrap [OF small] by (simp add: s1 i once_store_fields)
  have [simp]: "i \<noteq> 0" using pos by auto
  let ?s' = "s\<lparr>ad_onConnectCallbaks := if connected2 then (ad_onConnectCallbaks s)(0 := None) else ad_onConnectCallbaks s\<rparr>"
  have "registry_ok ?s'"
    by (rule registry_ok_removed [OF assms(1)]) simp_all
  then have "registry_ok (once_assign ?v i s1)"
    by (rule registry_ok_store [where ids = "[i]" and cb = "OnceConnect ?v f"])
      (use small in \<open>simp_all add: s1 i once_store_fields\<close>)
  moreover have "{j. \<exists>cb. ad_onConnectCallbaks s1 j = Some cb \<and> user_of cb = Some f} = {i}"
    using assms(2) by (auto simp: s1 i once_store_fields not_registered_def split: if_splits)
  ultimately have start: "window_inv i ?v f s1"
    by (auto simp: window_inv_def once_inv_def s1 i once_store_fields)
  have room: "unat (ad_onConnectCallbakCount s1) + length es < 2 ^ 64"
    using assms(8) used i by simp
  note window = window_history [OF start assms(6) \<open>i \<noteq> 0\<close> room]
  have inv: "once_inv i f True s2"
    using window by (simp add: window_inv_def assms(5))
  have room2: "unat (ad_onConnectCallbakCount s2) + length es' < 2 ^ 64"
    using window assms(8) used i by (simp add: assms(5))
  let ?entry = "if connected2 then None else Some (UserConnect g)"
  let ?entry2 = "if connected2 \<or> (\<exists>e \<in> set es. is_connected_ev e) then None else Some (UserConnect g)"
  have "ad_onConnectCallbaks (fold connect_ev es s1) 0
      = (if \<exists>e \<in> set es. is_connected_ev e then None else ?entry)"
    by (rule window_zero [OF start assms(6) _ room])
      (use assms(3,9) used \<open>i \<noteq> 0\<close> i in \<open>auto simp: s1 once_store_fields\<close>)
  then have zero: "ad_onConnectCallbaks s2 0 = ?entry2"
    by (simp add: assms(5))
  have pos2: "0 < unat (ad_onConnectCallbakCount s2)"
    using inv by (auto simp: once_inv_def registry_ok_def)
  have "ad_onConnectCallbaks (fold connect_ev es' s2) 0 = ?entry2"
    by (rule once_zero [OF inv assms(7) room2 _ pos2 zero]) (use assms(9) in auto)
  moreover have "count_list (ad_called s1) f = count_list (ad_called s) f + (if connected2 then 1 else 0)"
    by (simp add: s1 once_store_fields)
  ultimately show ?thesis
    using once_history [OF inv assms(7) room2] window by (simp add: assms(5))
qed

text \<open>
  A connection in the window, and one after it: the function 7 is called twice, and the function 2,
  which was to run on every connection, is gone.
\<close>

theorem once_window_costs_witness:
  "\<exists>s. (case once_store False 7 demo_user of (i, s1) \<Rightarrow>
      fold connect_ev [EvConnected [1]] (once_assign 0 i (fold connect_ev [EvConnected [0, 1]] s1))) = s
    \<and> count_list (ad_called s) 7 = 2 \<and> ad_onConnectCallbaks s 0 = None"
proof -
  obtain s1 where s1: "once_store False 7 demo_user = (1, s1)" "s1 = snd (once_store False 7 demo_user)"
    using once_store_fields(1) [of False 7 demo_user]
    by (cases "once_store False 7 demo_user") (simp add: demo_user_fields)
  have cbs: "ad_onConnectCallbaks s1 = [0 \<mapsto> UserConnect 2, 1 \<mapsto> OnceConnect 0 7]" "ad_subIDs s1 = [0]"
    by (simp_all add: s1(2) once_store_fields demo_user_fields)
  then have "dom (ad_onConnectCallbaks s1) = set [0, 1]" by auto
  moreover have "ad_onConnectCallbaks (connect_handler [0, 1] s1) = [1 \<mapsto> OnceConnect 0 7]"
    using cbs by (auto simp: connect_handler_def map_filter_simps fun_eq_iff Let_def OffConnect_def)
  ultimately show ?thesis
    using once_window_costs [OF demo_user_ok(1,2) _ s1(1) HOL.refl,
      where g = 2 and es = "[EvConnected [0, 1]]" and es' = "[EvConnected [1]]"]
    by (simp add: demo_user_fields s1(1))
qed

end
