(* ===== verification/Client_Adapter.thy ===== *)
theory Client_Adapter
  imports Rpc_Conn Adapter_Sessions
begin

text \<open>
  Calls on the adapter: what the connections that both clients make for their calls leave behind in
  the adapter that they share (\<open>conn.go\<close> of either transport, on \<open>mqttadapter/mqtt.go\<close>).
  The callbacks that connections register are named by the topic and the quality they subscribe with.
\<close>

type_synonym client_adapter = "(string \<times> byte) adapter"

text \<open>
  The calls that a connection makes, performed on the adapter: a callback that runs subscribes.
\<close>

definition subscribe_for :: "string \<times> byte \<Rightarrow> client_adapter \<Rightarrow> client_adapter" where
  "subscribe_for f s = Subscribe (fst f) (snd f) s"

fun perform :: "bool \<Rightarrow> adapter_call \<Rightarrow> client_adapter \<Rightarrow> client_adapter" where
  "perform connected (CallOnConnect t q) s =
     snd (OnConnect connected (UserConnect (t, q)) (if connected then subscribe_for (t, q) s else s))"
| "perform connected (CallSubscribe t q) s = Subscribe t q s"
| "perform connected (CallUnsubscribe t) s = Unsubscribe t s"
| "perform connected CallDisconnect s = Disconnect s"
| "perform connected CallEnsureConnected s = s"

text \<open>
  A call that was answered or given up: its connection was made, and closed, which unsubscribes.
\<close>

definition finished_call :: "bool \<Rightarrow> string \<times> byte \<Rightarrow> client_adapter \<Rightarrow> client_adapter" where
  "finished_call connected f s =
     fold (perform connected) (snd (NewConn [] (fst f) (snd f)) @ [CallUnsubscribe (fst f)]) s"

text \<open>The client connects again: every registered callback runs.\<close>

definition reconnect :: "64 word list \<Rightarrow> client_adapter \<Rightarrow> client_adapter" where
  "reconnect ks s =
     (let s1 = connect_handler ks s
      in fold subscribe_for (drop (length (ad_called s)) (ad_called s1)) s1)"

section \<open>The registry after calls\<close>

lemma represents_cong:
  "ad_onConnectCallbaks s' = ad_onConnectCallbaks s \<Longrightarrow>
   ad_onConnectCallbakCount s' = ad_onConnectCallbakCount s \<Longrightarrow>
   connect_callbacks.represents L s' \<longleftrightarrow> connect_callbacks.represents L s"
  by (simp add: connect_callbacks.represents_def)

lemma subscription_fields [simp]:
  "ad_onConnectCallbaks (Subscribe t q s) = ad_onConnectCallbaks s"
  "ad_onConnectCallbakCount (Subscribe t q s) = ad_onConnectCallbakCount s"
  "ad_onConnectCallbaks (Unsubscribe t s) = ad_onConnectCallbaks s"
  "ad_onConnectCallbakCount (Unsubscribe t s) = ad_onConnectCallbakCount s"
  "ad_subscribeMap (Subscribe t q s) = insert t (ad_subscribeMap s)"
  "ad_subscribeMap (Unsubscribe t s) = ad_subscribeMap s - {t}"
  by (simp_all add: adapter_simps)

lemma finished_call_represents:
  assumes "connect_callbacks.represents L s" and "length L < 2 ^ 64"
  shows "connect_callbacks.represents (L @ [Some (UserConnect f)]) (finished_call connected f s)"
proof -
  let ?s1 = "if connected then run_connect_callback (UserConnect f) (subscribe_for f s) else s"
  have "connect_callbacks.represents L ?s1"
    using assms(1) by (simp add: subscribe_for_def connect_callbacks.represents_def)
  from connect_callbacks.represents_register [OF this assms(2), of "UserConnect f"]
  show ?thesis
    unfolding finished_call_def NewConn_def
    by (cases f) (auto simp: OnConnect_def connect_callbacks.represents_def split: if_splits)
qed

lemma finished_call_subscribeMap:
  "ad_subscribeMap (finished_call connected f s) = ad_subscribeMap s - {fst f}"
  by (cases f)
    (auto simp: finished_call_def NewConn_def subscribe_for_def adapter_simps)

lemma finished_calls:
  assumes "connect_callbacks.represents [] s" and "ad_subscribeMap s = {}" and "length fs < 2 ^ 64"
  shows "connect_callbacks.represents (map (\<lambda>f. Some (UserConnect f)) fs) (fold (finished_call connected) fs s)
    \<and> ad_subscribeMap (fold (finished_call connected) fs s) = {}"
  using assms(3)
proof (induction fs rule: rev_induct)
  case Nil
  with assms(1,2) show ?case by simp
next
  case (snoc f fs)
  then show ?case
    using finished_call_represents [of "map (\<lambda>f. Some (UserConnect f)) fs" _ f connected]
    by (simp add: finished_call_subscribeMap)
qed

lemma subscribe_all:
  "ad_subscribeMap (fold subscribe_for fs s) = ad_subscribeMap s \<union> fst ` set fs"
  by (induction fs arbitrary: s) (auto simp: subscribe_for_def)

lemma run_connect_subscribeMap:
  "ad_subscribeMap (fold run_connect_callback cbs s) = ad_subscribeMap s"
proof (induction cbs arbitrary: s)
  case (Cons cb cbs)
  then show ?case
    by (cases cb) (simp_all add: adapter_simps)
qed simp

lemma set_map_filter1: "set (List.map_filter g ks) = {f. \<exists>k \<in> set ks. g k = Some f}"
  by (induction ks) (auto simp: map_filter_simps split: option.splits)

lemma reconnect_subscribeMap:
  assumes "set ks = dom (ad_onConnectCallbaks s)"
  shows "ad_subscribeMap (reconnect ks s) = ad_subscribeMap s \<union>
    fst ` {f. \<exists>j cb. ad_onConnectCallbaks s j = Some cb \<and> user_of cb = Some f}"
proof -
  let ?fs = "List.map_filter (\<lambda>k. Option.bind (ad_onConnectCallbaks s k) user_of) ks"
  have "set ?fs = {f. \<exists>j cb. ad_onConnectCallbaks s j = Some cb \<and> user_of cb = Some f}"
    using assms by (auto simp: set_map_filter1 bind_eq_Some_conv)
  moreover have "drop (length (ad_called s)) (ad_called (connect_handler ks s)) = ?fs"
    by (simp add: connect_handler_def run_callbacks_fields map_filter_map_filter)
  moreover have "ad_subscribeMap (connect_handler ks s) = ad_subscribeMap s"
    by (simp add: connect_handler_def run_connect_subscribeMap)
  ultimately show ?thesis by (simp add: reconnect_def subscribe_all)
qed

text \<open>
  C15. Finished calls come back: the callback that a call registers is never taken off, so after any
  number of calls, each of which unsubscribed from its topic, the adapter keeps no topic and a
  callback for every one of them; when the client connects again, it subscribes to the response
  topics of all calls that it ever made.
\<close>

theorem finished_calls_resubscribed:
  assumes "New parsed connected uri clientID [] = Inr s" and "length fs < 2 ^ 64"
    and "set ks = dom (ad_onConnectCallbaks (fold (finished_call online) fs s))"
  shows "ad_subscribeMap (fold (finished_call online) fs s) = {}
    \<and> ad_subscribeMap (reconnect ks (fold (finished_call online) fs s)) = fst ` set fs"
proof -
  let ?s = "fold (finished_call online) fs s"
  have "connect_callbacks.represents [] s" "ad_subscribeMap s = {}"
    using assms(1)
    by (auto simp: New_def Let_def connect_callbacks.represents_def apply_options_def new_options_def
        split: sum.splits)
  from finished_calls [OF this assms(2), of online]
  have repr: "connect_callbacks.represents (map (\<lambda>f. Some (UserConnect f)) fs) ?s"
    and none: "ad_subscribeMap ?s = {}" by simp_all
  have "{f. \<exists>j cb. ad_onConnectCallbaks ?s j = Some cb \<and> user_of cb = Some f} = set fs"
  proof (intro equalityI subsetI)
    fix f
    assume "f \<in> {f. \<exists>j cb. ad_onConnectCallbaks ?s j = Some cb \<and> user_of cb = Some f}"
    then show "f \<in> set fs"
      by (auto simp: connect_callbacks.representsD [OF repr] split: if_splits)
  next
    fix f
    assume "f \<in> set fs"
    then obtain i where i: "i < length fs" "fs ! i = f" by (auto simp: in_set_conv_nth)
    with assms(2) have "unat (of_nat i :: 64 word) = i" by (simp add: unat_of_nat)
    with i have "ad_onConnectCallbaks ?s (of_nat i) = Some (UserConnect f)"
      by (simp add: connect_callbacks.representsD [OF repr])
    then show "f \<in> {f. \<exists>j cb. ad_onConnectCallbaks ?s j = Some cb \<and> user_of cb = Some f}" by force
  qed
  with reconnect_subscribeMap [OF assms(3)] none show ?thesis by simp
qed

theorem finished_calls_resubscribed_witness:
  "\<exists>s :: client_adapter. New (Inr ''u'') False ''u'' ''c'' [] = Inr s
    \<and> ad_subscribeMap (reconnect [0] (fold (finished_call True) [(''a/d/response/1'', 0)] s)) = {''a/d/response/1''}"
proof -
  obtain s :: client_adapter where s: "New (Inr ''u'') False ''u'' ''c'' [] = Inr s"
    by (simp add: New_def Let_def)
  then have "set [0] = dom (ad_onConnectCallbaks (fold (finished_call True) [(''a/d/response/1'', 0)] s))"
    by (auto simp: New_def Let_def apply_options_def new_options_def finished_call_def NewConn_def
        OnConnect_def store_on_connect_def subscribe_for_def)
  from finished_calls_resubscribed [OF s _ this] s show ?thesis by simp
qed

end
