(* ===== verification/Listening.thy ===== *)
theory Listening
  imports Client_Adapter Adapter_Interface Pb_Client Json_Client
begin

text \<open>
  Servers and clients on one adapter: how a new server comes to listen on its topic when the
  connection comes up at the same time (\<open>NewServer\<close> of \<open>mqttpb\<close> and \<open>mqttjson\<close> on
  \<open>OnConnect\<close> of \<open>mqttadapter/mqtt.go\<close>), and the methods that the clients forward to it.
\<close>

section \<open>Methods that forward\<close>

datatype 'f client_method =
    C_OnConnect bool 'f
  | C_IsConnected bool
  | C_Close
  | C_Subscribe string byte

fun pb_client_forward :: "'f client_method \<Rightarrow> 'f session \<Rightarrow> adapter_answer \<times> 'f session" where
  "pb_client_forward (C_OnConnect c f) s = session_step (Invoke (M_OnConnect c f)) s"
| "pb_client_forward (C_IsConnected b) s = session_step (Invoke (M_IsConnected b)) s"
| "pb_client_forward C_Close s = (AnError None, snd (session_step (Invoke M_Disconnect) s))"
| "pb_client_forward (C_Subscribe t q) s = session_step (Invoke (M_Subscribe t q)) s"

fun json_client_forward :: "'f client_method \<Rightarrow> 'f session \<Rightarrow> adapter_answer \<times> 'f session" where
  "json_client_forward (C_OnConnect c f) s = session_step (Invoke (M_OnConnect c f)) s"
| "json_client_forward (C_IsConnected b) s = session_step (Invoke (M_IsConnected b)) s"
| "json_client_forward C_Close s = (AnError None, snd (session_step (Invoke M_Disconnect) s))"
| "json_client_forward (C_Subscribe t q) s = session_step (Invoke (M_Subscribe t q)) s"

lemma json_client_forward_eq: "json_client_forward m s = pb_client_forward m s"
  by (cases m) simp_all

lemma closed_client_stops: "ad_stopRetryConnect (se_adapter (snd (pb_client_forward C_Close s)))"
  by (simp add: Let_def)

text \<open>
  A client that is closed stops the adapter for everyone who shares it: from then on nobody who asks
  it to connect, a new client or server among them, makes an attempt.
\<close>

lemma closed_client_ends_connecting:
  assumes "\<And>g. g \<in> set (se_goroutines s) \<Longrightarrow> \<not> past_check g" and "\<And>w. Invoke (M_Connect w) \<notin> set es"
  shows "attempts (se_adapter (snd (session_run es (snd (pb_client_forward C_Close s)))))
    \<le> attempts (se_adapter s)"
proof -
  define s' where "s' = snd (pb_client_forward C_Close s)"
  have "filter past_check (se_goroutines s) = []"
    using assms(1) by (simp add: filter_empty_conv)
  then have "attempts_bound s' = attempts (se_adapter s)"
    by (simp add: s'_def attempts_bound_def Let_def Disconnect_def) (simp add: attempts_def)
  moreover have "ad_stopRetryConnect (se_adapter s')"
    unfolding s'_def by (rule closed_client_stops)
  ultimately show ?thesis
    using stopped_history [OF _ assms(2), of s' 0]
    unfolding s'_def [symmetric] by (simp add: attempts_bound_def)
qed

section \<open>OnConnect in two steps\<close>

text \<open>
  \<open>OnConnect\<close> asks whether the client is connected, and runs the callback if it is; then it stores
  the callback.  A connection that comes up runs the callbacks that are stored at that moment.
\<close>

definition listen_ask :: "bool \<Rightarrow> string \<times> byte \<Rightarrow> client_adapter \<Rightarrow> client_adapter" where
  "listen_ask connected f s =
     (if connected then run_connect_callback (UserConnect f) (subscribe_for f s) else s)"

definition listen_store :: "string \<times> byte \<Rightarrow> client_adapter \<Rightarrow> client_adapter" where
  "listen_store f s = snd (store_on_connect (UserConnect f) s)"

lemma perform_steps:
  "perform connected (CallOnConnect t q) s = listen_store (t, q) (listen_ask connected (t, q) s)"
  by (simp add: OnConnect_def listen_store_def listen_ask_def)

datatype moment = BeforeAsking | InBetween | AfterStoring

text \<open>The client connects once, at one of three moments; the walk \<open>ks\<close> is the one of that connection.\<close>

fun start_listening ::
  "moment \<Rightarrow> 64 word list \<Rightarrow> string \<times> byte \<Rightarrow> client_adapter \<Rightarrow> client_adapter" where
  "start_listening BeforeAsking ks f s = listen_store f (listen_ask True f (reconnect ks s))"
| "start_listening InBetween ks f s = listen_store f (reconnect ks (listen_ask False f s))"
| "start_listening AfterStoring ks f s = reconnect ks (listen_store f (listen_ask False f s))"

fun walked_at :: "moment \<Rightarrow> string \<times> byte \<Rightarrow> client_adapter \<Rightarrow> client_adapter" where
  "walked_at BeforeAsking f s = s"
| "walked_at InBetween f s = s"
| "walked_at AfterStoring f s = listen_store f s"

definition listens_for :: "string \<Rightarrow> client_adapter \<Rightarrow> bool" where
  "listens_for topic s \<longleftrightarrow>
     topic \<in> ad_subscribeMap s \<or>
     (\<exists>j cb f. ad_onConnectCallbaks s j = Some cb \<and> user_of cb = Some f \<and> fst f = topic)"

lemma listen_fields:
  "ad_subscribeMap (listen_store f s) = ad_subscribeMap s"
  "ad_onConnectCallbaks (listen_store f s) = (ad_onConnectCallbaks s)(ad_onConnectCallbakCount s \<mapsto> UserConnect f)"
  "ad_subscribeMap (listen_ask c f s) = (if c then insert (fst f) (ad_subscribeMap s) else ad_subscribeMap s)"
  "listen_ask False f s = s"
  by (simp_all add: listen_store_def listen_ask_def store_on_connect_def subscribe_for_def Let_def)

text \<open>A topic that nothing on the adapter asks for is listened on unless the connection came in between.\<close>

lemma start_listening_iff:
  assumes "\<not> listens_for (fst f) s" and "set ks = dom (ad_onConnectCallbaks (walked_at mom f s))"
  shows "fst f \<in> ad_subscribeMap (start_listening mom ks f s) \<longleftrightarrow> mom \<noteq> InBetween"
proof (cases mom)
  case BeforeAsking
  then show ?thesis by (simp add: listen_fields)
next
  case InBetween
  with assms have ks: "set ks = dom (ad_onConnectCallbaks s)" by simp
  have "fst f \<notin> ad_subscribeMap (reconnect ks s)"
    using assms(1) unfolding reconnect_subscribeMap [OF ks] listens_for_def by auto
  with InBetween show ?thesis by (simp add: listen_fields)
next
  case AfterStoring
  with assms have ks: "set ks = dom (ad_onConnectCallbaks (listen_store f s))" by simp
  have "\<exists>j cb. ad_onConnectCallbaks (listen_store f s) j = Some cb \<and> user_of cb = Some f"
    by (intro exI [of _ "ad_onConnectCallbakCount s"]) (simp add: listen_fields)
  then have "fst f \<in> ad_subscribeMap (reconnect ks (listen_store f s))"
    unfolding reconnect_subscribeMap [OF ks] by blast
  with AfterStoring show ?thesis by (simp add: listen_fields)
qed


text \<open>An adapter on which nothing is registered.\<close>

definition quiet_adapter :: client_adapter where
  "quiet_adapter = (case New (Inr ''tcp://broker'') False ''tcp://broker'' ''c'' [] of Inr s \<Rightarrow> s)"

lemma quiet_adapter_fields:
  "ad_onConnectCallbaks quiet_adapter = Map.empty" "ad_subscribeMap quiet_adapter = {}"
  "ad_onConnectCallbakCount quiet_adapter = 0"
  by (simp_all add: quiet_adapter_def New_def Let_def apply_options_def new_options_def)


end
