(* ===== verification/Spec2Isabelle.thy ===== *)
theory Spec2Isabelle
  imports Codec_Exclusive Json_Network Pb_Progress Call_Effects Test_Telemetry Math_Example Adapter_Refinement Once_Window Listening
begin

text \<open>
  A model of go-reverse-rpc, a Go library for calling procedures on devices over an MQTT broker:
  a device runs a server that subscribes to \<open>prefix/device/request/+\<close>; a client publishes a
  request on \<open>prefix/device/request/id\<close> and waits for the answer on
  \<open>prefix/device/response/id\<close>.  Everything is translated from the source under \<open>src/\<close>; names
  are those of the source, with a prefix (\<open>pb_\<close>, \<open>json_\<close>, \<open>tel_\<close>) where two packages
  use the same one.

  \<^bold>\<open>Shared parts.\<close>  \<open>Prelude\<close> has bytes, error values, panics as outcomes and the status
  codes (\<open>constants.go\<close>).  \<open>Go_Std\<close> has the functions of the Go library that topics and
  identifiers are computed with: replacing, splitting, \<open>path.Clean\<close> and \<open>path.Join\<close>, decimal
  numbers.  \<open>Topics\<close> says what joining gives for the topics of the program, and when replacing
  the word "request" in one of them gives the topic of the answer.  \<open>Broker\<close> has messages and
  the calls on an adapter.

  \<^bold>\<open>Request context and server\<close> (\<open>context.go\<close>, \<open>server.go\<close>, \<open>server_option.go\<close>).
  \<open>Request_Context\<close> models the context that lets a request be answered once.  Handlers are
  programs of context operations, goroutines are threads that run them, and the operations that
  other goroutines can see are separate steps.  The locale \<open>child_context\<close> is the contract of a
  transport: a reply publishes at most one message, on the reply topic, and replying an error does
  not panic.  \<open>Server_Core\<close> models \<open>Call\<close> as the goroutine of the caller and one of the
  worker pool, with the limiter, the timeout of the pool, the recovery of panics and the deferred
  recording.  Its properties hold for all schedules: at most one answer, the answer that telemetry
  and callbacks see, the exact window in which the deferred function crashes, and that a call
  returns whose handler is not interrupted.  \<open>Call_Replies\<close> says which responses the threads of a call
  can give to the transport, for the theories that run many calls at once.

  \<^bold>\<open>Compression\<close> (\<open>compressor/compressor.go\<close>).  \<open>Compressor\<close> models the pools of writers
  and buffers, with buffers as places in a store, so that a result is a slice that may be
  overwritten later.  The locale \<open>byte_compressor\<close> is what the codecs rely on.  The streams of
  gzip, zlib and brotli are parameters that decode what they encoded.

  \<^bold>\<open>Protobuf transport\<close> (\<open>mqttpb/\<close>).  \<open>Pb_Codec\<close> has the messages and both codecs, round
  trips, and the overwriting of one reply's body by another.  \<open>Pb_Server\<close> has receiving, binding
  and replying and interprets \<open>child_context\<close>.  \<open>Rpc_Conn\<close> is the connection of a call, a state
  machine of the goroutine that delivers a message, the one that reads and the caller that closes;
  while it is open, what is read is the message that arrived.  \<open>Pb_Client\<close> has the codec that net/rpc drives, the call,
  and the calls from end to end.  \<open>Codec_Pool\<close> has calls that share a codec of the client's pool, in
  the steps of their callers and reading goroutines, and two schedules in which one call gets what
  belongs to another; \<open>Codec_Exclusive\<close> shows that every call gets its own answer when a codec is
  handed on only after its reading goroutine has ended, by projecting each call to a run of
  \<open>Rpc_Conn\<close>.  \<open>Pb_Reply\<close> takes the reply of a server apart at the point where its compressed body may
  be a view of a pooled buffer, and \<open>Pb_Network\<close> runs any number of calls to one device at the same
  time, with a broker that reorders, loses and repeats messages and replies in two steps.  Every call
  gets the outcome of its own request or an error, as long as no reply takes the buffer that another
  still reads, and always when no call asks for compression; without that there is a run in which a
  caller gets the message of another.  \<open>Pb_Progress\<close> shows that a new call can complete in whatever
  state the machine is in, while the server is up.

  \<^bold>\<open>JSON transport\<close> (\<open>mqttjson/\<close>).  \<open>Json_Codec\<close> has the messages and what
  \<open>encoding/json\<close> makes of them as trees, member by member, with what it does on values that do
  not fit.  \<open>Json_Server\<close> interprets \<open>child_context\<close> again; \<open>Json_Conn\<close> has the methods of the connection
  (\<open>mqttjson/conn.go\<close>), which are the steps of \<open>Rpc_Conn\<close>; \<open>Json_Client\<close> has codec, call
  and the calls from end to end.  \<open>Json_Network\<close> runs any number of calls to one device at the same
  time: the callers, a broker that reorders, loses and repeats messages, and the server with all its running
  calls, as one machine.  Every call gets the outcome of its own request or an error, and while the
  server is up a new call has a way on in which it gets the former.

  \<^bold>\<open>Adapter\<close> (\<open>mqttadapter/\<close>).  \<open>Adapter_Options\<close> has the options.  \<open>Callback_Registry\<close> is
  the interface of a registry as a locale, with the list of all registrations as its abstraction;
  \<open>Mqtt_Adapter\<close> has the adapter and interprets the locale for both of its registries.
  \<open>Adapter_Sessions\<close> has the connecting loop and the subscriptions over time, and
  \<open>Client_Adapter\<close> what calls leave behind in an adapter.  \<open>Adapter_Interface\<close> has every method of
  \<open>mqttadapter/interface.go\<close> as one type of calls, the goroutines that connect in the background,
  and histories of calls, connections and losses; it shows what \<open>Disconnect\<close> stops.
  \<open>Adapter_Refinement\<close> has the specification of the adapter, lists of callbacks without indices or
  captured variables, and the refinement over all histories.  Two operations have a window that other
  goroutines can come into: \<open>Once_Window\<close> splits \<open>OnConnectOnce\<close> at its variable, \<open>Listening\<close>
  splits \<open>OnConnect\<close>, as new servers call it, at its lock.

  \<^bold>\<open>Telemetry\<close> (\<open>telemetry/telemetry.go\<close>) is the theory \<open>Telemetry\<close>; \<open>Call_Effects\<close> composes
  it, and the registered callbacks, with \<open>Call\<close>.  \<open>Test_Telemetry\<close> is the helper of the tests
  (\<open>telemetry/testing.go\<close>).

  \<^bold>\<open>Examples\<close> (\<open>examples/basic/\<close>).  \<open>Math_Example\<close> has both server programs and the client, and
  what a call computes from end to end.

  \<^bold>\<open>Bounds and fuel.\<close>  Schedules of goroutines are lists of actors; a step that is not enabled
  makes the run \<open>None\<close>.  That calls come to an end is stated by a schedule that ends them.  The
  connecting loop may go on for ever and is a partial function with values in \<open>option\<close>; when it
  returns is a theorem.  Identifiers are 64-bit words, statuses of the protobuf messages 32-bit
  words, callback indices 64-bit words that wrap around: statements about histories of an adapter have fewer
  than \<open>2 ^ 64\<close> events.

  \<^bold>\<open>Parameters.\<close>  The protobuf runtime, the compression streams, the text of JSON trees and the
  values of callers, the validator, the propagator of tracing contexts, the OpenTelemetry SDK and
  the answers of the MQTT client library are arguments of the definitions, and so is the floating
  point of the examples.  What is assumed of them
  is stated where it is used: reading gives back what was written.

  \<^bold>\<open>Not modelled.\<close>  Log lines; the times between events, of which only their order matters; the
  reflection code that the protobuf compiler generated; the mocks and the messages of the tests
  (\<open>mock/\<close>, \<open>mqttadapter/mock/\<close>, \<open>mqttpb/test/\<close>); the flags, files and signals of the
  example programs beyond what they decide.  The names of JSON members are
  compared up to the case of ASCII letters only.
\<close>

end
